(* ===== verification/Fdos_Prelude.thy ===== *)
theory Fdos_Prelude
  imports Main "HOL-Library.Word" "HOL-Library.Multiset" "HOL-Library.List_Lexorder"
    "HOL-Library.Char_ord"
begin

text \<open>
  The prelude of the development: how Go's errors and results are written in HOL, the
  type names the component theories share, the collections of rewrite rules they fill,
  and the generic lemmas on results, lists and sorting that carry their proofs.

  \<^bold>\<open>Errors.\<close> A Go error built with \<^verbatim>\<open>errors.New\<close> is a sentinel; \<^verbatim>\<open>fmt.Errorf\<close> with
  \<^verbatim>\<open>%w\<close> wraps sentinels; \<^verbatim>\<open>errors.Is\<close> asks whether a sentinel is in the chain. A sentinel is
  represented by its message, which the packages choose pairwise distinct, and an error by
  the list of the sentinels it wraps, outermost first. The formatted text around the
  sentinels is not represented. An error that wraps no sentinel is the empty chain, and a
  Go panic is the chain of the one pseudo-sentinel \<open>Panic\<close>.

  \<^bold>\<open>Results.\<close> A Go function returning \<open>(T, error)\<close> returns \<open>'a result\<close>: \<open>Inl\<close> the error or
  \<open>Inr\<close> the value. \<open>bindR\<close> is the \<^verbatim>\<open>if err != nil { return err }\<close> idiom.
\<close>

type_synonym sentinel = string
type_synonym go_error = "sentinel list"
type_synonym 'a result = "go_error + 'a"

type_synonym u8 = "8 word"
type_synonym u32 = "32 word"
type_synonym u64 = "64 word"
type_synonym i32 = "32 word"

definition Panic :: sentinel where
  "Panic = ''panic''"

definition errors_Is :: "go_error \<Rightarrow> sentinel \<Rightarrow> bool" where
  "errors_Is e s \<longleftrightarrow> s \<in> set e"

definition wrap :: "sentinel \<Rightarrow> go_error \<Rightarrow> go_error" where
  "wrap s e = s # e"

fun bindR :: "'a result \<Rightarrow> ('a \<Rightarrow> 'b result) \<Rightarrow> 'b result" where
  "bindR (Inl e) f = Inl e"
| "bindR (Inr x) f = f x"

fun wrapR :: "sentinel \<Rightarrow> 'a result \<Rightarrow> 'a result" where
  "wrapR s (Inl e) = Inl (wrap s e)"
| "wrapR s (Inr x) = Inr x"

fun mapR :: "('a \<Rightarrow> 'b result) \<Rightarrow> 'a list \<Rightarrow> 'b list result" where
  "mapR f [] = Inr []"
| "mapR f (x # xs) = bindR (f x) (\<lambda>y. bindR (mapR f xs) (\<lambda>ys. Inr (y # ys)))"

fun is_ok :: "'a result \<Rightarrow> bool" where
  "is_ok (Inl _) = False"
| "is_ok (Inr _) = True"

named_theorems sentinel_defs \<open>the messages of the sentinel errors\<close>
named_theorems tag_defs \<open>the string constants that name pre-image kinds and fact types\<close>
named_theorems enum_defs \<open>the numerals of the uint8 and proto enumerations\<close>

declare Panic_def [sentinel_defs]

section \<open>Results\<close>

lemma bindR_Inr_iff [simp]: "bindR m f = Inr y \<longleftrightarrow> (\<exists>x. m = Inr x \<and> f x = Inr y)"
  by (cases m) auto

lemma bindR_Inl_iff:
  "bindR m f = Inl e \<longleftrightarrow> m = Inl e \<or> (\<exists>x. m = Inr x \<and> f x = Inl e)"
  by (cases m) auto

lemma bindR_assoc: "bindR (bindR m f) g = bindR m (\<lambda>x. bindR (f x) g)"
  by (cases m) auto

lemma bindR_Inr_right [simp]: "bindR m Inr = m"
  by (cases m) auto

lemma wrapR_Inr_iff [simp]: "wrapR s m = Inr x \<longleftrightarrow> m = Inr x"
  by (cases m) auto

lemma wrapR_Inl_iff [simp]: "wrapR s m = Inl e \<longleftrightarrow> (\<exists>e'. m = Inl e' \<and> e = wrap s e')"
  by (cases m) auto

lemma is_ok_iff: "is_ok r \<longleftrightarrow> (\<exists>x. r = Inr x)"
  by (cases r) auto

lemma mapR_all_Inr:
  "(\<And>x. x \<in> set xs \<Longrightarrow> f x = Inr (g x)) \<Longrightarrow> mapR f xs = Inr (map g xs)"
  by (induction xs) auto

lemma mapR_Inr_length: "mapR f xs = Inr ys \<Longrightarrow> length ys = length xs"
  by (induction xs arbitrary: ys) auto

section \<open>Lists\<close>

lemma append_eq_same_length:
  "length a = length b \<Longrightarrow> a @ xs = b @ ys \<longleftrightarrow> a = b \<and> xs = ys"
  by simp

lemma cut_at:
  assumes "c \<notin> set xs" "c \<notin> set xs'" "xs @ c # ys = xs' @ c # ys'"
  shows "xs = xs' \<and> ys = ys'"
  using assms
proof (induction xs arbitrary: xs')
  case Nil
  then show ?case by (cases xs') auto
next
  case (Cons x xs)
  then show ?case by (cases xs') auto
qed

lemma nth_last_snoc [simp]: "(xs @ [x]) ! length xs = x"
  by simp

text \<open>
  Stable sorting by a key is determined by the multiset of elements when the keys are
  pairwise distinct: the caller's argument order is forgotten.
\<close>

lemma sort_key_perm_eq:
  fixes f :: "'a \<Rightarrow> 'k::linorder"
  assumes "mset xs = mset ys" and "distinct (map f xs)"
  shows "sort_key f xs = sort_key f ys"
proof (rule map_sorted_distinct_set_unique [of f])
  have sets: "set xs = set ys" using assms(1) by (rule mset_eq_setD)
  have keys: "mset (map f xs) = mset (map f ys)" using assms(1) by simp
  show "inj_on f (set (sort_key f xs) \<union> set (sort_key f ys))"
    using assms(2) sets by (simp add: distinct_map)
  show "distinct (map f (sort_key f xs))" using assms(2) by (simp add: distinct_map)
  show "distinct (map f (sort_key f ys))"
    using assms(2) mset_eq_imp_distinct_iff [OF keys] by (simp add: distinct_map)
  show "set (sort_key f xs) = set (sort_key f ys)" using sets by simp
qed simp_all

text \<open>When no run from a state is longer than a bound, some run ends where no step is possible.\<close>

lemma bounded_run_ends:
  assumes "\<And>m c. (R ^^ m) s c \<Longrightarrow> m \<le> N"
  shows "\<exists>c. R\<^sup>*\<^sup>* s c \<and> (\<nexists>c'. R c c')"
proof (rule ccontr)
  assume "\<not> ?thesis"
  then have go: "\<exists>c'. R c c'" if "R\<^sup>*\<^sup>* s c" for c using that by blast
  have "\<exists>c. (R ^^ m) s c" for m
  proof (induction m)
    case (Suc m)
    then obtain c where c: "(R ^^ m) s c" by blast
    with go [of c] obtain c' where "R c c'" by (auto dest: relpowp_imp_rtranclp)
    with c show ?case by auto
  qed auto
  then show False using assms [of "Suc N"] by fastforce
qed

end
