(* ===== verification/Go_Strings.thy ===== *)
theory Go_Strings
  imports Fdos_Prelude
begin

text \<open>
  What the program uses of Go's string handling. A Go \<^verbatim>\<open>string\<close> is a byte sequence and is
  modelled by \<open>string\<close>, a list of 8-bit characters. Ranging over a string decodes UTF-8:
  an ill-formed byte yields U+FFFD and consumes one byte, as \<^verbatim>\<open>utf8.DecodeRuneInString\<close>
  does. \<open>tokens\<close> keeps each decoded rune beside the bytes it came from, because
  \<^verbatim>\<open>strings.Fields\<close> and \<^verbatim>\<open>strings.TrimSpace\<close> return substrings while \<^verbatim>\<open>strings.Map\<close>
  re-encodes.

  \<^verbatim>\<open>unicode.IsSpace\<close> is written out in full. The letter-case tables of the \<^verbatim>\<open>unicode\<close> package
  beyond ASCII are generated data that depend on the Go release; they are the parameter
  \<open>unicode\<close>, an argument of every definition that folds case. Within ASCII the mapping is
  the one the package hard-codes.

  Also here: \<^verbatim>\<open>encoding/hex\<close>, decimal rendering (\<^verbatim>\<open>%d\<close>) and big-endian integers.
\<close>

type_synonym rune = nat

record unicode =
  uc_upper :: "rune \<Rightarrow> rune"
  uc_lower :: "rune \<Rightarrow> rune"

section \<open>UTF-8\<close>

definition RuneError :: rune where
  "RuneError = 0xFFFD"

definition seq_len :: "nat \<Rightarrow> nat" where
  "seq_len b =
     (if b < 0x80 then 1
      else if 0xC2 \<le> b \<and> b \<le> 0xDF then 2
      else if 0xE0 \<le> b \<and> b \<le> 0xEF then 3
      else if 0xF0 \<le> b \<and> b \<le> 0xF4 then 4
      else 0)"

definition accept_lo :: "nat \<Rightarrow> nat" where
  "accept_lo b = (if b = 0xE0 then 0xA0 else if b = 0xF0 then 0x90 else 0x80)"

definition accept_hi :: "nat \<Rightarrow> nat" where
  "accept_hi b = (if b = 0xED then 0x9F else if b = 0xF4 then 0x8F else 0xBF)"

definition accepts :: "nat \<Rightarrow> nat \<Rightarrow> bool" where
  "accepts b0 b1 \<longleftrightarrow> accept_lo b0 \<le> b1 \<and> b1 \<le> accept_hi b0"

definition is_cont :: "nat \<Rightarrow> bool" where
  "is_cont b \<longleftrightarrow> 0x80 \<le> b \<and> b \<le> 0xBF"

text \<open>The first rune of a non-empty string and how many bytes after the first it takes.\<close>

definition decode_rune :: "char \<Rightarrow> string \<Rightarrow> rune \<times> nat" where
  "decode_rune c cs =
     (let b0 = of_char c; bs = map of_char cs
      in if seq_len b0 = 1 then (b0, 0)
         else if seq_len b0 = 2 then
           (case bs of
              b1 # _ \<Rightarrow> if accepts b0 b1 then (b0 mod 32 * 64 + b1 mod 64, 1)
                        else (RuneError, 0)
            | _ \<Rightarrow> (RuneError, 0))
         else if seq_len b0 = 3 then
           (case bs of
              b1 # b2 # _ \<Rightarrow>
                if accepts b0 b1 \<and> is_cont b2
                then (b0 mod 16 * 4096 + b1 mod 64 * 64 + b2 mod 64, 2)
                else (RuneError, 0)
            | _ \<Rightarrow> (RuneError, 0))
         else if seq_len b0 = 4 then
           (case bs of
              b1 # b2 # b3 # _ \<Rightarrow>
                if accepts b0 b1 \<and> is_cont b2 \<and> is_cont b3
                then (b0 mod 8 * 262144 + b1 mod 64 * 4096 + b2 mod 64 * 64 + b3 mod 64, 3)
                else (RuneError, 0)
            | _ \<Rightarrow> (RuneError, 0))
         else (RuneError, 0))"

function tokens :: "string \<Rightarrow> (rune \<times> string) list" where
  "tokens [] = []"
| "tokens (c # cs) =
     (case decode_rune c cs of (r, k) \<Rightarrow> (r, c # take k cs) # tokens (drop k cs))"
  by pat_completeness auto
termination
  by (relation "measure length") auto

definition runes :: "string \<Rightarrow> rune list" where
  "runes s = map fst (tokens s)"

definition valid_rune :: "rune \<Rightarrow> bool" where
  "valid_rune r \<longleftrightarrow> r < 0xD800 \<or> 0xE000 \<le> r \<and> r \<le> 0x10FFFF"

definition encode_valid :: "rune \<Rightarrow> string" where
  "encode_valid r =
     (if r < 0x80 then [char_of r]
      else if r < 0x800 then [char_of (0xC0 + r div 64), char_of (0x80 + r mod 64)]
      else if r < 0x10000 then
        [char_of (0xE0 + r div 4096), char_of (0x80 + r div 64 mod 64),
         char_of (0x80 + r mod 64)]
      else
        [char_of (0xF0 + r div 262144), char_of (0x80 + r div 4096 mod 64),
         char_of (0x80 + r div 64 mod 64), char_of (0x80 + r mod 64)])"

definition encode_rune :: "rune \<Rightarrow> string" where
  "encode_rune r = encode_valid (if valid_rune r then r else RuneError)"

section \<open>The strings and unicode packages\<close>

definition IsSpace :: "rune \<Rightarrow> bool" where
  "IsSpace r \<longleftrightarrow>
     0x09 \<le> r \<and> r \<le> 0x0D \<or> r = 0x20 \<or> r = 0x85 \<or> r = 0xA0 \<or> r = 0x1680 \<or>
     0x2000 \<le> r \<and> r \<le> 0x200A \<or> r = 0x2028 \<or> r = 0x2029 \<or> r = 0x202F \<or>
     r = 0x205F \<or> r = 0x3000"

definition unicode_ToUpper :: "unicode \<Rightarrow> rune \<Rightarrow> rune" where
  "unicode_ToUpper uc r =
     (if r < 0x80 then (if 0x61 \<le> r \<and> r \<le> 0x7A then r - 0x20 else r) else uc_upper uc r)"

definition unicode_ToLower :: "unicode \<Rightarrow> rune \<Rightarrow> rune" where
  "unicode_ToLower uc r =
     (if r < 0x80 then (if 0x41 \<le> r \<and> r \<le> 0x5A then r + 0x20 else r) else uc_lower uc r)"

text \<open>\<^verbatim>\<open>strings.Map\<close>: \<open>None\<close> is a negative result of the mapping, which drops the rune.\<close>

fun map_runes :: "(rune \<Rightarrow> rune option) \<Rightarrow> rune list \<Rightarrow> string" where
  "map_runes f [] = []"
| "map_runes f (r # rs) =
     (case f r of None \<Rightarrow> map_runes f rs | Some r' \<Rightarrow> encode_rune r' @ map_runes f rs)"

definition strings_Map :: "(rune \<Rightarrow> rune option) \<Rightarrow> string \<Rightarrow> string" where
  "strings_Map f s = map_runes f (runes s)"

definition ToUpper :: "unicode \<Rightarrow> string \<Rightarrow> string" where
  "ToUpper uc s = strings_Map (\<lambda>r. Some (unicode_ToUpper uc r)) s"

definition ToLower :: "unicode \<Rightarrow> string \<Rightarrow> string" where
  "ToLower uc s = strings_Map (\<lambda>r. Some (unicode_ToLower uc r)) s"

fun split_on :: "('a \<Rightarrow> bool) \<Rightarrow> 'a list \<Rightarrow> 'a list list" where
  "split_on P [] = [[]]"
| "split_on P (x # xs) =
     (if P x then [] # split_on P xs
      else case split_on P xs of [] \<Rightarrow> [[x]] | w # ws \<Rightarrow> (x # w) # ws)"

definition token_bytes :: "(rune \<times> string) list \<Rightarrow> string" where
  "token_bytes ts = concat (map snd ts)"

definition Fields :: "string \<Rightarrow> string list" where
  "Fields s =
     map token_bytes (filter (\<lambda>w. w \<noteq> []) (split_on (\<lambda>t. IsSpace (fst t)) (tokens s)))"

definition TrimSpace :: "string \<Rightarrow> string" where
  "TrimSpace s =
     (let sp = (\<lambda>t. IsSpace (fst t))
      in token_bytes (rev (dropWhile sp (rev (dropWhile sp (tokens s))))))"

fun Join :: "string list \<Rightarrow> string \<Rightarrow> string" where
  "Join [] sep = []"
| "Join [w] sep = w"
| "Join (w # ws) sep = w @ sep @ Join ws sep"

definition Split :: "string \<Rightarrow> char \<Rightarrow> string list" where
  "Split s c = split_on (\<lambda>x. x = c) s"

fun HasPrefix :: "string \<Rightarrow> string \<Rightarrow> bool" where
  "HasPrefix s [] = True"
| "HasPrefix [] (p # ps) = False"
| "HasPrefix (c # cs) (p # ps) = (c = p \<and> HasPrefix cs ps)"

definition TrimPrefix :: "string \<Rightarrow> string \<Rightarrow> string" where
  "TrimPrefix s p = (if HasPrefix s p then drop (length p) s else s)"

definition HasSuffix :: "string \<Rightarrow> string \<Rightarrow> bool" where
  "HasSuffix s p = HasPrefix (rev s) (rev p)"

definition ContainsAny :: "string \<Rightarrow> string \<Rightarrow> bool" where
  "ContainsAny s chars \<longleftrightarrow> list_ex (\<lambda>c. c \<in> set chars) s"

section \<open>Numbers and hexadecimal\<close>

definition digit_char :: "nat \<Rightarrow> char" where
  "digit_char d = char_of (48 + d)"

fun dec_nat :: "nat \<Rightarrow> string" where
  "dec_nat n = (if n < 10 then [digit_char n] else dec_nat (n div 10) @ [digit_char (n mod 10)])"

definition dec_int :: "int \<Rightarrow> string" where
  "dec_int i = (if i < 0 then CHR ''-'' # dec_nat (nat (- i)) else dec_nat (nat i))"

fun be_bytes :: "nat \<Rightarrow> nat \<Rightarrow> string" where
  "be_bytes 0 v = []"
| "be_bytes (Suc n) v = be_bytes n (v div 256) @ [char_of v]"

definition hex_digit :: "nat \<Rightarrow> char" where
  "hex_digit d = (if d < 10 then char_of (48 + d) else char_of (87 + d))"

fun EncodeToString :: "string \<Rightarrow> string" where
  "EncodeToString [] = []"
| "EncodeToString (c # cs) =
     hex_digit (of_char c div 16) # hex_digit (of_char c mod 16) # EncodeToString cs"

definition hex_value :: "char \<Rightarrow> nat option" where
  "hex_value c =
     (let b = of_char c in
      if 48 \<le> b \<and> b \<le> 57 then Some (b - 48)
      else if 97 \<le> b \<and> b \<le> 102 then Some (b - 87)
      else if 65 \<le> b \<and> b \<le> 70 then Some (b - 55)
      else None)"

fun DecodeString :: "string \<Rightarrow> string option" where
  "DecodeString [] = Some []"
| "DecodeString [_] = None"
| "DecodeString (a # b # cs) =
     (case (hex_value a, hex_value b, DecodeString cs) of
        (Some x, Some y, Some r) \<Rightarrow> Some (char_of (x * 16 + y) # r)
      | _ \<Rightarrow> None)"

definition is_lower_hex :: "rune \<Rightarrow> bool" where
  "is_lower_hex r \<longleftrightarrow> \<not> ((r < 48 \<or> r > 57) \<and> (r < 97 \<or> r > 102))"

definition ascii :: "string \<Rightarrow> bool" where
  "ascii s \<longleftrightarrow> list_all (\<lambda>c. of_char c < (0x80::nat)) s"

declare dec_nat.simps [simp del]

text \<open>The case tables of a build that maps no rune beyond ASCII; used where a theorem is
  applied at concrete strings.\<close>

definition unicode_ascii :: unicode where
  "unicode_ascii = \<lparr>uc_upper = (\<lambda>r. r), uc_lower = (\<lambda>r. r)\<rparr>"

section \<open>Facts about strings\<close>

lemma of_char_bound: "(of_char c :: nat) < 256"
  using of_char_of [of "of_char c :: nat"] by simp

lemma token_bytes_simps [simp]:
  "token_bytes [] = []"
  "token_bytes (t # ts) = snd t @ token_bytes ts"
  "token_bytes (ts @ us) = token_bytes ts @ token_bytes us"
  by (simp_all add: token_bytes_def)

lemma token_bytes_tokens [simp]: "token_bytes (tokens s) = s"
  by (induction s rule: tokens.induct) (auto split: prod.splits)

lemma tokens_eq_Nil_iff [simp]: "tokens s = [] \<longleftrightarrow> s = []"
  by (cases s) (auto split: prod.splits)

lemma runes_Nil [simp]: "runes [] = []"
  by (simp add: runes_def)

lemma runes_eq_Nil_iff [simp]: "runes s = [] \<longleftrightarrow> s = []"
  by (simp add: runes_def)

subsection \<open>ASCII strings decode byte by byte\<close>

lemma ascii_simps [simp]:
  "ascii []"
  "ascii (c # cs) \<longleftrightarrow> of_char c < (0x80::nat) \<and> ascii cs"
  "ascii (xs @ ys) \<longleftrightarrow> ascii xs \<and> ascii ys"
  by (simp_all add: ascii_def)

lemma tokens_ascii_Cons [simp]:
  "of_char c < (0x80::nat) \<Longrightarrow> tokens (c # cs) = (of_char c, [c]) # tokens cs"
  by (simp add: decode_rune_def seq_len_def)

declare tokens.simps(2) [simp del]

lemma tokens_ascii: "ascii s \<Longrightarrow> tokens s = map (\<lambda>c. (of_char c, [c])) s"
  by (induction s) simp_all

lemma runes_ascii: "ascii s \<Longrightarrow> runes s = map of_char s"
  by (simp add: runes_def tokens_ascii)


subsection \<open>Decoding inverts encoding\<close>


lemma mod_of_base: "x < m \<Longrightarrow> m dvd a \<Longrightarrow> (a + x) mod m = (x::nat)"
  by (metis add_0 dvd_imp_mod_0 mod_add_left_eq mod_less)

lemma cont_mod: "accepts b0 b1 \<Longrightarrow> \<exists>x < 64. b1 = 128 + x \<and> b1 mod 64 = x"
proof -
  assume "accepts b0 b1"
  then have "128 \<le> b1" "b1 < 192"
    unfolding accepts_def accept_lo_def accept_hi_def by (auto split: if_splits)
  then have "b1 = 128 + (b1 - 128)" "b1 - 128 < 64" by auto
  then show ?thesis by (metis dvd_refl mod_of_base numeral_Bit0 dvd_add)
qed

lemma valid2: "valid_rune (b0 mod 32 * 64 + b1 mod 64)"
proof -
  have "b0 mod 32 < 32" "b1 mod 64 < 64" by simp_all
  then show ?thesis unfolding valid_rune_def by linarith
qed

lemma valid3:
  assumes "(0xE0::nat) \<le> b0" "b0 \<le> 0xEF" "accepts b0 b1"
  shows "valid_rune (b0 mod 16 * 4096 + b1 mod 64 * 64 + b2 mod 64)"
proof -
  define y where "y = b0 - 224"
  then have y: "b0 = 224 + y" "y < 16" using assms by auto
  then have b0: "b0 mod 16 = y" by (simp add: mod_of_base)
  obtain x where x: "x < 64" "b1 = 128 + x" "b1 mod 64 = x" using cont_mod [OF assms(3)] by blast
  have z: "b2 mod 64 < 64" by simp
  have h: "y = 13 \<Longrightarrow> x < 32"
    using assms(3) x y unfolding accepts_def accept_hi_def by simp
  consider "y \<le> 12" | "y = 13" | "14 \<le> y" by linarith
  then show ?thesis
    using x(1) y(2) z h unfolding valid_rune_def b0 x(3) by cases linarith+
qed

lemma valid4:
  assumes "(0xF0::nat) \<le> b0" "b0 \<le> 0xF4" "accepts b0 b1"
  shows "valid_rune (b0 mod 8 * 262144 + b1 mod 64 * 4096 + b2 mod 64 * 64 + b3 mod 64)"
proof -
  define y where "y = b0 - 240"
  then have y: "b0 = 240 + y" "y < 5" using assms by auto
  then have b0: "b0 mod 8 = y" by (simp add: mod_of_base)
  obtain x where x: "x < 64" "b1 = 128 + x" "b1 mod 64 = x" using cont_mod [OF assms(3)] by blast
  have z: "b2 mod 64 < 64" "b3 mod 64 < 64" by simp_all
  have h: "y = 4 \<Longrightarrow> x < 16" "y = 0 \<Longrightarrow> 16 \<le> x"
    using assms(3) x y unfolding accepts_def accept_hi_def accept_lo_def by simp_all
  consider "y = 0" | "1 \<le> y" "y \<le> 3" | "y = 4" using y by linarith
  then show ?thesis
    using x(1) y(2) z h unfolding valid_rune_def b0 x(3) by cases linarith+
qed

lemma decode_rune_valid: "(r, k) = decode_rune c cs \<Longrightarrow> valid_rune r"
  by (auto simp: decode_rune_def Let_def seq_len_def RuneError_def intro: valid2 valid3 valid4
      split: if_splits list.splits)
    (auto simp: valid_rune_def)

lemma char_of_inj: "m < 256 \<Longrightarrow> n < 256 \<Longrightarrow> char_of m = char_of n \<longleftrightarrow> m = (n::nat)"
  by (metis mod_less of_char_of)

lemma char_of_eq_mod: "char_of m = char_of n \<longleftrightarrow> m mod 256 = (n mod 256 :: nat)"
  by (metis char_of_char of_char_of)

lemma decode_encode2:
  assumes "0x80 \<le> r" "r < 0x800"
  shows "decode_rune (char_of (0xC0 + r div 64)) (char_of (0x80 + r mod 64) # s) = (r, 1)"
proof -
  have a: "2 \<le> r div 64" "r div 64 < 32" "r mod 64 < 64" using assms by auto
  have b: "(0xC0 + r div 64) mod 32 = r div 64" "(0x80 + r mod 64) mod 64 = r mod 64"
    using a by (simp_all add: mod_of_base)
  show ?thesis
    using a by (simp add: decode_rune_def seq_len_def accepts_def accept_lo_def accept_hi_def b)
qed

lemma decode_encode3:
  assumes "0x800 \<le> r" "r < 0x10000" "valid_rune r"
  shows "decode_rune (char_of (0xE0 + r div 4096))
           (char_of (0x80 + r div 64 mod 64) # char_of (0x80 + r mod 64) # s) = (r, 2)"
proof -
  define y x z where "y = r div 4096" and "x = r div 64 mod 64" and "z = r mod 64"
  have a: "y < 16" "x < 64" "z < 64" using assms unfolding y_def x_def z_def by auto
  have "r div 64 = y * 64 + x"
    using div_mult_mod_eq [of "r div 64" 64] unfolding x_def y_def
    by (simp add: div_mult2_eq [symmetric])
  then have v: "r = y * 4096 + x * 64 + z"
    using div_mult_mod_eq [of r 64] unfolding z_def by linarith
  have b: "(0xE0 + y) mod 16 = y" "(0x80 + z) mod 64 = z" "(0x80 + x) mod 64 = x"
    using a by (simp_all add: mod_of_base)
  have acc: "accepts (0xE0 + y) (0x80 + x)"
    using a assms unfolding accepts_def accept_lo_def accept_hi_def valid_rune_def v
    by (auto split: if_splits)
  show ?thesis
    unfolding y_def [symmetric] x_def [symmetric] z_def [symmetric]
    using a acc v by (simp add: decode_rune_def seq_len_def is_cont_def b)
qed

lemma decode_encode4:
  assumes "0x10000 \<le> r" "r \<le> 0x10FFFF"
  shows "decode_rune (char_of (0xF0 + r div 262144))
           (char_of (0x80 + r div 4096 mod 64) # char_of (0x80 + r div 64 mod 64) #
            char_of (0x80 + r mod 64) # s) = (r, 3)"
proof -
  define w y x z where "w = r div 262144" and "y = r div 4096 mod 64"
    and "x = r div 64 mod 64" and "z = r mod 64"
  have a: "w < 5" "y < 64" "x < 64" "z < 64" using assms unfolding w_def y_def x_def z_def by auto
  have "r div 4096 = w * 64 + y"
    using div_mult_mod_eq [of "r div 4096" 64] unfolding w_def y_def
    by (simp add: div_mult2_eq [symmetric])
  moreover have "r div 64 = r div 4096 * 64 + x"
    using div_mult_mod_eq [of "r div 64" 64] unfolding x_def
    by (simp add: div_mult2_eq [symmetric])
  ultimately have v: "r = w * 262144 + y * 4096 + x * 64 + z"
    using div_mult_mod_eq [of r 64] unfolding z_def by linarith
  have b: "(0xF0 + w) mod 8 = w" "(0x80 + z) mod 64 = z" "(0x80 + x) mod 64 = x"
    "(0x80 + y) mod 64 = y"
    using a by (simp_all add: mod_of_base)
  have acc: "accepts (0xF0 + w) (0x80 + y)"
    using a assms unfolding accepts_def accept_lo_def accept_hi_def v
    by (auto split: if_splits)
  show ?thesis
    unfolding w_def [symmetric] y_def [symmetric] x_def [symmetric] z_def [symmetric]
    using a acc v by (simp add: decode_rune_def seq_len_def is_cont_def b)
qed

lemma tokens_encode_valid:
  assumes "valid_rune r"
  shows "tokens (encode_valid r @ s) = (r, encode_valid r) # tokens s"
proof -
  consider "r < 0x80" | "0x80 \<le> r" "r < 0x800" | "0x800 \<le> r" "r < 0x10000"
    | "0x10000 \<le> r" "r \<le> 0x10FFFF"
    using assms unfolding valid_rune_def by linarith
  then show ?thesis
  proof cases
    case 1
    then show ?thesis by (simp add: encode_valid_def)
  next
    case 2
    then show ?thesis using decode_encode2 [OF 2] by (simp add: encode_valid_def tokens.simps(2))
  next
    case 3
    then show ?thesis using decode_encode3 [OF 3 assms] by (simp add: encode_valid_def tokens.simps(2))
  next
    case 4
    then show ?thesis using decode_encode4 [OF 4] by (simp add: encode_valid_def tokens.simps(2))
  qed
qed


lemma valid_RuneError [simp]: "valid_rune RuneError"
  by (simp add: valid_rune_def RuneError_def)

lemma valid_runes: "r \<in> set (runes s) \<Longrightarrow> valid_rune r"
  unfolding runes_def
  by (induction s rule: tokens.induct) (auto simp: tokens.simps(2) split: prod.splits intro: decode_rune_valid)

lemma encode_rune_nonempty [simp]: "encode_rune r \<noteq> []"
  by (simp add: encode_rune_def encode_valid_def)

text \<open>Re-reading what \<open>strings.Map\<close> wrote yields the mapped runes.\<close>

lemma runes_map_runes:
  assumes "\<And>r r'. r \<in> set rs \<Longrightarrow> f r = Some r' \<Longrightarrow> valid_rune r'"
  shows "runes (map_runes f rs) = List.map_filter f rs"
  using assms
proof (induction rs)
  case Nil
  then show ?case by simp
next
  case (Cons r rs)
  have IH: "runes (map_runes f rs) = List.map_filter f rs"
    by (rule Cons.IH, rule Cons.prems) auto
  show ?case
  proof (cases "f r")
    case None
    then show ?thesis by (simp add: IH)
  next
    case (Some r')
    then have "valid_rune r'" using Cons.prems [of r r'] by simp
    then show ?thesis
      using Some by (simp add: IH [unfolded runes_def] encode_rune_def runes_def tokens_encode_valid)
  qed
qed

lemma map_runes_eq_Nil_iff: "map_runes f rs = [] \<longleftrightarrow> (\<forall>r \<in> set rs. f r = None)"
  by (induction rs) (auto split: option.splits)

lemma ToUpper_eq_Nil_iff [simp]: "ToUpper uc s = [] \<longleftrightarrow> s = []"
proof -
  have "ToUpper uc s = [] \<longleftrightarrow> runes s = []"
    unfolding ToUpper_def strings_Map_def map_runes_eq_Nil_iff by (cases "runes s") auto
  then show ?thesis by simp
qed

lemma map_runes_ascii:
  "map_runes (\<lambda>r. Some (g r)) (map of_char s) = concat (map (\<lambda>c. encode_rune (g (of_char c))) s)"
  by (induction s) auto

subsection \<open>Hexadecimal\<close>

lemma hex_digit_inj: "d < 16 \<Longrightarrow> e < 16 \<Longrightarrow> hex_digit d = hex_digit e \<longleftrightarrow> d = e"
  by (auto simp: hex_digit_def char_of_inj split: if_splits)

lemma hex_digit_lower: "d < 16 \<Longrightarrow> of_char (hex_digit d) < (0x80::nat) \<and> is_lower_hex (of_char (hex_digit d))"
  by (auto simp: hex_digit_def is_lower_hex_def)

lemma length_EncodeToString [simp]: "length (EncodeToString s) = 2 * length s"
  by (induction s) auto

lemma EncodeToString_lower:
  "c \<in> set (EncodeToString s) \<Longrightarrow> of_char c < (0x80::nat) \<and> is_lower_hex (of_char c)"
proof (induction s)
  case (Cons x xs)
  have "of_char x < (256::nat)" by (rule of_char_bound)
  then have "of_char x div 16 < (16::nat)" by (simp add: less_mult_imp_div_less)
  moreover have "of_char x mod 16 < (16::nat)" by simp
  ultimately show ?case
    using Cons hex_digit_lower [of "of_char x div 16"] hex_digit_lower [of "of_char x mod 16"]
    by auto
qed simp

lemma ascii_EncodeToString [simp]: "ascii (EncodeToString s)"
  using EncodeToString_lower by (auto simp: ascii_def list_all_iff)

lemma EncodeToString_inj [simp]: "EncodeToString s = EncodeToString t \<longleftrightarrow> s = t"
proof
  assume "EncodeToString s = EncodeToString t"
  then show "s = t"
  proof (induction s arbitrary: t)
    case Nil
    then show ?case by (cases t) auto
  next
    case (Cons x xs)
    then obtain y ys where t: "t = y # ys" by (cases t) auto
    have bx: "of_char x < (256::nat)" and yb: "of_char y < (256::nat)" by (rule of_char_bound)+
    have "of_char x div 16 < (16::nat)" "of_char y div 16 < (16::nat)"
      using bx yb by (simp_all add: less_mult_imp_div_less)
    with Cons.prems t have "of_char x div 16 = (of_char y div 16 :: nat)"
      "of_char x mod 16 = (of_char y mod 16 :: nat)"
      by (simp_all add: hex_digit_inj)
    then have "of_char x = (of_char y :: nat)" by (metis div_mult_mod_eq)
    with Cons t show ?case by (simp add: of_char_eq_iff)
  qed
qed simp

subsection \<open>Integers\<close>

lemma length_be_bytes [simp]: "length (be_bytes n v) = n"
  by (induction n arbitrary: v) auto

lemma be_bytes_inj:
  "v < 256 ^ n \<Longrightarrow> w < 256 ^ n \<Longrightarrow> be_bytes n v = be_bytes n w \<Longrightarrow> v = w"
proof (induction n arbitrary: v w)
  case 0
  then show ?case by simp
next
  case (Suc n)
  have "v div 256 = w div 256"
    using Suc by (intro Suc.IH) (auto simp: less_mult_imp_div_less mult.commute)
  moreover have "v mod 256 = w mod 256" using Suc.prems by (simp add: char_of_eq_mod)
  ultimately show ?case by (metis div_mult_mod_eq)
qed

lemma digit_char_inj: "d < 10 \<Longrightarrow> e < 10 \<Longrightarrow> digit_char d = digit_char e \<longleftrightarrow> d = e"
  by (auto simp: digit_char_def char_of_inj)

lemma dec_nat_digits: "c \<in> set (dec_nat n) \<Longrightarrow> (48::nat) \<le> of_char c \<and> of_char c \<le> (57::nat)"
proof (induction n rule: dec_nat.induct)
  case (1 n)
  show ?case
  proof (cases "n < 10")
    case True
    with "1.prems" show ?thesis by (simp add: dec_nat.simps [of n] digit_char_def)
  next
    case False
    have "n mod 10 < 10" by simp
    with False "1" show ?thesis by (auto simp: dec_nat.simps [of n] digit_char_def)
  qed
qed

lemma dec_nat_nonempty [simp]: "dec_nat n \<noteq> []"
  by (simp add: dec_nat.simps [of n])

lemma dec_nat_inj [simp]: "dec_nat m = dec_nat n \<longleftrightarrow> m = n"
proof
  assume "dec_nat m = dec_nat n"
  then show "m = n"
  proof (induction m arbitrary: n rule: dec_nat.induct)
    case (1 m)
    have mod: "m mod 10 < 10" "n mod 10 < 10" by simp_all
    show ?case
    proof (cases "m < 10")
      case True
      then have "n < 10"
        using "1.prems" dec_nat_nonempty [of "n div 10"]
        by (auto simp: dec_nat.simps [of m] dec_nat.simps [of n] simp del: dec_nat_nonempty
            split: if_splits)
      with True "1.prems" show ?thesis
        by (simp add: dec_nat.simps [of m] dec_nat.simps [of n] digit_char_inj)
    next
      case False
      then have n: "\<not> n < 10"
        using "1.prems" dec_nat_nonempty [of "m div 10"]
        by (auto simp: dec_nat.simps [of m] dec_nat.simps [of n] simp del: dec_nat_nonempty
            split: if_splits)
      then have "dec_nat (m div 10) = dec_nat (n div 10)" "digit_char (m mod 10) = digit_char (n mod 10)"
        using "1.prems" False by (auto simp: dec_nat.simps [of m] dec_nat.simps [of n])
      then have "m div 10 = n div 10" "m mod 10 = n mod 10"
        using "1.IH" [OF False] mod by (auto simp: digit_char_inj)
      then show ?thesis by (metis div_mult_mod_eq)
    qed
  qed
qed simp

lemma dec_nat_small: "n < 10 \<Longrightarrow> dec_nat n = [digit_char n]"
  by (simp add: dec_nat.simps [of n])

lemma dec_nat_step: "\<not> n < 10 \<Longrightarrow> dec_nat n = dec_nat (n div 10) @ [digit_char (n mod 10)]"
  by (simp add: dec_nat.simps [of n])

lemmas dec_nat_eval = dec_nat_small dec_nat_step digit_char_def

subsection \<open>Splitting\<close>

lemma Split_no_sep: "c \<notin> set s \<Longrightarrow> Split s c = [s]"
  unfolding Split_def by (induction s) auto

lemma Split_sep: "c \<notin> set a \<Longrightarrow> Split (a @ c # b) c = a # Split b c"
  unfolding Split_def by (induction a) auto

subsection \<open>Runes below 128 stand for themselves\<close>

lemma not_ascii2: "0xC2 \<le> b0 \<Longrightarrow> b0 \<le> 0xDF \<Longrightarrow> 128 \<le> b0 mod 32 * 64 + b1 mod (64::nat)"
proof -
  assume a: "0xC2 \<le> b0" "b0 \<le> 0xDF"
  define y where "y = b0 - 192"
  then have y: "b0 = 192 + y" "y < 32" "2 \<le> y" using a by auto
  then have "b0 mod 32 = y" by (simp add: mod_of_base)
  then show ?thesis using y by simp
qed

lemma not_ascii3:
  assumes "0xE0 \<le> b0" "b0 \<le> 0xEF" "accepts b0 b1"
  shows "128 \<le> b0 mod 16 * 4096 + b1 mod 64 * 64 + b2 mod (64::nat)"
proof -
  define y where "y = b0 - 224"
  then have y: "b0 = 224 + y" "y < 16" using assms by auto
  then have b0: "b0 mod 16 = y" by (simp add: mod_of_base)
  obtain x where x: "x < 64" "b1 = 128 + x" "b1 mod 64 = x" using cont_mod [OF assms(3)] by blast
  have "y = 0 \<Longrightarrow> 32 \<le> x" using assms(3) x y unfolding accepts_def accept_lo_def by simp
  then show ?thesis unfolding b0 x(3) by (cases "y = 0") auto
qed

lemma not_ascii4:
  assumes "0xF0 \<le> b0" "b0 \<le> 0xF4" "accepts b0 b1"
  shows "128 \<le> b0 mod 8 * 262144 + b1 mod 64 * 4096 + b2 mod 64 * 64 + b3 mod (64::nat)"
proof -
  define y where "y = b0 - 240"
  then have y: "b0 = 240 + y" "y < 8" using assms by auto
  then have b0: "b0 mod 8 = y" by (simp add: mod_of_base)
  obtain x where x: "x < 64" "b1 = 128 + x" "b1 mod 64 = x" using cont_mod [OF assms(3)] by blast
  have "y = 0 \<Longrightarrow> 16 \<le> x" using assms(3) x y unfolding accepts_def accept_lo_def by simp
  then show ?thesis unfolding b0 x(3) by (cases "y = 0") auto
qed

lemma decode_rune_ascii:
  "(r, k) = decode_rune c cs \<Longrightarrow> r < 0x80 \<Longrightarrow> k = 0 \<and> of_char c = r"
  by (auto simp: decode_rune_def Let_def seq_len_def RuneError_def not_le [symmetric]
      dest: not_ascii2 not_ascii3 not_ascii4 split: if_splits list.splits)

lemma runes_below_ascii: "list_all (\<lambda>r. r < 0x80) (runes s) \<Longrightarrow> ascii s"
proof (induction s rule: tokens.induct)
  case 1
  then show ?case by simp
next
  case (2 c cs)
  obtain r k where d: "(r, k) = decode_rune c cs" by (metis surj_pair)
  then have "r < 0x80" using "2.prems" by (simp add: runes_def tokens.simps(2) split: prod.splits)
  with d have "k = 0 \<and> of_char c = r" by (rule decode_rune_ascii)
  with d "2" \<open>r < 0x80\<close> show ?case by (auto simp: runes_def tokens.simps(2) split: prod.splits)
qed

text \<open>\<^verbatim>\<open>strings.Map\<close> leaves an ASCII string alone when the mapping fixes its runes.\<close>

lemma strings_Map_fixes:
  assumes "ascii s" and "\<And>c. c \<in> set s \<Longrightarrow> f (of_char c) = Some (of_char c)"
  shows "strings_Map f s = s"
  using assms
proof (induction s)
  case Nil
  then show ?case by (simp add: strings_Map_def)
next
  case (Cons c cs)
  have "strings_Map f cs = cs" using Cons by simp
  moreover have "valid_rune (of_char c)" "of_char c < (0x80::nat)"
    using Cons.prems(1) by (auto simp: valid_rune_def)
  ultimately show ?case
    using Cons.prems(2) [of c]
    by (simp add: strings_Map_def runes_def encode_rune_def encode_valid_def)
qed

lemma strings_Map_ascii:
  "ascii s \<Longrightarrow> strings_Map f s = map_runes f (map of_char s)"
  by (simp add: strings_Map_def runes_ascii)

subsection \<open>Fields and TrimSpace\<close>

lemma dropWhile_none: "list_all (\<lambda>x. \<not> P x) xs \<Longrightarrow> dropWhile P xs = xs"
  by (cases xs) auto

lemma TrimSpace_no_space:
  assumes "list_all (\<lambda>t. \<not> IsSpace (fst t)) (tokens s)"
  shows "TrimSpace s = s"
  using assms by (simp add: TrimSpace_def dropWhile_none)

lemma Join_eq_Nil_iff: "sep \<noteq> [] \<Longrightarrow> [] \<notin> set ws \<Longrightarrow> Join ws sep = [] \<longleftrightarrow> ws = []"
  by (induction ws sep rule: Join.induct) auto

lemma token_bytes_nonempty: "w \<noteq> [] \<Longrightarrow> set w \<subseteq> set (tokens s) \<Longrightarrow> token_bytes w \<noteq> []"
proof -
  assume a: "w \<noteq> []" "set w \<subseteq> set (tokens s)"
  have "snd t \<noteq> []" if "t \<in> set (tokens s)" for t
    using that by (induction s rule: tokens.induct) (auto simp: tokens.simps(2) split: prod.splits)
  with a show ?thesis by (cases w) (auto simp: token_bytes_def)
qed

lemma split_on_subset: "w \<in> set (split_on P xs) \<Longrightarrow> set w \<subseteq> set xs"
proof (induction P xs arbitrary: w rule: split_on.induct)
  case (2 P x xs)
  then show ?case
  proof (cases "split_on P xs")
    case (Cons v vs)
    then have "set v \<subseteq> set xs" "\<And>w. w \<in> set vs \<Longrightarrow> set w \<subseteq> set xs" using 2 by auto
    with Cons 2(3) show ?thesis by (auto split: if_splits)
  qed (auto split: if_splits)
qed simp

lemma split_on_keeps:
  "x \<in> set xs \<Longrightarrow> \<not> P x \<Longrightarrow> \<exists>w \<in> set (split_on P xs). x \<in> set w"
proof (induction P xs rule: split_on.induct)
  case (2 P y xs)
  then show ?case by (cases "split_on P xs") auto
qed simp

lemma Fields_nonempty_words: "[] \<notin> set (Fields s)"
  using token_bytes_nonempty split_on_subset by (fastforce simp: Fields_def)

lemma Fields_nonempty:
  "t \<in> set (tokens s) \<Longrightarrow> \<not> IsSpace (fst t) \<Longrightarrow> Fields s \<noteq> []"
  using split_on_keeps [of t "tokens s" "\<lambda>t. IsSpace (fst t)"]
  by (fastforce simp: Fields_def filter_empty_conv)

lemma tokens_ascii_byte:
  "t \<in> set (tokens s) \<Longrightarrow> c \<in> set (snd t) \<Longrightarrow> of_char c < (0x80::nat) \<Longrightarrow> fst t = of_char c"
proof (induction s rule: tokens.induct)
  case (2 b bs)
  obtain r k where d: "decode_rune b bs = (r, k)" by (metis surj_pair)
  have "r = of_char c" if "c \<in> set (b # take k bs)"
    using that d 2(4)
    by (auto simp: decode_rune_def Let_def seq_len_def accepts_def accept_lo_def is_cont_def
        split: if_splits list.splits)
  with d 2(2,3) 2(1) [OF d [symmetric] _ 2(3,4)] show ?case
    by (auto simp: tokens.simps(2))
qed simp

lemma Fields_ascii_byte:
  assumes "c \<in> set s" "of_char c < (0x80::nat)" "\<not> IsSpace (of_char c)"
  shows "Fields s \<noteq> []"
proof -
  have "c \<in> set (token_bytes (tokens s))" using assms(1) by simp
  then obtain t where "t \<in> set (tokens s)" "c \<in> set (snd t)" by (auto simp: token_bytes_def)
  with assms show ?thesis using Fields_nonempty tokens_ascii_byte by metis
qed

lemma TrimSpace_Nil_if: "Fields s = [] \<Longrightarrow> TrimSpace s = []"
proof -
  assume "Fields s = []"
  then have "\<forall>t \<in> set (tokens s). IsSpace (fst t)" using Fields_nonempty by blast
  then have "dropWhile (\<lambda>t. IsSpace (fst t)) (tokens s) = []" by simp
  then show ?thesis by (simp only: TrimSpace_def Let_def rev.simps dropWhile.simps token_bytes_simps)
qed

text \<open>Rules that evaluate the string functions on ASCII literals.\<close>

lemmas ascii_eval =
  ToLower_def ToUpper_def TrimSpace_def Fields_def strings_Map_ascii runes_ascii tokens_ascii
  unicode_ToLower_def unicode_ToUpper_def IsSpace_def encode_rune_def encode_valid_def
  valid_rune_def char_of_def bit_0 Let_def

end
