(* ===== verification/Framing.thy ===== *)
theory Framing
  imports Go_Strings
begin

text \<open>
  \<^verbatim>\<open>src/libs/kernel/internal/framing/framing.go\<close>: the one canonical encoding of everything
  that is hashed or compared. A frame is a tag and its components, each preceded by its
  length as a big-endian \<^verbatim>\<open>uint64\<close>.

  The contract the clients rely on, that a framed pre-image determines its tag and its
  components, is the locale \<open>injective_framing\<close>; it is interpreted for \<open>Frame\<close> below. Go
  strings are shorter than \<open>2 ^ 63\<close> bytes because \<^verbatim>\<open>len\<close> is an \<^verbatim>\<open>int\<close>; HOL lists are not, so
  the contract carries that bound as \<open>fits\<close>.
\<close>

definition frame_component :: "string \<Rightarrow> string" where
  "frame_component s = be_bytes 8 (unat (word_of_nat (length s) :: u64)) @ s"

definition Frame :: "string \<Rightarrow> string list \<Rightarrow> string" where
  "Frame tag components = frame_component tag @ concat (map frame_component components)"

text \<open>The number of bytes the builder is grown to before the first write.\<close>

fun frame_size :: "string \<Rightarrow> string list \<Rightarrow> nat" where
  "frame_size tag [] = 8 + length tag"
| "frame_size tag (c # cs) = 8 + length c + frame_size tag cs"

definition fits :: "string \<Rightarrow> bool" where
  "fits s \<longleftrightarrow> length s < 2 ^ 63"

section \<open>The contract of a framing\<close>

locale injective_framing =
  fixes frame :: "string \<Rightarrow> string list \<Rightarrow> string"
    and ok :: "string \<Rightarrow> bool"
  assumes frame_inj:
    "ok t \<Longrightarrow> ok u \<Longrightarrow> list_all ok xs \<Longrightarrow> list_all ok ys \<Longrightarrow>
     frame t xs = frame u ys \<Longrightarrow> t = u \<and> xs = ys"
begin

lemma frame_eq_iff:
  "ok t \<Longrightarrow> ok u \<Longrightarrow> list_all ok xs \<Longrightarrow> list_all ok ys \<Longrightarrow>
   frame t xs = frame u ys \<longleftrightarrow> t = u \<and> xs = ys"
  using frame_inj by blast

lemma frame_tag_separates:
  "ok t \<Longrightarrow> ok u \<Longrightarrow> list_all ok xs \<Longrightarrow> list_all ok ys \<Longrightarrow> t \<noteq> u \<Longrightarrow>
   frame t xs \<noteq> frame u ys"
  using frame_inj by blast

text \<open>A section of a larger pre-image is framed and passed as one component.\<close>

lemma frame_nested:
  assumes "ok t" "ok u" "ok s" "ok (frame s xs)" "ok (frame s ys)"
    and "list_all ok xs" "list_all ok ys" "list_all ok as" "list_all ok bs"
    and "frame t (frame s xs # as) = frame u (frame s ys # bs)"
  shows "t = u \<and> xs = ys \<and> as = bs"
  using assms frame_inj [of t u "frame s xs # as" "frame s ys # bs"] frame_inj [of s s xs ys]
  by auto

text \<open>A list of sections, each framed under the same tag, keeps its grouping.\<close>

lemma frame_sections:
  assumes "ok s" "list_all (list_all ok) xss" "list_all (list_all ok) yss"
    and "map (frame s) xss = map (frame s) yss"
  shows "xss = yss"
  using assms(2-)
proof (induction xss arbitrary: yss)
  case Nil
  then show ?case by simp
next
  case (Cons x xss)
  then show ?case using assms(1) frame_inj [of s s x] by (cases yss) auto
qed

end

section \<open>Frame meets the contract\<close>

lemma length_frame_component [simp]: "length (frame_component s) = 8 + length s"
  by (simp add: frame_component_def)

lemma frame_component_nonempty [simp]: "frame_component s \<noteq> []"
  using length_frame_component [of s] by force

lemma unat_len: "fits s \<Longrightarrow> unat (word_of_nat (length s) :: u64) = length s"
  by (simp add: fits_def unat_of_nat take_bit_nat_eq_self)

lemma frame_component_cancel:
  assumes "fits s" "fits t" "frame_component s @ x = frame_component t @ y"
  shows "s = t \<and> x = y"
proof -
  have "be_bytes 8 (length s) @ s @ x = be_bytes 8 (length t) @ t @ y"
    using assms by (simp add: frame_component_def unat_len)
  then have "be_bytes 8 (length s) = be_bytes 8 (length t)" and r: "s @ x = t @ y"
    by (simp_all add: append_eq_append_conv)
  moreover have "length s < 256 ^ 8" "length t < 256 ^ 8"
    using assms(1,2) by (simp_all add: fits_def)
  ultimately have "length s = length t" by (blast intro: be_bytes_inj)
  with r show ?thesis by simp
qed

lemma frame_components_inj:
  "list_all fits xs \<Longrightarrow> list_all fits ys \<Longrightarrow>
   concat (map frame_component xs) = concat (map frame_component ys) \<Longrightarrow> xs = ys"
proof (induction xs arbitrary: ys)
  case Nil
  then show ?case by (cases ys) auto
next
  case (Cons x xs)
  from Cons.prems(3) obtain y ys' where "ys = y # ys'" by (cases ys) simp_all
  moreover from this Cons.prems have "x = y \<and>
      concat (map frame_component xs) = concat (map frame_component ys')"
    by (intro frame_component_cancel) simp_all
  ultimately show ?case using Cons.IH [of ys'] Cons.prems by simp
qed

interpretation framing: injective_framing Frame fits
proof unfold_locales
  fix t u xs ys
  assume "fits t" "fits u" "list_all fits xs" "list_all fits ys" "Frame t xs = Frame u ys"
  then show "t = u \<and> xs = ys"
    unfolding Frame_def using frame_component_cancel frame_components_inj by metis
qed

lemma length_Frame: "length (Frame t cs) = frame_size t cs"
  by (induction cs) (auto simp: Frame_def)

lemma fits_Frame: "frame_size t cs < 2 ^ 63 \<Longrightarrow> fits (Frame t cs)"
  by (simp add: fits_def length_Frame)

section \<open>Properties\<close>

text \<open>C38: framing is injective. Two frames are equal exactly when their tags and their component
  lists are, whatever bytes the components hold, so no separator inside a value can make two
  different facts hash alike; and a frame is exactly as long as the buffer grown for it.\<close>

theorem frame_injective:
  assumes "fits t" "fits u" "list_all fits xs" "list_all fits ys"
  shows "(Frame t xs = Frame u ys \<longleftrightarrow> t = u \<and> xs = ys) \<and> length (Frame t xs) = frame_size t xs"
  using framing.frame_eq_iff [OF assms] by (simp add: length_Frame)

theorem frame_injective_witness:
  "Frame ''t'' [''ab'', ''c''] \<noteq> Frame ''t'' [''a'', ''bc''] \<and> length (Frame ''t'' [''ab'', ''c'']) = 28"
  using frame_injective [of "''t''" "''t''" "[''ab'', ''c'']" "[''a'', ''bc'']"] by (simp add: fits_def)

end
