(* ===== verification/Temporal.thy ===== *)
theory Temporal
  imports Go_Strings
begin

text \<open>
  \<^verbatim>\<open>src/libs/kernel/temporal/temporal.go\<close>: the bitemporal vocabulary. A Go \<^verbatim>\<open>time.Time\<close> in UTC
  is the integer number of nanoseconds since the zero time, 1 January of year 1; its zone
  and monotonic reading are gone after \<^verbatim>\<open>UTC()\<close>, so \<^verbatim>\<open>At\<close>'s normalisation is the identity
  on this representation. \<open>Instant\<close> is a linear order. The zero instant means "unset".

  The rendering of an instant (\<^verbatim>\<open>time.RFC3339Nano\<close>) is written out because it enters the
  parameters of derivation records.
\<close>

type_synonym time = int

datatype Instant = Instant (Time: time)

instantiation Instant :: linorder
begin

definition less_eq_Instant :: "Instant \<Rightarrow> Instant \<Rightarrow> bool" where
  "less_eq_Instant i j \<longleftrightarrow> Time i \<le> Time j"

definition less_Instant :: "Instant \<Rightarrow> Instant \<Rightarrow> bool" where
  "less_Instant i j \<longleftrightarrow> Time i < Time j"

instance
  by standard (auto simp: less_eq_Instant_def less_Instant_def Instant.expand)

end

definition ErrInvalidInterval :: sentinel where
  "ErrInvalidInterval = ''temporal: interval ends before it begins''"

definition ErrZeroInstant :: sentinel where
  "ErrZeroInstant = ''temporal: instant is unset''"

declare ErrInvalidInterval_def [sentinel_defs] ErrZeroInstant_def [sentinel_defs]

definition zeroInstant :: Instant where
  "zeroInstant = Instant 0"

definition At :: "time \<Rightarrow> Instant result" where
  "At t = (if t = 0 then Inl [ErrZeroInstant] else Inr (Instant t))"

definition MustAt :: "time \<Rightarrow> Instant result" where
  "MustAt t = (case At t of Inl e \<Rightarrow> Inl [Panic] | Inr i \<Rightarrow> Inr i)"

definition Instant_IsZero :: "Instant \<Rightarrow> bool" where
  "Instant_IsZero i \<longleftrightarrow> Time i = 0"

definition Before :: "Instant \<Rightarrow> Instant \<Rightarrow> bool" where
  "Before i other \<longleftrightarrow> Time i < Time other"

definition After :: "Instant \<Rightarrow> Instant \<Rightarrow> bool" where
  "After i other \<longleftrightarrow> Time i > Time other"

definition Instant_Equal :: "Instant \<Rightarrow> Instant \<Rightarrow> bool" where
  "Instant_Equal i other \<longleftrightarrow> Time i = Time other"

subsection \<open>Rendering\<close>

definition civil :: "int \<Rightarrow> int \<times> int \<times> int" where
  "civil days =
     (let z = days + 306; era = z div 146097; doe = z mod 146097;
          yoe = (doe - doe div 1460 + doe div 36524 - doe div 146096) div 365;
          doy = doe - (365 * yoe + yoe div 4 - yoe div 100);
          mp = (5 * doy + 2) div 153;
          d = doy - (153 * mp + 2) div 5 + 1;
          m = (if mp < 10 then mp + 3 else mp - 9);
          y = yoe + era * 400
      in (if m \<le> 2 then y + 1 else y, m, d))"

definition pad_zeros :: "nat \<Rightarrow> string \<Rightarrow> string" where
  "pad_zeros n s = replicate (n - length s) (CHR ''0'') @ s"

definition padded :: "nat \<Rightarrow> int \<Rightarrow> string" where
  "padded n i =
     (if i < 0 then CHR ''-'' # pad_zeros n (dec_nat (nat (- i)))
      else pad_zeros n (dec_nat (nat i)))"

definition fraction :: "int \<Rightarrow> string" where
  "fraction ns =
     (let ds = rev (dropWhile (\<lambda>c. c = CHR ''0'') (rev (pad_zeros 9 (dec_nat (nat ns)))))
      in if ds = [] then [] else CHR ''.'' # ds)"

definition Instant_String :: "Instant \<Rightarrow> string" where
  "Instant_String i =
     (let t = Time i; secs = t div 1000000000; days = secs div 86400; sod = secs mod 86400
      in case civil days of
           (y, m, d) \<Rightarrow>
             padded 4 y @ ''-'' @ padded 2 m @ ''-'' @ padded 2 d @ ''T'' @
             padded 2 (sod div 3600) @ '':'' @ padded 2 (sod div 60 mod 60) @ '':'' @
             padded 2 (sod mod 60) @ fraction (t mod 1000000000) @ ''Z'')"

section \<open>Intervals\<close>

record Interval =
  iv_from :: Instant
  iv_to :: Instant

definition NewInterval :: "Instant \<Rightarrow> Instant \<Rightarrow> Interval result" where
  "NewInterval from to =
     (if Instant_IsZero from then Inl [ErrZeroInstant]
      else if \<not> Instant_IsZero to \<and> Before to from then Inl [ErrInvalidInterval]
      else Inr \<lparr>iv_from = from, iv_to = to\<rparr>)"

definition OpenFrom :: "Instant \<Rightarrow> Interval result" where
  "OpenFrom from = NewInterval from zeroInstant"

definition IntervalAt :: "Instant \<Rightarrow> Interval result" where
  "IntervalAt at = NewInterval at at"

definition IsOpen :: "Interval \<Rightarrow> bool" where
  "IsOpen iv \<longleftrightarrow> Instant_IsZero (iv_to iv)"

definition Contains :: "Interval \<Rightarrow> Instant \<Rightarrow> bool" where
  "Contains iv i =
     (if Before i (iv_from iv) then False
      else if IsOpen iv then True
      else if Instant_Equal (iv_to iv) (iv_from iv) then Instant_Equal i (iv_from iv)
      else Before i (iv_to iv))"

definition Interval_String :: "Interval \<Rightarrow> string" where
  "Interval_String iv =
     (if IsOpen iv then
        ''['' @ Instant_String (iv_from iv) @ '', '' @
        map char_of [0xE2 :: nat, 0x88, 0x9E] @ '')''
      else ''['' @ Instant_String (iv_from iv) @ '', '' @ Instant_String (iv_to iv) @ '')'')"

section \<open>Coordinates and queries\<close>

record Coordinates =
  effective :: Interval
  knowledge :: Instant

definition Assign :: "Interval \<Rightarrow> Instant \<Rightarrow> Coordinates result" where
  "Assign eff know =
     (if Instant_IsZero (iv_from eff) then Inl [ErrZeroInstant]
      else if Instant_IsZero know then Inl [ErrZeroInstant]
      else Inr \<lparr>effective = eff, knowledge = know\<rparr>)"

record AsOf =
  ao_effective :: Instant
  ao_knowledge :: Instant

definition NewAsOf :: "Instant \<Rightarrow> Instant \<Rightarrow> AsOf result" where
  "NewAsOf eff know =
     (if Instant_IsZero eff then Inl [ErrZeroInstant]
      else if Instant_IsZero know then Inl [ErrZeroInstant]
      else Inr \<lparr>ao_effective = eff, ao_knowledge = know\<rparr>)"

definition AsOf_String :: "AsOf \<Rightarrow> string" where
  "AsOf_String a =
     ''effective='' @ Instant_String (ao_effective a) @
     '' knowledge='' @ Instant_String (ao_knowledge a)"

definition Coordinates_Visible :: "Coordinates \<Rightarrow> AsOf \<Rightarrow> bool" where
  "Coordinates_Visible c a =
     (if After (knowledge c) (ao_knowledge a) then False
      else Contains (effective c) (ao_effective a))"

section \<open>Well-formed intervals and their points\<close>

text \<open>What every constructor establishes: a set start, and an end not before it.\<close>

definition wf_interval :: "Interval \<Rightarrow> bool" where
  "wf_interval iv \<longleftrightarrow>
     iv_from iv \<noteq> zeroInstant \<and> (iv_to iv = zeroInstant \<or> iv_from iv \<le> iv_to iv)"

lemmas instant_defs =
  Before_def After_def Instant_Equal_def Instant_IsZero_def zeroInstant_def
  less_eq_Instant_def less_Instant_def

lemma Instant_IsZero_iff: "Instant_IsZero i \<longleftrightarrow> i = zeroInstant"
  by (cases i) (simp add: instant_defs)

lemma Instant_Equal_iff [simp]: "Instant_Equal i j \<longleftrightarrow> i = j"
  by (cases i; cases j) (simp add: Instant_Equal_def)

lemma Before_iff [simp]: "Before i j \<longleftrightarrow> i < j"
  by (simp add: instant_defs)

lemma After_iff [simp]: "After i j \<longleftrightarrow> j < i"
  by (simp add: instant_defs)

lemma NewInterval_Inr_iff:
  "NewInterval from to = Inr iv \<longleftrightarrow>
     from \<noteq> zeroInstant \<and> (to = zeroInstant \<or> from \<le> to) \<and> iv = \<lparr>iv_from = from, iv_to = to\<rparr>"
  by (auto simp: NewInterval_def Instant_IsZero_iff not_less)

lemma NewInterval_wf: "NewInterval from to = Inr iv \<Longrightarrow> wf_interval iv"
  by (auto simp: NewInterval_Inr_iff wf_interval_def)

lemma NewInterval_of_wf: "wf_interval iv \<Longrightarrow> NewInterval (iv_from iv) (iv_to iv) = Inr iv"
  by (cases iv) (auto simp: NewInterval_Inr_iff wf_interval_def)

lemma Assign_Inr_iff:
  "Assign eff k = Inr c \<longleftrightarrow>
     iv_from eff \<noteq> zeroInstant \<and> k \<noteq> zeroInstant \<and> c = \<lparr>effective = eff, knowledge = k\<rparr>"
  by (auto simp: Assign_def Instant_IsZero_iff)

lemma NewAsOf_Inr_iff:
  "NewAsOf eff k = Inr a \<longleftrightarrow>
     eff \<noteq> zeroInstant \<and> k \<noteq> zeroInstant \<and> a = \<lparr>ao_effective = eff, ao_knowledge = k\<rparr>"
  by (auto simp: NewAsOf_def Instant_IsZero_iff)

lemma Contains_closed:
  "iv_to iv \<noteq> zeroInstant \<Longrightarrow> iv_from iv < iv_to iv \<Longrightarrow>
   Contains iv i \<longleftrightarrow> iv_from iv \<le> i \<and> i < iv_to iv"
  by (auto simp: Contains_def IsOpen_def Instant_IsZero_iff not_less)

lemma Contains_open: "iv_to iv = zeroInstant \<Longrightarrow> Contains iv i \<longleftrightarrow> iv_from iv \<le> i"
  by (auto simp: Contains_def IsOpen_def Instant_IsZero_iff not_less)

lemma Contains_point:
  "iv_to iv \<noteq> zeroInstant \<Longrightarrow> iv_to iv = iv_from iv \<Longrightarrow> Contains iv i \<longleftrightarrow> i = iv_from iv"
  by (auto simp: Contains_def IsOpen_def Instant_IsZero_iff not_less)

lemma wf_interval_contains_from: "wf_interval iv \<Longrightarrow> Contains iv (iv_from iv)"
  by (auto simp: Contains_def wf_interval_def IsOpen_def Instant_IsZero_iff)

lemma Coordinates_Visible_iff:
  "Coordinates_Visible c a \<longleftrightarrow>
     knowledge c \<le> ao_knowledge a \<and> Contains (effective c) (ao_effective a)"
  by (auto simp: Coordinates_Visible_def not_less)

section \<open>Properties\<close>

text \<open>Half-open intervals meet without gap or overlap. Cutting an interval at an instant inside
  it gives two intervals no instant is in both of, and that together contain exactly what the
  whole did, whether the whole is bounded or open-ended. An interval at a point contains that
  point and nothing else.\<close>

theorem adjacent_intervals_partition:
  assumes "NewInterval a b = Inr l" "NewInterval b c = Inr r" "a < b" "c = zeroInstant \<or> b < c"
  shows "\<exists>w p. NewInterval a c = Inr w \<and> IntervalAt b = Inr p \<and>
    (\<forall>i. \<not> (Contains l i \<and> Contains r i) \<and> (Contains w i \<longleftrightarrow> Contains l i \<or> Contains r i) \<and>
       (Contains p i \<longleftrightarrow> i = b))"
proof -
  have b: "b \<noteq> zeroInstant" "a \<noteq> zeroInstant" using assms(1,2) by (simp_all add: NewInterval_Inr_iff)
  have l: "Contains l i \<longleftrightarrow> a \<le> i \<and> i < b" for i
    using assms(1,3) b Contains_closed [of l i] by (auto simp: NewInterval_Inr_iff)
  have r: "Contains r i \<longleftrightarrow> b \<le> i \<and> (c = zeroInstant \<or> i < c)" for i
    using assms(2,4) Contains_closed [of r i] Contains_open [of r i] by (auto simp: NewInterval_Inr_iff)
  let ?w = "\<lparr>iv_from = a, iv_to = c\<rparr>" and ?p = "\<lparr>iv_from = b, iv_to = b\<rparr>"
  have w: "Contains ?w i \<longleftrightarrow> a \<le> i \<and> (c = zeroInstant \<or> i < c)" for i
    using assms(3,4) Contains_closed [of ?w i] Contains_open [of ?w i]
    by (cases "c = zeroInstant") (auto dest: less_trans)
  have "NewInterval a c = Inr ?w" "IntervalAt b = Inr ?p"
    using b assms(3,4) by (auto simp: NewInterval_Inr_iff IntervalAt_def)
  moreover have "\<not> (Contains l i \<and> Contains r i) \<and> (Contains ?w i \<longleftrightarrow> Contains l i \<or> Contains r i) \<and>
      (Contains ?p i \<longleftrightarrow> i = b)" for i
    using assms(3,4) b Contains_point [of ?p i] unfolding l r w by auto
  ultimately show ?thesis by blast
qed

theorem adjacent_intervals_partition_witness:
  "\<exists>w. NewInterval (Instant 1) zeroInstant = Inr w \<and> Contains w (Instant 5) \<and>
     Contains \<lparr>iv_from = Instant 5, iv_to = zeroInstant\<rparr> (Instant 5) \<and>
     \<not> Contains \<lparr>iv_from = Instant 1, iv_to = Instant 5\<rparr> (Instant 5)"
proof -
  have r: "Contains \<lparr>iv_from = Instant 5, iv_to = zeroInstant\<rparr> (Instant 5)" by (simp add: Contains_open)
  from adjacent_intervals_partition [of "Instant 1" "Instant 5" "\<lparr>iv_from = Instant 1, iv_to = Instant 5\<rparr>"
      zeroInstant "\<lparr>iv_from = Instant 5, iv_to = zeroInstant\<rparr>"]
  show ?thesis using r by (auto simp: NewInterval_def instant_defs)
qed

end
