(* ===== verification/Provenance.thy ===== *)
theory Provenance
  imports Framing Go_Hash Temporal
begin

text \<open>
  \<^verbatim>\<open>src/libs/kernel/provenance/provenance.go\<close>: confidence levels, sources, interpreters,
  reference bindings, the provenance envelope, and content-addressed derivation records.

  \<^verbatim>\<open>NewDerivation\<close> sorts parameters and references with \<^verbatim>\<open>sort.Slice\<close>, which promises a sorted
  permutation and no order among equal keys. It is modelled by the stable \<open>sort_key\<close>, which is
  what \<^verbatim>\<open>sort.Slice\<close> computes on up to twelve elements; the theorems that need more ask for
  distinct names, where every sorting function agrees (\<open>sorted_params_unique\<close>).
\<close>

section \<open>Confidence\<close>

definition ErrIncomplete :: sentinel where
  "ErrIncomplete = ''provenance: incomplete''"
definition ErrUnknownConfidence :: sentinel where
  "ErrUnknownConfidence = ''provenance: unknown confidence level''"
definition ErrMalformedSource :: sentinel where
  "ErrMalformedSource = ''provenance: malformed source''"

declare ErrIncomplete_def [sentinel_defs] ErrUnknownConfidence_def [sentinel_defs]
  ErrMalformedSource_def [sentinel_defs]

type_synonym Confidence = u8

definition ConfidenceUnspecified :: Confidence where "ConfidenceUnspecified = 0"
definition ConfidenceAsserted :: Confidence where "ConfidenceAsserted = 1"
definition ConfidenceDerived :: Confidence where "ConfidenceDerived = 2"
definition ConfidenceEstimated :: Confidence where "ConfidenceEstimated = 3"
definition ConfidenceInferred :: Confidence where "ConfidenceInferred = 4"
definition ConfidenceDisputed :: Confidence where "ConfidenceDisputed = 5"

declare ConfidenceUnspecified_def [enum_defs] ConfidenceAsserted_def [enum_defs]
  ConfidenceDerived_def [enum_defs] ConfidenceEstimated_def [enum_defs]
  ConfidenceInferred_def [enum_defs] ConfidenceDisputed_def [enum_defs]

definition Confidence_String :: "Confidence \<Rightarrow> string" where
  "Confidence_String c =
     (if c = ConfidenceAsserted then ''asserted''
      else if c = ConfidenceDerived then ''derived''
      else if c = ConfidenceEstimated then ''estimated''
      else if c = ConfidenceInferred then ''inferred''
      else if c = ConfidenceDisputed then ''disputed''
      else ''unspecified'')"

definition Confidence_Valid :: "Confidence \<Rightarrow> bool" where
  "Confidence_Valid c \<longleftrightarrow> c \<ge> ConfidenceAsserted \<and> c \<le> ConfidenceDisputed"

definition AtLeastAsTrustworthyAs :: "Confidence \<Rightarrow> Confidence \<Rightarrow> bool" where
  "AtLeastAsTrustworthyAs c other \<longleftrightarrow> c \<le> other"

definition Weakest :: "Confidence list \<Rightarrow> Confidence" where
  "Weakest levels = foldl (\<lambda>worst l. if l > worst then l else worst) ConfidenceAsserted levels"

section \<open>Sources, interpreters and reference bindings\<close>

datatype Source = Source (Source_value: string)

definition NewSource :: "string \<Rightarrow> Source result" where
  "NewSource v = (if TrimSpace v = [] then Inl [ErrIncomplete] else Inr (Source v))"

definition sourceAlgorithm :: string where
  "sourceAlgorithm = ''sha256:''"

definition CheckContentAddress :: "Source \<Rightarrow> unit result" where
  "CheckContentAddress s =
     (if \<not> HasPrefix (Source_value s) sourceAlgorithm then Inl [ErrMalformedSource]
      else let digest = TrimPrefix (Source_value s) sourceAlgorithm
           in if length digest \<noteq> 64 then Inl [ErrMalformedSource]
              else if list_ex (\<lambda>r. \<not> is_lower_hex r) (runes digest) then Inl [ErrMalformedSource]
              else Inr ())"

record Interpreter =
  ip_name :: string
  ip_version :: string

definition NewInterpreter :: "string \<Rightarrow> string \<Rightarrow> Interpreter result" where
  "NewInterpreter name version =
     (if TrimSpace name = [] \<or> TrimSpace version = [] then Inl [ErrIncomplete]
      else Inr \<lparr>ip_name = name, ip_version = version\<rparr>)"

definition UnmediatedName :: string where "UnmediatedName = ''unmediated''"
definition UnmediatedVersion :: string where "UnmediatedVersion = ''1''"

definition Unmediated :: Interpreter where
  "Unmediated = \<lparr>ip_name = UnmediatedName, ip_version = UnmediatedVersion\<rparr>"

definition IsUnmediated :: "Interpreter \<Rightarrow> bool" where
  "IsUnmediated i \<longleftrightarrow> ip_name i = UnmediatedName"

definition Interpreter_String :: "Interpreter \<Rightarrow> string" where
  "Interpreter_String i = ip_name i @ ''@'' @ ip_version i"

record ReferenceBinding =
  rb_dataset :: string
  rb_version :: string

definition NewReferenceBinding :: "string \<Rightarrow> string \<Rightarrow> ReferenceBinding result" where
  "NewReferenceBinding dataset version =
     (if TrimSpace dataset = [] \<or> TrimSpace version = [] then Inl [ErrIncomplete]
      else Inr \<lparr>rb_dataset = dataset, rb_version = version\<rparr>)"

definition ReferenceBinding_String :: "ReferenceBinding \<Rightarrow> string" where
  "ReferenceBinding_String r = rb_dataset r @ ''@'' @ rb_version r"

section \<open>Provenance\<close>

datatype Ref = Ref (Ref_hash: string)

record Provenance =
  pv_source :: Source
  pv_collectedAt :: Instant
  pv_publishedAt :: Instant
  pv_interpreter :: Interpreter
  pv_derivation :: "Ref option"
  pv_confidence :: Confidence

definition Observed ::
  "Source \<Rightarrow> Instant \<Rightarrow> Interpreter \<Rightarrow> Confidence \<Rightarrow> Provenance result" where
  "Observed source collectedAt interpreter confidence =
     (if Source_value source = [] then Inl [ErrIncomplete]
      else if Instant_IsZero collectedAt then Inl [ErrIncomplete]
      else if ip_name interpreter = [] then Inl [ErrIncomplete]
      else if \<not> Confidence_Valid confidence then Inl [ErrUnknownConfidence]
      else Inr \<lparr>pv_source = source, pv_collectedAt = collectedAt, pv_publishedAt = zeroInstant,
                pv_interpreter = interpreter, pv_derivation = None, pv_confidence = confidence\<rparr>)"

definition Derived ::
  "Source \<Rightarrow> Instant \<Rightarrow> Interpreter \<Rightarrow> Ref \<Rightarrow> Confidence \<Rightarrow> Provenance result" where
  "Derived source collectedAt interpreter derivation confidence =
     bindR (Observed source collectedAt interpreter confidence) (\<lambda>p.
       if Ref_hash derivation = [] then Inl [ErrIncomplete]
       else Inr (p\<lparr>pv_derivation := Some derivation\<rparr>))"

definition WithPublishedAt :: "Provenance \<Rightarrow> Instant \<Rightarrow> Provenance" where
  "WithPublishedAt p at = p\<lparr>pv_publishedAt := at\<rparr>"

definition Derivation :: "Provenance \<Rightarrow> Ref \<times> bool" where
  "Derivation p = (case pv_derivation p of None \<Rightarrow> (Ref [], False) | Some d \<Rightarrow> (d, True))"

definition Provenance_IsZero :: "Provenance \<Rightarrow> bool" where
  "Provenance_IsZero p \<longleftrightarrow> Source_value (pv_source p) = []"

section \<open>Derivation records\<close>

definition sha256HexLen :: nat where
  "sha256HexLen = 64"

definition NewRef :: "string \<Rightarrow> Ref result" where
  "NewRef hash =
     (if length hash \<noteq> sha256HexLen then Inl [ErrIncomplete]
      else if list_ex (\<lambda>r. \<not> is_lower_hex r) (runes hash) then Inl [ErrIncomplete]
      else Inr (Ref hash))"

definition Ref_IsZero :: "Ref \<Rightarrow> bool" where
  "Ref_IsZero r \<longleftrightarrow> Ref_hash r = []"

record Method =
  me_name :: string
  me_version :: string

definition NewMethod :: "string \<Rightarrow> string \<Rightarrow> Method result" where
  "NewMethod name version =
     (if TrimSpace name = [] \<or> TrimSpace version = [] then Inl [ErrIncomplete]
      else Inr \<lparr>me_name = name, me_version = version\<rparr>)"

definition Method_String :: "Method \<Rightarrow> string" where
  "Method_String m = me_name m @ ''@'' @ me_version m"

record Parameter =
  pa_Name :: string
  pa_Value :: string

record DerivationRecord =
  dr_method :: Method
  dr_inputs :: "string list"
  dr_parameters :: "Parameter list"
  dr_references :: "ReferenceBinding list"
  dr_confidence :: Confidence
  dr_hash :: string

definition tagDerivation :: string where "tagDerivation = ''fdos.provenance.derivation.v1''"
definition tagInputs :: string where "tagInputs = ''fdos.provenance.inputs.v1''"
definition tagParameters :: string where "tagParameters = ''fdos.provenance.parameters.v1''"
definition tagParameter :: string where "tagParameter = ''fdos.provenance.parameter.v1''"
definition tagReferences :: string where "tagReferences = ''fdos.provenance.references.v1''"

declare tagDerivation_def [tag_defs] tagInputs_def [tag_defs] tagParameters_def [tag_defs]
  tagParameter_def [tag_defs] tagReferences_def [tag_defs]

definition derivation_preimage :: "DerivationRecord \<Rightarrow> string" where
  "derivation_preimage d =
     (let inputs = Frame tagInputs (dr_inputs d);
          parameters = map (\<lambda>p. Frame tagParameter [pa_Name p, pa_Value p]) (dr_parameters d);
          references = map ReferenceBinding_String (dr_references d)
      in Frame tagDerivation
           [Method_String (dr_method d), inputs, Frame tagParameters parameters,
            Frame tagReferences references, Confidence_String (dr_confidence d)])"

definition contentAddress :: "DerivationRecord \<Rightarrow> string" where
  "contentAddress d = EncodeToString (sha256 (derivation_preimage d))"

definition NewDerivation ::
  "Method \<Rightarrow> string list \<Rightarrow> Parameter list \<Rightarrow> ReferenceBinding list \<Rightarrow> Confidence \<Rightarrow>
   DerivationRecord result" where
  "NewDerivation method inputs parameters references confidence =
     (if me_name method = [] then Inl [ErrIncomplete]
      else if \<not> Confidence_Valid confidence then Inl [ErrUnknownConfidence]
      else let d = \<lparr>dr_method = method, dr_inputs = inputs,
                     dr_parameters = sort_key pa_Name parameters,
                     dr_references = sort_key rb_dataset references,
                     dr_confidence = confidence, dr_hash = []\<rparr>
           in Inr (d\<lparr>dr_hash := contentAddress d\<rparr>))"

definition DerivationRecord_Ref :: "DerivationRecord \<Rightarrow> Ref" where
  "DerivationRecord_Ref d = Ref (dr_hash d)"

section \<open>Confidence propagates as the weakest level\<close>

lemma Weakest_acc:
  "foldl (\<lambda>worst l. if l > worst then l else worst) w ls = fold max ls (w :: Confidence)"
  by (induction ls arbitrary: w) (auto simp: max_def not_less)

lemma Weakest_Max: "Weakest ls = Max (insert ConfidenceAsserted (set ls))"
  using Max.set_eq_fold [of ConfidenceAsserted ls] by (simp add: Weakest_def Weakest_acc)

lemma Weakest_ge: "l \<in> set ls \<Longrightarrow> l \<le> Weakest ls"
  by (simp add: Weakest_Max)

lemma Weakest_in: "ls \<noteq> [] \<Longrightarrow> list_all Confidence_Valid ls \<Longrightarrow> Weakest ls \<in> set ls"
proof -
  assume a: "ls \<noteq> []" "list_all Confidence_Valid ls"
  then have "ConfidenceAsserted \<le> hd ls" by (cases ls) (auto simp: Confidence_Valid_def)
  then have "ConfidenceAsserted \<le> Max (set ls)" using a(1) by (meson List.finite_set Max_ge hd_in_set order_trans)
  then have "Weakest ls = Max (set ls)" using a(1) by (simp add: Weakest_Max max_def)
  then show ?thesis using a(1) by (simp add: Max_in)
qed

lemma Weakest_Valid: "list_all Confidence_Valid ls \<Longrightarrow> Confidence_Valid (Weakest ls)"
proof (cases "ls = []")
  case True
  then show ?thesis by (simp add: Weakest_def Confidence_Valid_def enum_defs)
next
  case False
  then show "list_all Confidence_Valid ls \<Longrightarrow> ?thesis" using Weakest_in [of ls] by (auto simp: list_all_iff)
qed

section \<open>What the constructors establish\<close>

lemma Observed_Inr_iff:
  "Observed s t i c = Inr p \<longleftrightarrow>
     Source_value s \<noteq> [] \<and> Time t \<noteq> 0 \<and> ip_name i \<noteq> [] \<and> Confidence_Valid c \<and>
     p = \<lparr>pv_source = s, pv_collectedAt = t, pv_publishedAt = zeroInstant, pv_interpreter = i,
          pv_derivation = None, pv_confidence = c\<rparr>"
  by (auto simp: Observed_def Instant_IsZero_def)

lemma Derived_Inr_iff:
  "Derived s t i d c = Inr p \<longleftrightarrow>
     Source_value s \<noteq> [] \<and> Time t \<noteq> 0 \<and> ip_name i \<noteq> [] \<and> Confidence_Valid c \<and> Ref_hash d \<noteq> [] \<and>
     p = \<lparr>pv_source = s, pv_collectedAt = t, pv_publishedAt = zeroInstant, pv_interpreter = i,
          pv_derivation = Some d, pv_confidence = c\<rparr>"
  by (auto simp: Derived_def Observed_Inr_iff)

definition wf_provenance :: "Provenance \<Rightarrow> bool" where
  "wf_provenance p \<longleftrightarrow>
     Source_value (pv_source p) \<noteq> [] \<and> Time (pv_collectedAt p) \<noteq> 0 \<and>
     ip_name (pv_interpreter p) \<noteq> [] \<and> Confidence_Valid (pv_confidence p) \<and>
     (\<forall>d. pv_derivation p = Some d \<longrightarrow> Ref_hash d \<noteq> [])"

lemma Observed_wf: "Observed s t i c = Inr p \<Longrightarrow> wf_provenance p"
  by (simp add: Observed_Inr_iff wf_provenance_def)

lemma Derived_wf: "Derived s t i d c = Inr p \<Longrightarrow> wf_provenance p"
  by (simp add: Derived_Inr_iff wf_provenance_def)

lemma WithPublishedAt_wf: "wf_provenance p \<Longrightarrow> wf_provenance (WithPublishedAt p at)"
  by (simp add: wf_provenance_def WithPublishedAt_def)

lemma NewDerivation_Inr_iff:
  "NewDerivation m ins ps rs c = Inr d \<longleftrightarrow>
     me_name m \<noteq> [] \<and> Confidence_Valid c \<and>
     dr_method d = m \<and> dr_inputs d = ins \<and> dr_parameters d = sort_key pa_Name ps \<and>
     dr_references d = sort_key rb_dataset rs \<and> dr_confidence d = c \<and> dr_hash d = contentAddress d"
  by (cases d) (auto simp: NewDerivation_def Let_def contentAddress_def derivation_preimage_def)

lemma length_contentAddress: "length (contentAddress d) = 64"
  by (simp add: contentAddress_def)

lemma NewRef_contentAddress: "NewRef (contentAddress d) = Inr (Ref (contentAddress d))"
proof -
  have "\<not> list_ex (\<lambda>r. \<not> is_lower_hex r) (runes (contentAddress d))"
    using EncodeToString_lower by (auto simp: list_ex_iff runes_ascii contentAddress_def)
  then show ?thesis by (simp add: NewRef_def sha256HexLen_def length_contentAddress)
qed

text \<open>Where names are distinct every sorted permutation is the one \<open>NewDerivation\<close> hashes.\<close>

lemma sorted_params_unique:
  assumes "mset ys = mset ps" "sorted (map pa_Name ys)" "distinct (map pa_Name ps)"
  shows "ys = sort_key pa_Name ps"
proof -
  have "distinct (map pa_Name ys)"
    using assms(1,3) mset_eq_imp_distinct_iff [of "map pa_Name ys" "map pa_Name ps"] by simp
  then have "sort_key pa_Name ys = sort_key pa_Name ps" using assms(1) by (intro sort_key_perm_eq) simp_all
  then show ?thesis using assms(2) by (simp add: sort_key_id_if_sorted)
qed

section \<open>The content address\<close>

definition derivation_fits :: "DerivationRecord \<Rightarrow> bool" where
  "derivation_fits d \<longleftrightarrow>
     fits (Method_String (dr_method d)) \<and> list_all fits (dr_inputs d) \<and>
     list_all (\<lambda>p. fits (pa_Name p) \<and> fits (pa_Value p)) (dr_parameters d) \<and>
     list_all (\<lambda>r. fits (ReferenceBinding_String r)) (dr_references d) \<and>
     fits (Frame tagInputs (dr_inputs d)) \<and>
     list_all (\<lambda>p. fits (Frame tagParameter [pa_Name p, pa_Value p])) (dr_parameters d) \<and>
     fits (Frame tagParameters (map (\<lambda>p. Frame tagParameter [pa_Name p, pa_Value p]) (dr_parameters d))) \<and>
     fits (Frame tagReferences (map ReferenceBinding_String (dr_references d)))"

lemma fits_provenance_tags [simp]:
  "fits tagDerivation" "fits tagInputs" "fits tagParameters" "fits tagParameter" "fits tagReferences"
  "fits (Confidence_String c)"
  by (simp_all add: fits_def tag_defs Confidence_String_def)

lemma parameter_frames_inj:
  fixes ps qs :: "Parameter list"
  assumes "list_all (\<lambda>p. fits (pa_Name p) \<and> fits (pa_Value p)) ps"
    and "list_all (\<lambda>p. fits (pa_Name p) \<and> fits (pa_Value p)) qs"
    and "map (\<lambda>p. Frame tagParameter [pa_Name p, pa_Value p]) ps =
         map (\<lambda>p. Frame tagParameter [pa_Name p, pa_Value p]) qs"
  shows "ps = qs"
proof -
  have "map (\<lambda>p. [pa_Name p, pa_Value p]) ps = map (\<lambda>p. [pa_Name p, pa_Value p]) qs"
    using assms by (intro framing.frame_sections [of tagParameter])
      (auto simp: list_all_iff comp_def)
  moreover have "inj (\<lambda>p :: Parameter. [pa_Name p, pa_Value p])" by (auto simp: inj_def)
  ultimately show ?thesis by (simp add: inj_map_eq_map)
qed

lemma Confidence_String_inj:
  "Confidence_Valid c \<Longrightarrow> Confidence_Valid d \<Longrightarrow> Confidence_String c = Confidence_String d \<longleftrightarrow> c = d"
proof -
  have "c = 1 \<or> c = 2 \<or> c = 3 \<or> c = 4 \<or> c = 5" if "Confidence_Valid c" for c
    using that unfolding Confidence_Valid_def enum_defs word_le_nat_alt
    by (auto simp: word_unat_eq_iff)
  then show "Confidence_Valid c \<Longrightarrow> Confidence_Valid d \<Longrightarrow> ?thesis"
    by (auto simp: Confidence_String_def enum_defs)
qed

lemma derivation_preimage_eq_iff:
  assumes "derivation_fits a" "derivation_fits b"
  shows "derivation_preimage a = derivation_preimage b \<longleftrightarrow>
    Method_String (dr_method a) = Method_String (dr_method b) \<and> dr_inputs a = dr_inputs b \<and>
    dr_parameters a = dr_parameters b \<and>
    map ReferenceBinding_String (dr_references a) = map ReferenceBinding_String (dr_references b) \<and>
    Confidence_String (dr_confidence a) = Confidence_String (dr_confidence b)" (is "?L \<longleftrightarrow> ?R")
proof
  assume ?L
  then have eqs: "Method_String (dr_method a) = Method_String (dr_method b)"
    "Frame tagInputs (dr_inputs a) = Frame tagInputs (dr_inputs b)"
    "Frame tagParameters (map (\<lambda>p. Frame tagParameter [pa_Name p, pa_Value p]) (dr_parameters a)) =
     Frame tagParameters (map (\<lambda>p. Frame tagParameter [pa_Name p, pa_Value p]) (dr_parameters b))"
    "Frame tagReferences (map ReferenceBinding_String (dr_references a)) =
     Frame tagReferences (map ReferenceBinding_String (dr_references b))"
    "Confidence_String (dr_confidence a) = Confidence_String (dr_confidence b)"
    using assms by (simp_all add: derivation_preimage_def Let_def framing.frame_eq_iff derivation_fits_def)
  have "dr_inputs a = dr_inputs b"
    using eqs(2) assms by (simp add: framing.frame_eq_iff derivation_fits_def)
  moreover have "map (\<lambda>p. Frame tagParameter [pa_Name p, pa_Value p]) (dr_parameters a) =
      map (\<lambda>p. Frame tagParameter [pa_Name p, pa_Value p]) (dr_parameters b)"
    using eqs(3) assms
    by (subst (asm) framing.frame_eq_iff) (auto simp: derivation_fits_def list_all_iff)
  then have "dr_parameters a = dr_parameters b"
    using assms by (intro parameter_frames_inj) (simp_all add: derivation_fits_def)
  moreover have "map ReferenceBinding_String (dr_references a) = map ReferenceBinding_String (dr_references b)"
    using eqs(4) assms
    by (subst (asm) framing.frame_eq_iff) (auto simp: derivation_fits_def list_all_iff)
  ultimately show ?R using eqs by simp
next
  assume ?R
  then show ?L by (simp add: derivation_preimage_def Let_def)
qed

text \<open>\<open>name@version\<close> determines its parts when the name holds no at sign.\<close>

definition at_free :: "string \<Rightarrow> bool" where
  "at_free s \<longleftrightarrow> CHR ''@'' \<notin> set s"

lemma Method_String_inj:
  "at_free (me_name m) \<Longrightarrow> at_free (me_name n) \<Longrightarrow> Method_String m = Method_String n \<longleftrightarrow> m = n"
  using cut_at [of "CHR ''@''" "me_name m" "me_name n" "me_version m" "me_version n"]
  by (auto simp: Method_String_def at_free_def)

lemma ReferenceBinding_String_inj:
  "at_free (rb_dataset m) \<Longrightarrow> at_free (rb_dataset n) \<Longrightarrow>
   ReferenceBinding_String m = ReferenceBinding_String n \<longleftrightarrow> m = n"
  using cut_at [of "CHR ''@''" "rb_dataset m" "rb_dataset n" "rb_version m" "rb_version n"]
  by (auto simp: ReferenceBinding_String_def at_free_def)

lemma reference_strings_inj:
  assumes "list_all (\<lambda>r. at_free (rb_dataset r)) rs" "list_all (\<lambda>r. at_free (rb_dataset r)) ss"
    and "map ReferenceBinding_String rs = map ReferenceBinding_String ss"
  shows "rs = ss"
proof -
  have "inj_on ReferenceBinding_String (set rs \<union> set ss)"
    using assms(1,2) by (auto simp: inj_on_def list_all_iff ReferenceBinding_String_inj)
  with assms(3) show ?thesis by (simp add: inj_on_map_eq_map)
qed

section \<open>Properties\<close>

text \<open>C22: the content address is computed from bytes that determine the derivation. For two
  records that \<open>NewDerivation\<close> returned, whose method names and dataset names hold no at sign,
  the hashed pre-images are equal exactly when the records are: method, inputs in order,
  parameters, references and confidence. \<open>derivation_fits\<close> says every component is shorter than
  \<open>2^63\<close> bytes, as every Go string is.\<close>

theorem derivation_preimage_injective:
  assumes "NewDerivation m ins ps rs c = Inr a" "NewDerivation m' ins' ps' rs' c' = Inr b"
    and "derivation_fits a" "derivation_fits b"
    and "at_free (me_name m)" "at_free (me_name m')"
    and "list_all (\<lambda>r. at_free (rb_dataset r)) rs" "list_all (\<lambda>r. at_free (rb_dataset r)) rs'"
  shows "derivation_preimage a = derivation_preimage b \<longleftrightarrow> a = b"
proof
  assume "derivation_preimage a = derivation_preimage b"
  then have eqs: "Method_String m = Method_String m'" "ins = ins'" "dr_parameters a = dr_parameters b"
    "map ReferenceBinding_String (dr_references a) = map ReferenceBinding_String (dr_references b)"
    "Confidence_String c = Confidence_String c'"
    using derivation_preimage_eq_iff [OF assms(3,4)] assms(1,2)
    by (simp_all only: NewDerivation_Inr_iff)
  have "dr_references a = dr_references b"
    using assms(1,2,7,8) eqs(4)
    by (intro reference_strings_inj) (auto simp: NewDerivation_Inr_iff list_all_iff)
  moreover have "m = m'" using eqs(1) assms(5,6) by (simp add: Method_String_inj)
  moreover have "c = c'" using eqs(5) assms(1,2) by (simp add: NewDerivation_Inr_iff Confidence_String_inj)
  ultimately show "a = b"
    using eqs(2,3) assms(1,2)
    by (cases a; cases b) (auto simp: NewDerivation_Inr_iff contentAddress_def derivation_preimage_def)
qed simp

theorem derivation_preimage_injective_witness:
  "\<exists>a b. NewDerivation \<lparr>me_name = ''m'', me_version = ''1''\<rparr> [''x'', ''y''] [] [] 1 = Inr a \<and>
     NewDerivation \<lparr>me_name = ''m'', me_version = ''1''\<rparr> [''x'']
       [\<lparr>pa_Name = ''y'', pa_Value = []\<rparr>] [] 1 = Inr b \<and>
     derivation_preimage a \<noteq> derivation_preimage b"
proof -
  define a where "a = \<lparr>dr_method = \<lparr>me_name = ''m'', me_version = ''1''\<rparr>, dr_inputs = [''x'', ''y''],
      dr_parameters = [], dr_references = [], dr_confidence = 1, dr_hash = []\<rparr>"
  define b where "b = \<lparr>dr_method = \<lparr>me_name = ''m'', me_version = ''1''\<rparr>, dr_inputs = [''x''],
      dr_parameters = [\<lparr>pa_Name = ''y'', pa_Value = []\<rparr>], dr_references = [], dr_confidence = 1,
      dr_hash = []\<rparr>"
  let ?a = "a\<lparr>dr_hash := contentAddress a\<rparr>" and ?b = "b\<lparr>dr_hash := contentAddress b\<rparr>"
  have na: "NewDerivation \<lparr>me_name = ''m'', me_version = ''1''\<rparr> [''x'', ''y''] [] [] 1 = Inr ?a"
    and nb: "NewDerivation \<lparr>me_name = ''m'', me_version = ''1''\<rparr> [''x'']
       [\<lparr>pa_Name = ''y'', pa_Value = []\<rparr>] [] 1 = Inr ?b"
    by (simp_all add: NewDerivation_def a_def b_def Confidence_Valid_def enum_defs Let_def)
  have "derivation_fits ?a" "derivation_fits ?b"
    by (simp_all add: derivation_fits_def a_def b_def fits_def length_Frame Method_String_def tag_defs)
  then have "derivation_preimage ?a = derivation_preimage ?b \<longleftrightarrow> ?a = ?b"
    by (intro derivation_preimage_injective [OF na nb]) (simp_all add: at_free_def)
  with na nb show ?thesis by (auto simp: a_def b_def)
qed

text \<open>The caller's argument order does not move the address. Permuting parameters with
  distinct names and references with distinct datasets gives the same record.\<close>

theorem derivation_order_irrelevant:
  assumes "mset ps = mset ps'" "distinct (map pa_Name ps)"
    and "mset rs = mset rs'" "distinct (map rb_dataset rs)"
  shows "NewDerivation m ins ps rs c = NewDerivation m ins ps' rs' c"
  unfolding NewDerivation_def sort_key_perm_eq [OF assms(1,2)] sort_key_perm_eq [OF assms(3,4)] ..

theorem derivation_order_irrelevant_witness:
  "NewDerivation \<lparr>me_name = ''m'', me_version = ''1''\<rparr> [] [\<lparr>pa_Name = ''b'', pa_Value = ''1''\<rparr>, \<lparr>pa_Name = ''a'', pa_Value = ''2''\<rparr>] [] 1 =
   NewDerivation \<lparr>me_name = ''m'', me_version = ''1''\<rparr> [] [\<lparr>pa_Name = ''a'', pa_Value = ''2''\<rparr>, \<lparr>pa_Name = ''b'', pa_Value = ''1''\<rparr>] [] 1"
  by (rule derivation_order_irrelevant) simp_all

text \<open>The address of a derivation is a well-formed reference. \<open>NewRef\<close>, which the codecs
  call, rebuilds from the hash of any record the reference the record hands out, and \<open>Derived\<close>
  accepts it.\<close>

theorem derivation_ref_restores:
  assumes "NewDerivation m ins ps rs c = Inr d"
  shows "NewRef (dr_hash d) = Inr (DerivationRecord_Ref d) \<and>
    (Observed s t i k = Inr p \<longrightarrow>
       Derived s t i (DerivationRecord_Ref d) k = Inr (p\<lparr>pv_derivation := Some (DerivationRecord_Ref d)\<rparr>))"
proof -
  have "dr_hash d = contentAddress d" using assms by (simp add: NewDerivation_Inr_iff)
  then show ?thesis
    using NewRef_contentAddress [of d] length_contentAddress [of d]
    by (auto simp: DerivationRecord_Ref_def Derived_def)
qed

theorem derivation_ref_restores_witness:
  "\<exists>d. NewDerivation \<lparr>me_name = ''m'', me_version = ''1''\<rparr> [] [] [] 1 = Inr d \<and>
     NewRef (dr_hash d) = Inr (DerivationRecord_Ref d)"
proof -
  obtain d where d: "NewDerivation \<lparr>me_name = ''m'', me_version = ''1''\<rparr> [] [] [] 1 = Inr d"
    by (simp add: NewDerivation_def Confidence_Valid_def enum_defs Let_def)
  with derivation_ref_restores [OF d] show ?thesis by blast
qed

text \<open>The method is joined, not framed. Two different methods that \<open>NewMethod\<close> accepts give
  derivation records with one content address, because \<open>name@version\<close> is hashed as one
  component.\<close>

theorem method_join_collides:
  "\<exists>m n a b. NewMethod ''a@b'' ''c'' = Inr m \<and> NewMethod ''a'' ''b@c'' = Inr n \<and> m \<noteq> n \<and>
     NewDerivation m ins ps rs 1 = Inr a \<and> NewDerivation n ins ps rs 1 = Inr b \<and> dr_hash a = dr_hash b"
proof -
  let ?m = "\<lparr>me_name = ''a@b'', me_version = ''c''\<rparr>" and ?n = "\<lparr>me_name = ''a'', me_version = ''b@c''\<rparr>"
  have "NewMethod ''a@b'' ''c'' = Inr ?m" "NewMethod ''a'' ''b@c'' = Inr ?n"
    by (simp_all add: NewMethod_def ascii_eval)
  moreover have "Confidence_Valid 1" by (simp add: Confidence_Valid_def enum_defs)
  ultimately show ?thesis
    by (simp add: NewDerivation_def Let_def contentAddress_def derivation_preimage_def Method_String_def)
qed

text \<open>Confidence propagates as the weakest input. \<open>Weakest\<close> of valid levels is valid, no
  more trustworthy than any of them, and is one of them.\<close>

theorem weakest_bound:
  assumes "list_all Confidence_Valid ls" "ls \<noteq> []"
  shows "Confidence_Valid (Weakest ls) \<and> Weakest ls \<in> set ls \<and>
    list_all (\<lambda>l. AtLeastAsTrustworthyAs l (Weakest ls)) ls"
  using assms Weakest_in Weakest_Valid Weakest_ge by (simp add: list_all_iff AtLeastAsTrustworthyAs_def)

theorem weakest_bound_witness:
  "Weakest [ConfidenceDerived, ConfidenceInferred, ConfidenceAsserted] = ConfidenceInferred \<and>
   Confidence_Valid (Weakest [ConfidenceDerived, ConfidenceInferred, ConfidenceAsserted])"
  using weakest_bound [of "[ConfidenceDerived, ConfidenceInferred, ConfidenceAsserted]"]
  by (simp add: Weakest_def Confidence_Valid_def enum_defs)

end
