(* ===== verification/Explained.thy ===== *)
theory Explained
  imports Provenance
begin

text \<open>
  \<^verbatim>\<open>src/libs/kernel/explained/explained.go\<close>: values paired with the derivation that produced
  them, and the combinators that extend a derivation. Go's functions \<open>func(A) (B, error)\<close> are
  HOL functions into \<open>'b result\<close>; the loop of \<^verbatim>\<open>Fold\<close> is \<open>fold_loop\<close>, which accumulates the
  value, the hashes and the confidences in the order of the slice.
\<close>

definition ErrNoTrace :: sentinel where
  "ErrNoTrace = ''explained: value has no derivation''"

declare ErrNoTrace_def [sentinel_defs]

record 'a Value =
  v_value :: 'a
  v_trace :: Ref
  v_record :: DerivationRecord

definition FromDerivation ::
  "'a \<Rightarrow> Method \<Rightarrow> string list \<Rightarrow> Parameter list \<Rightarrow> ReferenceBinding list \<Rightarrow> Confidence \<Rightarrow>
   'a Value result" where
  "FromDerivation v method inputs parameters references confidence =
     bindR (NewDerivation method inputs parameters references confidence) (\<lambda>r.
       Inr \<lparr>v_value = v, v_trace = DerivationRecord_Ref r, v_record = r\<rparr>)"

definition FromObservation ::
  "'a \<Rightarrow> Method \<Rightarrow> string list \<Rightarrow> Confidence \<Rightarrow> 'a Value result" where
  "FromObservation v method inputs confidence =
     FromDerivation v method inputs [] [] confidence"

definition Value_Confidence :: "'a Value \<Rightarrow> Confidence" where
  "Value_Confidence v = dr_confidence (v_record v)"

definition Explained_Map ::
  "'a Value \<Rightarrow> Method \<Rightarrow> Parameter list \<Rightarrow> ReferenceBinding list \<Rightarrow> ('a \<Rightarrow> 'b) \<Rightarrow>
   'b Value result" where
  "Explained_Map inp method parameters references f =
     bindR (NewDerivation method [Ref_hash (v_trace inp)] parameters references
              (dr_confidence (v_record inp))) (\<lambda>r.
       Inr \<lparr>v_value = f (v_value inp), v_trace = DerivationRecord_Ref r, v_record = r\<rparr>)"

definition TryMap ::
  "'a Value \<Rightarrow> Method \<Rightarrow> Parameter list \<Rightarrow> ReferenceBinding list \<Rightarrow> ('a \<Rightarrow> 'b result) \<Rightarrow>
   'b Value result" where
  "TryMap inp method parameters references f =
     bindR (f (v_value inp)) (\<lambda>out.
     bindR (NewDerivation method [Ref_hash (v_trace inp)] parameters references
              (dr_confidence (v_record inp))) (\<lambda>r.
       Inr \<lparr>v_value = out, v_trace = DerivationRecord_Ref r, v_record = r\<rparr>))"

definition Combine2 ::
  "'a Value \<Rightarrow> 'b Value \<Rightarrow> Method \<Rightarrow> Parameter list \<Rightarrow> ReferenceBinding list \<Rightarrow>
   ('a \<Rightarrow> 'b \<Rightarrow> 'c result) \<Rightarrow> 'c Value result" where
  "Combine2 a b method parameters references f =
     bindR (f (v_value a) (v_value b)) (\<lambda>out.
     bindR (NewDerivation method [Ref_hash (v_trace a), Ref_hash (v_trace b)] parameters references
              (Weakest [dr_confidence (v_record a), dr_confidence (v_record b)])) (\<lambda>r.
       Inr \<lparr>v_value = out, v_trace = DerivationRecord_Ref r, v_record = r\<rparr>))"

fun fold_loop ::
  "('b \<Rightarrow> 'a \<Rightarrow> 'b result) \<Rightarrow> 'b \<Rightarrow> string list \<Rightarrow> Confidence list \<Rightarrow> 'a Value list \<Rightarrow>
   ('b \<times> string list \<times> Confidence list) result" where
  "fold_loop f acc hashes confidences [] = Inr (acc, hashes, confidences)"
| "fold_loop f acc hashes confidences (inp # inputs) =
     bindR (f acc (v_value inp)) (\<lambda>acc'.
       fold_loop f acc' (hashes @ [Ref_hash (v_trace inp)])
         (confidences @ [dr_confidence (v_record inp)]) inputs)"

definition Explained_Fold ::
  "'a Value list \<Rightarrow> 'b \<Rightarrow> Method \<Rightarrow> Parameter list \<Rightarrow> ReferenceBinding list \<Rightarrow>
   ('b \<Rightarrow> 'a \<Rightarrow> 'b result) \<Rightarrow> 'b Value result" where
  "Explained_Fold inputs seed method parameters references f =
     (if inputs = [] then Inl [ErrNoTrace]
      else bindR (fold_loop f seed [] [] inputs) (\<lambda>(acc, hashes, confidences).
        bindR (NewDerivation method hashes parameters references (Weakest confidences)) (\<lambda>r.
          Inr \<lparr>v_value = acc, v_trace = DerivationRecord_Ref r, v_record = r\<rparr>)))"

section \<open>Every value carries its own derivation\<close>

text \<open>What the entry points and combinators establish of every value they return.\<close>

definition wf_value :: "'a Value \<Rightarrow> bool" where
  "wf_value v \<longleftrightarrow>
     v_trace v = DerivationRecord_Ref (v_record v) \<and>
     dr_hash (v_record v) = contentAddress (v_record v) \<and>
     me_name (dr_method (v_record v)) \<noteq> [] \<and> Confidence_Valid (dr_confidence (v_record v))"

lemma NewDerivation_value_wf:
  "NewDerivation m ins ps rs c = Inr r \<Longrightarrow>
   wf_value \<lparr>v_value = x, v_trace = DerivationRecord_Ref r, v_record = r\<rparr>"
  by (simp add: wf_value_def NewDerivation_Inr_iff)

lemma FromDerivation_Inr_iff:
  "FromDerivation x m ins ps rs c = Inr v \<longleftrightarrow>
     NewDerivation m ins ps rs c = Inr (v_record v) \<and> v_value v = x \<and>
     v_trace v = DerivationRecord_Ref (v_record v)"
  by (cases v) (auto simp: FromDerivation_def)

lemma NewDerivation_total:
  "me_name m \<noteq> [] \<Longrightarrow> Confidence_Valid c \<Longrightarrow> \<exists>r. NewDerivation m ins ps rs c = Inr r"
  by (simp add: NewDerivation_def Let_def)

lemma wf_value_NewRef: "wf_value v \<Longrightarrow> NewRef (Ref_hash (v_trace v)) = Inr (v_trace v)"
  by (simp add: wf_value_def DerivationRecord_Ref_def NewRef_contentAddress)

text \<open>The reference semantics of the fold loop: a monadic left fold of the values alone.\<close>

fun foldR :: "('b \<Rightarrow> 'a \<Rightarrow> 'b result) \<Rightarrow> 'b \<Rightarrow> 'a list \<Rightarrow> 'b result" where
  "foldR f acc [] = Inr acc"
| "foldR f acc (x # xs) = bindR (f acc x) (\<lambda>acc'. foldR f acc' xs)"

lemma fold_loop_eq:
  "fold_loop f acc hs cs ins =
     bindR (foldR f acc (map v_value ins)) (\<lambda>out.
       Inr (out, hs @ map (\<lambda>v. Ref_hash (v_trace v)) ins, cs @ map (\<lambda>v. dr_confidence (v_record v)) ins))"
  by (induction f acc hs cs ins rule: fold_loop.induct) (simp_all add: bindR_assoc)

lemma Explained_Fold_eq:
  "ins \<noteq> [] \<Longrightarrow> Explained_Fold ins seed m ps rs f =
     bindR (foldR f seed (map v_value ins)) (\<lambda>out.
       FromDerivation out m (map (\<lambda>v. Ref_hash (v_trace v)) ins) ps rs
         (Weakest (map (\<lambda>v. dr_confidence (v_record v)) ins)))"
  by (simp add: Explained_Fold_def fold_loop_eq bindR_assoc FromDerivation_def)

section \<open>Properties\<close>

text \<open>No unexplained value. Whatever the functions passed to them do, every value that
  \<open>FromDerivation\<close>, \<open>Map\<close>, \<open>TryMap\<close>, \<open>Combine2\<close> or \<open>Fold\<close> returns carries a record of a named
  method at a valid confidence, whose content address is the value's trace.\<close>

theorem explained_value_wf:
  assumes "FromDerivation x m ins ps rs c = Inr v \<or> Explained_Map a m ps rs g = Inr v \<or>
    TryMap a m ps rs h = Inr v \<or> Combine2 a b m ps rs k = Inr v \<or> Explained_Fold vs s m ps rs l = Inr v"
  shows "wf_value v"
  using assms NewDerivation_value_wf
  by (auto simp: FromDerivation_def Explained_Map_def TryMap_def Combine2_def Explained_Fold_def
      split: if_splits prod.splits)

theorem explained_value_wf_witness:
  "\<exists>v. FromDerivation (7::nat) \<lparr>me_name = ''m'', me_version = ''1''\<rparr> [] [] [] 1 = Inr v \<and> wf_value v"
proof -
  have "Confidence_Valid 1" by (simp add: Confidence_Valid_def enum_defs)
  then obtain v where
    "FromDerivation (7::nat) \<lparr>me_name = ''m'', me_version = ''1''\<rparr> [] [] [] 1 = Inr v"
    by (simp add: FromDerivation_def NewDerivation_def Let_def)
  moreover from this have "wf_value v" by (intro explained_value_wf disjI1)
  ultimately show ?thesis by blast
qed

text \<open>A fold explains every input. Over well-formed inputs and a named method, \<open>Fold\<close>
  returns exactly when the step function does on every element in turn; the value is the left
  fold, the record names each input's trace in order, and its confidence is the weakest input's.
  Over no inputs it is \<open>ErrNoTrace\<close>, never the seed.\<close>

theorem fold_explains_inputs:
  assumes "list_all wf_value vs" "me_name m \<noteq> []"
  shows "Explained_Fold [] s m ps rs f = Inl [ErrNoTrace] \<and>
    (vs \<noteq> [] \<longrightarrow>
      (\<forall>e. foldR f s (map v_value vs) = Inl e \<longrightarrow> Explained_Fold vs s m ps rs f = Inl e) \<and>
      (\<forall>out. foldR f s (map v_value vs) = Inr out \<longrightarrow>
        (\<exists>v. Explained_Fold vs s m ps rs f = Inr v \<and> v_value v = out \<and>
           dr_inputs (v_record v) = map (\<lambda>v. Ref_hash (v_trace v)) vs \<and>
           Value_Confidence v \<in> Value_Confidence ` set vs \<and>
           list_all (\<lambda>i. AtLeastAsTrustworthyAs (Value_Confidence i) (Value_Confidence v)) vs)))"
proof -
  define cs where "cs = map (\<lambda>v. dr_confidence (v_record v)) vs"
  have valid: "list_all Confidence_Valid cs"
    using assms(1) by (auto simp: cs_def list_all_iff wf_value_def)
  have "\<exists>v. Explained_Fold vs s m ps rs f = Inr v \<and> v_value v = out \<and>
      dr_inputs (v_record v) = map (\<lambda>v. Ref_hash (v_trace v)) vs \<and> Value_Confidence v = Weakest cs"
    if "vs \<noteq> []" "foldR f s (map v_value vs) = Inr out" for out
  proof -
    obtain r where "NewDerivation m (map (\<lambda>v. Ref_hash (v_trace v)) vs) ps rs (Weakest cs) = Inr r"
      using NewDerivation_total [OF assms(2) Weakest_Valid [OF valid]] by blast
    moreover from this have "dr_inputs r = map (\<lambda>v. Ref_hash (v_trace v)) vs" "dr_confidence r = Weakest cs"
      by (simp_all add: NewDerivation_Inr_iff)
    ultimately show ?thesis
      using that by (simp add: Explained_Fold_eq FromDerivation_def cs_def [symmetric] Value_Confidence_def)
  qed
  moreover have "Weakest cs \<in> Value_Confidence ` set vs" if "vs \<noteq> []"
    using Weakest_in [OF _ valid] that by (auto simp: cs_def Value_Confidence_def)
  moreover have "list_all (\<lambda>i. AtLeastAsTrustworthyAs (Value_Confidence i) (Weakest cs)) vs"
    by (auto simp: list_all_iff AtLeastAsTrustworthyAs_def Value_Confidence_def cs_def intro: Weakest_ge)
  moreover have "Explained_Fold vs s m ps rs f = Inl e"
    if "vs \<noteq> []" "foldR f s (map v_value vs) = Inl e" for e
    using that by (simp add: Explained_Fold_eq)
  ultimately show ?thesis by (fastforce simp: Explained_Fold_def)
qed

theorem fold_explains_inputs_witness:
  "\<exists>a v. FromDerivation (7::int) \<lparr>me_name = ''m'', me_version = ''1''\<rparr> [] [] [] 1 = Inr a \<and>
     Explained_Fold [a, a] 0 \<lparr>me_name = ''sum'', me_version = ''1''\<rparr> [] [] (\<lambda>x y. Inr (x + y)) = Inr v \<and>
     v_value v = 14 \<and> dr_inputs (v_record v) = [Ref_hash (v_trace a), Ref_hash (v_trace a)]"
proof -
  have "Confidence_Valid 1" by (simp add: Confidence_Valid_def enum_defs)
  then obtain a where
    a: "FromDerivation (7::int) \<lparr>me_name = ''m'', me_version = ''1''\<rparr> [] [] [] 1 = Inr a"
    by (simp add: FromDerivation_def NewDerivation_def Let_def)
  then have "wf_value a" "v_value a = 7"
    by (auto simp: FromDerivation_Inr_iff wf_value_def NewDerivation_Inr_iff)
  then show ?thesis
    using a fold_explains_inputs [of "[a, a]" "\<lparr>me_name = ''sum'', me_version = ''1''\<rparr>" "0::int" "[]" "[]"
        "\<lambda>x y. Inr (x + y)"] by auto
qed

end
