(* ===== verification/Identity.thy ===== *)
theory Identity
  imports Framing Go_Hash
begin

unbundle bit_operations_syntax

text \<open>
  \<^verbatim>\<open>src/libs/kernel/identity\<close>: entity identifiers (\<^verbatim>\<open>identity.go\<close>), provider claims
  (\<^verbatim>\<open>claim.go\<close>), framed pre-images (\<^verbatim>\<open>preimage.go\<close>) and per-scheme canonicalisation
  (\<^verbatim>\<open>canonical.go\<close>). Struct fields are records; the \<^verbatim>\<open>uint8\<close> enumerations are \<open>8 word\<close>s with
  the source's constants, so values outside the closed set exist here as they do in Go.
  Functions that fold case take the Unicode tables as their first argument.
\<close>

section \<open>Identifiers\<close>

definition ErrEmptySeed :: sentinel where
  "ErrEmptySeed = ''identity: seed is empty''"

definition Identity_ErrUnknownKind :: sentinel where
  "Identity_ErrUnknownKind = ''identity: unknown entity kind''"

type_synonym Kind = u8

definition KindUnspecified :: Kind where "KindUnspecified = 0"
definition KindInstrument :: Kind where "KindInstrument = 1"
definition KindParty :: Kind where "KindParty = 2"
definition KindAccount :: Kind where "KindAccount = 3"
definition KindLedgerStream :: Kind where "KindLedgerStream = 4"

definition Kind_String :: "Kind \<Rightarrow> string" where
  "Kind_String k =
     (if k = KindInstrument then ''instrument''
      else if k = KindParty then ''party''
      else if k = KindAccount then ''account''
      else if k = KindLedgerStream then ''ledger_stream''
      else ''unspecified'')"

definition Kind_Valid :: "Kind \<Rightarrow> bool" where
  "Kind_Valid k \<longleftrightarrow> k \<ge> KindInstrument \<and> k \<le> KindLedgerStream"

record ID =
  id_kind :: Kind
  id_value :: string

definition zeroID :: ID where
  "zeroID = \<lparr>id_kind = KindUnspecified, id_value = []\<rparr>"

definition mustParseUUID :: "string \<Rightarrow> string result" where
  "mustParseUUID s =
     (case DecodeString (filter (\<lambda>c. c \<noteq> CHR ''-'') s) of
        None \<Rightarrow> Inl [Panic]
      | Some raw \<Rightarrow> if length raw \<noteq> 16 then Inl [Panic] else Inr raw)"

definition namespace :: string where
  "namespace =
     (case mustParseUUID ''2b0f57e7-1fb1-4b00-811c-8dd92cc8170b'' of
        Inl _ \<Rightarrow> [] | Inr ns \<Rightarrow> ns)"

definition canonicaliseSeed :: "unicode \<Rightarrow> string \<Rightarrow> string" where
  "canonicaliseSeed uc seed = ToUpper uc (Join (Fields seed) '' '')"

definition stamp_bits :: "nat \<Rightarrow> nat \<Rightarrow> char \<Rightarrow> char" where
  "stamp_bits m b c = char_of ((of_char c AND m) OR b)"

definition uuidV5 :: "string \<Rightarrow> string \<Rightarrow> string" where
  "uuidV5 ns name =
     (let sum = sha1 (ns @ name);
          out = take 16 sum;
          out = out[6 := stamp_bits 0x0F 0x50 (out ! 6)];
          out = out[8 := stamp_bits 0x3F 0x80 (out ! 8)];
          hexed = EncodeToString out
      in take 8 hexed @ ''-'' @ take 4 (drop 8 hexed) @ ''-'' @ take 4 (drop 12 hexed) @ ''-'' @
         take 4 (drop 16 hexed) @ ''-'' @ take 12 (drop 20 hexed))"

definition isCanonicalUUID :: "string \<Rightarrow> bool" where
  "isCanonicalUUID s =
     (let groups = Split s (CHR ''-'')
      in if length groups \<noteq> 5 then False
         else list_all (\<lambda>(g, want). length g = want \<and> list_all is_lower_hex (runes g))
                (zip groups [8, 4, 4, 4, 12]))"

definition Restore :: "Kind \<Rightarrow> string \<Rightarrow> ID result" where
  "Restore kind v =
     (if \<not> Kind_Valid kind then Inl [Identity_ErrUnknownKind]
      else if \<not> isCanonicalUUID v then Inl [ErrEmptySeed]
      else Inr \<lparr>id_kind = kind, id_value = v\<rparr>)"

definition ID_IsZero :: "ID \<Rightarrow> bool" where
  "ID_IsZero i \<longleftrightarrow> id_value i = []"

definition ID_String :: "ID \<Rightarrow> string" where
  "ID_String i = id_value i"

definition ID_Equal :: "ID \<Rightarrow> ID \<Rightarrow> bool" where
  "ID_Equal i other \<longleftrightarrow> id_kind i = id_kind other \<and> id_value i = id_value other"

section \<open>Claims\<close>

definition ErrMalformedClaim :: sentinel where
  "ErrMalformedClaim = ''identity: malformed claim''"

record Claim =
  cl_scheme :: string
  cl_value :: string

definition NewClaim :: "unicode \<Rightarrow> string \<Rightarrow> string \<Rightarrow> Claim result" where
  "NewClaim uc scheme v =
     (if scheme = [] then Inl [ErrMalformedClaim]
      else if scheme \<noteq> ToLower uc scheme \<or> scheme \<noteq> TrimSpace scheme then Inl [ErrMalformedClaim]
      else if v = [] then Inl [ErrMalformedClaim]
      else Inr \<lparr>cl_scheme = scheme, cl_value = v\<rparr>)"

definition MustClaim :: "unicode \<Rightarrow> string \<Rightarrow> string \<Rightarrow> Claim result" where
  "MustClaim uc scheme v =
     (case NewClaim uc scheme v of Inl e \<Rightarrow> Inl [Panic] | Inr c \<Rightarrow> Inr c)"

definition Claim_IsZero :: "Claim \<Rightarrow> bool" where
  "Claim_IsZero c \<longleftrightarrow> cl_scheme c = []"

definition Claim_Equal :: "Claim \<Rightarrow> Claim \<Rightarrow> bool" where
  "Claim_Equal c other \<longleftrightarrow> cl_scheme c = cl_scheme other \<and> cl_value c = cl_value other"

definition Claim_String :: "Claim \<Rightarrow> string" where
  "Claim_String c = cl_scheme c @ '':'' @ cl_value c"

section \<open>Framed pre-images and derivation\<close>

definition tagEntitySeed :: string where
  "tagEntitySeed = ''fdos.identity.entity-seed.v1''"

definition tagClaimSeed :: string where
  "tagClaimSeed = ''fdos.identity.claim-seed.v1''"

definition identity_frame :: "string \<Rightarrow> string list \<Rightarrow> string" where
  "identity_frame t components = Frame t components"

definition Derive :: "unicode \<Rightarrow> Kind \<Rightarrow> string \<Rightarrow> ID result" where
  "Derive uc kind seed =
     (if \<not> Kind_Valid kind then Inl [Identity_ErrUnknownKind]
      else let canonical = canonicaliseSeed uc seed
           in if canonical = [] then Inl [ErrEmptySeed]
              else Inr \<lparr>id_kind = kind,
                        id_value = uuidV5 namespace
                          (identity_frame tagEntitySeed [Kind_String kind, canonical])\<rparr>)"

definition MustDerive :: "unicode \<Rightarrow> Kind \<Rightarrow> string \<Rightarrow> ID result" where
  "MustDerive uc kind seed =
     (case Derive uc kind seed of Inl e \<Rightarrow> Inl [Panic] | Inr i \<Rightarrow> Inr i)"

definition DeriveFromClaim :: "unicode \<Rightarrow> Kind \<Rightarrow> Claim \<Rightarrow> ID result" where
  "DeriveFromClaim uc kind c =
     (if \<not> Kind_Valid kind then Inl [Identity_ErrUnknownKind]
      else if Claim_IsZero c then Inl [ErrEmptySeed]
      else let scheme = canonicaliseSeed uc (cl_scheme c);
               joined = canonicaliseSeed uc (Claim_String c)
           in if scheme = [] \<or> joined = [] then Inl [ErrEmptySeed]
              else Inr \<lparr>id_kind = kind,
                        id_value = uuidV5 namespace
                          (identity_frame tagClaimSeed [Kind_String kind, scheme, joined])\<rparr>)"

section \<open>Canonicalisation rules\<close>

definition ErrMalformedRule :: sentinel where
  "ErrMalformedRule = ''identity: malformed canonicalisation rule''"

definition ErrMalformedRuleset :: sentinel where
  "ErrMalformedRuleset = ''identity: malformed canonicalisation ruleset''"

type_synonym Fold = u8

definition FoldUnspecified :: Fold where "FoldUnspecified = 0"
definition StripWhitespace :: Fold where "StripWhitespace = 1"

definition Fold_String :: "Fold \<Rightarrow> string" where
  "Fold_String f = (if f = StripWhitespace then ''strip_whitespace'' else ''unspecified'')"

definition Fold_Valid :: "Fold \<Rightarrow> bool" where
  "Fold_Valid f \<longleftrightarrow> f = StripWhitespace"

definition Fold_apply :: "Fold \<Rightarrow> string \<Rightarrow> string" where
  "Fold_apply f v =
     (if f = StripWhitespace then strings_Map (\<lambda>r. if IsSpace r then None else Some r) v else v)"

definition altersRune :: "Fold \<Rightarrow> rune \<Rightarrow> bool" where
  "altersRune f r = (if f = StripWhitespace then IsSpace r else True)"

definition canonicalAlphabet :: string where
  "canonicalAlphabet = ''0123456789ABCDEFGHIJKLMNOPQRSTUVWXYZ''"

definition foldIsSafe :: "(rune \<Rightarrow> bool) \<Rightarrow> bool" where
  "foldIsSafe alters \<longleftrightarrow> list_all (\<lambda>r. \<not> alters r) (runes canonicalAlphabet)"

record Rule =
  ru_scheme :: string
  ru_standard :: string
  ru_length :: int
  ru_folds :: "Fold list"

fun check_folds :: "Fold list \<Rightarrow> unit result" where
  "check_folds [] = Inr ()"
| "check_folds (f # fs) =
     (if \<not> Fold_Valid f then Inl [ErrMalformedRule]
      else if \<not> foldIsSafe (altersRune f) then Inl [ErrMalformedRule]
      else check_folds fs)"

definition NewRule :: "unicode \<Rightarrow> string \<Rightarrow> string \<Rightarrow> int \<Rightarrow> Fold list \<Rightarrow> Rule result" where
  "NewRule uc scheme standard len folds =
     (if scheme = [] \<or> scheme \<noteq> ToLower uc scheme \<or> scheme \<noteq> TrimSpace scheme
      then Inl [ErrMalformedRule]
      else if TrimSpace standard = [] then Inl [ErrMalformedRule]
      else if len \<le> 0 then Inl [ErrMalformedRule]
      else if folds = [] then Inl [ErrMalformedRule]
      else bindR (check_folds folds)
             (\<lambda>_. Inr \<lparr>ru_scheme = scheme, ru_standard = standard, ru_length = len,
                       ru_folds = folds\<rparr>))"

definition MustRule :: "unicode \<Rightarrow> string \<Rightarrow> string \<Rightarrow> int \<Rightarrow> Fold list \<Rightarrow> Rule result" where
  "MustRule uc scheme standard len folds =
     (case NewRule uc scheme standard len folds of Inl e \<Rightarrow> Inl [Panic] | Inr r \<Rightarrow> Inr r)"

definition Rule_IsCanonical :: "Rule \<Rightarrow> string \<Rightarrow> bool" where
  "Rule_IsCanonical r v =
     (if int (length (runes v)) \<noteq> ru_length r then False
      else list_all (\<lambda>c. c \<in> set (runes canonicalAlphabet)) (runes v))"

definition Rule_fold :: "Rule \<Rightarrow> string \<Rightarrow> string" where
  "Rule_fold r v = foldl (\<lambda>v f. Fold_apply f v) v (ru_folds r)"

section \<open>Rulesets\<close>

record Ruleset =
  rs_version :: string
  rs_rules :: "Rule list"

fun check_rules :: "Rule list \<Rightarrow> Rule list \<Rightarrow> unit result" where
  "check_rules earlier [] = Inr ()"
| "check_rules earlier (r # rs) =
     (if ru_scheme r = [] then Inl [ErrMalformedRuleset]
      else if list_ex (\<lambda>e. ru_scheme e = ru_scheme r) earlier then Inl [ErrMalformedRuleset]
      else check_rules (earlier @ [r]) rs)"

definition NewRuleset :: "string \<Rightarrow> Rule list \<Rightarrow> Ruleset result" where
  "NewRuleset version rules =
     (if TrimSpace version = [] then Inl [ErrMalformedRuleset]
      else bindR (check_rules [] rules)
             (\<lambda>_. Inr \<lparr>rs_version = version, rs_rules = rules\<rparr>))"

definition Ruleset_IsZero :: "Ruleset \<Rightarrow> bool" where
  "Ruleset_IsZero rs \<longleftrightarrow> rs_version rs = []"

definition RuleFor :: "Ruleset \<Rightarrow> string \<Rightarrow> Rule option" where
  "RuleFor rs scheme = find (\<lambda>r. ru_scheme r = scheme) (rs_rules rs)"

definition Ruleset_Fold :: "Ruleset \<Rightarrow> Claim \<Rightarrow> Claim" where
  "Ruleset_Fold rs c =
     (case RuleFor rs (cl_scheme c) of
        None \<Rightarrow> c
      | Some rule \<Rightarrow>
          (let folded = Rule_fold rule (cl_value c)
           in if folded = [] then c else \<lparr>cl_scheme = cl_scheme c, cl_value = folded\<rparr>))"

definition CanonicalSeed :: "unicode \<Rightarrow> Ruleset \<Rightarrow> Claim \<Rightarrow> string" where
  "CanonicalSeed uc rs c = canonicaliseSeed uc (Claim_String (Ruleset_Fold rs c))"

definition CanonicalPreimage :: "unicode \<Rightarrow> Ruleset \<Rightarrow> Claim \<Rightarrow> string" where
  "CanonicalPreimage uc rs c =
     (let folded = Ruleset_Fold rs c
      in identity_frame tagClaimSeed
           [canonicaliseSeed uc (cl_scheme folded), canonicaliseSeed uc (Claim_String folded)])"

definition canonicalisationVersion :: string where
  "canonicalisationVersion = ''1''"

definition Canonicalisation :: "unicode \<Rightarrow> Ruleset result" where
  "Canonicalisation uc =
     bindR (MustRule uc ''isin'' ''ISO 6166'' 12 [StripWhitespace]) (\<lambda>isin.
     bindR (MustRule uc ''cusip'' ''CUSIP Global Services'' 9 [StripWhitespace]) (\<lambda>cusip.
     bindR (MustRule uc ''sedol'' ''London Stock Exchange'' 7 [StripWhitespace]) (\<lambda>sedol.
     bindR (MustRule uc ''figi'' ''OMG FIGI'' 12 [StripWhitespace]) (\<lambda>figi.
     Inr \<lparr>rs_version = canonicalisationVersion, rs_rules = [isin, cusip, sedol, figi]\<rparr>))))"

declare ErrEmptySeed_def [sentinel_defs] Identity_ErrUnknownKind_def [sentinel_defs]
  ErrMalformedClaim_def [sentinel_defs] ErrMalformedRule_def [sentinel_defs]
  ErrMalformedRuleset_def [sentinel_defs]
declare tagEntitySeed_def [tag_defs] tagClaimSeed_def [tag_defs]
declare KindUnspecified_def [enum_defs] KindInstrument_def [enum_defs] KindParty_def [enum_defs]
  KindAccount_def [enum_defs] KindLedgerStream_def [enum_defs]
  FoldUnspecified_def [enum_defs] StripWhitespace_def [enum_defs]

section \<open>Identifiers are well-formed UUIDs\<close>

lemma dash_not_hex: "CHR ''-'' \<notin> set (EncodeToString s)"
  using EncodeToString_lower [of "CHR ''-''" s] by (auto simp: is_lower_hex_def)

lemma hex_group:
  assumes "set g \<subseteq> set (EncodeToString s)"
  shows "CHR ''-'' \<notin> set g" "list_all is_lower_hex (runes g)"
proof -
  show "CHR ''-'' \<notin> set g" using assms dash_not_hex by blast
  have "ascii g" "list_all is_lower_hex (map of_char g)"
    using assms EncodeToString_lower by (auto simp: ascii_def list_all_iff)
  then show "list_all is_lower_hex (runes g)" by (simp add: runes_ascii)
qed

lemma isCanonicalUUID_groups:
  assumes "CHR ''-'' \<notin> set a" "CHR ''-'' \<notin> set b" "CHR ''-'' \<notin> set c" "CHR ''-'' \<notin> set d"
    "CHR ''-'' \<notin> set e"
  shows "isCanonicalUUID (a @ ''-'' @ b @ ''-'' @ c @ ''-'' @ d @ ''-'' @ e) \<longleftrightarrow>
    length a = 8 \<and> length b = 4 \<and> length c = 4 \<and> length d = 4 \<and> length e = 12 \<and>
    list_all (\<lambda>g. list_all is_lower_hex (runes g)) [a, b, c, d, e]"
  using assms by (auto simp: isCanonicalUUID_def Split_sep Split_no_sep)

lemma uuidV5_canonical: "isCanonicalUUID (uuidV5 ns name)"
proof -
  define out where "out = (take 16 (sha1 (ns @ name)))
    [6 := stamp_bits 0x0F 0x50 (take 16 (sha1 (ns @ name)) ! 6)]"
  define raw where "raw = out[8 := stamp_bits 0x3F 0x80 (out ! 8)]"
  define h where "h = EncodeToString raw"
  have len: "length h = 32" by (simp add: h_def raw_def out_def)
  have sub: "set (take n (drop m h)) \<subseteq> set (EncodeToString raw)" for n m
    unfolding h_def by (meson order_trans set_drop_subset set_take_subset)
  have grp: "CHR ''-'' \<notin> set (take n (drop m h))" "list_all is_lower_hex (runes (take n (drop m h)))" for n m
    using hex_group [OF sub] by blast+
  have last: "CHR ''-'' \<notin> set (drop m h)" "list_all is_lower_hex (runes (drop m h))" for m
    using hex_group [of "drop m h" raw] set_drop_subset [of m h] unfolding h_def by blast+
  have eq: "uuidV5 ns name = take 8 (drop 0 h) @ ''-'' @ take 4 (drop 8 h) @ ''-'' @
      take 4 (drop 12 h) @ ''-'' @ take 4 (drop 16 h) @ ''-'' @ take 12 (drop 20 h)"
    by (simp add: uuidV5_def Let_def h_def raw_def out_def)
  show ?thesis
    unfolding eq by (subst isCanonicalUUID_groups) (simp_all add: grp grp(1) [of _ 0, simplified]
        grp(2) [of _ 0, simplified] last len)
qed

lemma uuidV5_nonempty: "uuidV5 ns name \<noteq> []"
  by (simp add: uuidV5_def Let_def)

lemma Restore_derived:
  "Kind_Valid k \<Longrightarrow> Restore k (uuidV5 ns name) = Inr \<lparr>id_kind = k, id_value = uuidV5 ns name\<rparr>"
  by (simp add: Restore_def uuidV5_canonical)

section \<open>Folds\<close>

lemma Fold_apply_strip:
  "Fold_apply StripWhitespace v = map_runes (\<lambda>r. if IsSpace r then None else Some r) (runes v)"
  by (simp add: Fold_apply_def strings_Map_def)

lemma map_filter_keep: "List.map_filter (\<lambda>x. if P x then None else Some x) xs = filter (\<lambda>x. \<not> P x) xs"
  by (induction xs) auto

lemma runes_strip:
  "runes (Fold_apply StripWhitespace v) = filter (\<lambda>r. \<not> IsSpace r) (runes v)"
  unfolding Fold_apply_strip map_filter_keep [symmetric]
  by (rule runes_map_runes) (auto split: if_splits dest: valid_runes)

lemma map_runes_filter:
  "map_runes (\<lambda>r. if P r then None else Some r) (filter (\<lambda>r. \<not> P r) rs) =
   map_runes (\<lambda>r. if P r then None else Some r) rs"
  by (induction rs) auto

lemma strip_idem:
  "Fold_apply StripWhitespace (Fold_apply StripWhitespace v) = Fold_apply StripWhitespace v"
  by (simp add: Fold_apply_strip runes_strip [unfolded Fold_apply_strip] map_runes_filter)

lemma check_folds_Inr_iff:
  "check_folds fs = Inr u \<longleftrightarrow>
     list_all (\<lambda>f. f = StripWhitespace \<and> foldIsSafe (altersRune f)) fs"
  by (induction fs) (auto simp: Fold_Valid_def)

text \<open>What \<open>NewRule\<close> establishes of every rule it returns.\<close>

definition wf_rule :: "Rule \<Rightarrow> bool" where
  "wf_rule r \<longleftrightarrow>
     ru_scheme r \<noteq> [] \<and> 0 < ru_length r \<and> ru_folds r \<noteq> [] \<and>
     list_all (\<lambda>f. f = StripWhitespace) (ru_folds r)"

lemma NewRule_wf: "NewRule uc s st n fs = Inr r \<Longrightarrow> wf_rule r"
  by (auto simp: NewRule_def wf_rule_def check_folds_Inr_iff list_all_iff split: if_splits)

lemma foldl_strip:
  "list_all (\<lambda>f. f = StripWhitespace) fs \<Longrightarrow> fs \<noteq> [] \<Longrightarrow>
   foldl (\<lambda>v f. Fold_apply f v) v fs = Fold_apply StripWhitespace v"
proof (induction fs arbitrary: v)
  case (Cons f fs)
  then show ?case by (cases fs) (simp_all add: strip_idem)
qed simp

lemma Rule_fold_wf: "wf_rule r \<Longrightarrow> Rule_fold r v = Fold_apply StripWhitespace v"
  by (auto simp: Rule_fold_def wf_rule_def foldl_strip)

lemma canonicalAlphabet_ascii: "ascii canonicalAlphabet"
  by (simp add: canonicalAlphabet_def)

lemma canonicalAlphabet_runes:
  "r \<in> set (runes canonicalAlphabet) \<Longrightarrow> r < 0x80 \<and> \<not> IsSpace r"
  unfolding runes_ascii [OF canonicalAlphabet_ascii]
  by (auto simp: canonicalAlphabet_def IsSpace_def)

lemma foldIsSafe_strip: "foldIsSafe (altersRune StripWhitespace)"
  using canonicalAlphabet_runes by (auto simp: foldIsSafe_def altersRune_def list_all_iff)

lemma strip_canonical:
  assumes "Rule_IsCanonical r v"
  shows "Fold_apply StripWhitespace v = v"
proof -
  have al: "list_all (\<lambda>c. c \<in> set (runes canonicalAlphabet)) (runes v)"
    using assms by (auto simp: Rule_IsCanonical_def split: if_splits)
  then have "list_all (\<lambda>c. c < 0x80) (runes v)"
    using canonicalAlphabet_runes by (auto simp: list_all_iff)
  then have asc: "ascii v" by (rule runes_below_ascii)
  have "\<not> IsSpace (of_char c)" if "c \<in> set v" for c
    using al that canonicalAlphabet_runes by (auto simp: list_all_iff runes_ascii [OF asc])
  then show ?thesis
    unfolding Fold_apply_def using asc by (simp add: strings_Map_fixes)
qed

section \<open>Rulesets\<close>

definition wf_ruleset :: "Ruleset \<Rightarrow> bool" where
  "wf_ruleset rs \<longleftrightarrow>
     list_all wf_rule (rs_rules rs) \<and> distinct (map ru_scheme (rs_rules rs))"

lemma check_rules_Inr_iff:
  "check_rules es rs = Inr u \<longleftrightarrow>
     list_all (\<lambda>r. ru_scheme r \<noteq> []) rs \<and> distinct (map ru_scheme rs) \<and>
     set (map ru_scheme es) \<inter> set (map ru_scheme rs) = {}"
proof (induction es rs rule: check_rules.induct)
  case (2 earlier r rs)
  have "list_ex (\<lambda>e. ru_scheme e = ru_scheme r) earlier \<longleftrightarrow> ru_scheme r \<in> ru_scheme ` set earlier"
    by (metis (mono_tags, lifting) image_iff list_ex_iff)
  with 2 show ?case by auto
qed simp

lemma NewRuleset_Inr_iff:
  "NewRuleset v rules = Inr rs \<longleftrightarrow>
     TrimSpace v \<noteq> [] \<and> list_all (\<lambda>r. ru_scheme r \<noteq> []) rules \<and>
     distinct (map ru_scheme rules) \<and> rs = \<lparr>rs_version = v, rs_rules = rules\<rparr>"
  by (auto simp: NewRuleset_def check_rules_Inr_iff)

lemma RuleFor_Some:
  "RuleFor rs s = Some r \<Longrightarrow> r \<in> set (rs_rules rs) \<and> ru_scheme r = s"
  by (auto simp: RuleFor_def find_Some_iff)

lemma RuleFor_wf: "wf_ruleset rs \<Longrightarrow> RuleFor rs s = Some r \<Longrightarrow> wf_rule r"
  by (auto dest: RuleFor_Some simp: wf_ruleset_def list_all_iff)

lemma RuleFor_unique:
  assumes "distinct (map ru_scheme (rs_rules rs))" "r \<in> set (rs_rules rs)"
  shows "RuleFor rs (ru_scheme r) = Some r"
proof (cases "RuleFor rs (ru_scheme r)")
  case None
  then show ?thesis using assms(2) by (auto simp: RuleFor_def find_None_iff)
next
  case (Some r')
  then have "r' \<in> set (rs_rules rs)" "ru_scheme r' = ru_scheme r" by (auto dest: RuleFor_Some)
  moreover have "inj_on ru_scheme (set (rs_rules rs))" using assms(1) by (simp add: distinct_map)
  ultimately have "r' = r" using assms(2) by (auto dest: inj_onD)
  with Some show ?thesis by simp
qed

lemma Ruleset_Fold_scheme [simp]: "cl_scheme (Ruleset_Fold rs c) = cl_scheme c"
  by (simp add: Ruleset_Fold_def Let_def split: option.split)

lemma Ruleset_Fold_value_nonempty:
  "cl_value c \<noteq> [] \<Longrightarrow> cl_value (Ruleset_Fold rs c) \<noteq> []"
  by (simp add: Ruleset_Fold_def Let_def split: option.split)

lemma Ruleset_Fold_cases:
  assumes "wf_ruleset rs"
  shows "Ruleset_Fold rs c = c \<or>
    Ruleset_Fold rs c = c\<lparr>cl_value := Fold_apply StripWhitespace (cl_value c)\<rparr>"
  using assms RuleFor_wf
  by (cases c) (auto simp: Ruleset_Fold_def Let_def Rule_fold_wf split: option.split)

lemma Ruleset_Fold_idem:
  assumes "wf_ruleset rs"
  shows "Ruleset_Fold rs (Ruleset_Fold rs c) = Ruleset_Fold rs c"
proof (cases "RuleFor rs (cl_scheme c)")
  case None
  then show ?thesis by (simp add: Ruleset_Fold_def)
next
  case (Some r)
  then have "wf_rule r" using assms RuleFor_wf by blast
  then show ?thesis
    using Some by (simp add: Ruleset_Fold_def Let_def Rule_fold_wf strip_idem)
qed

section \<open>The shipped ruleset\<close>

lemma NewRule_shipped:
  assumes "ascii s" "s \<noteq> []" "list_all (\<lambda>c. (0x61::nat) \<le> of_char c \<and> of_char c \<le> (0x7A::nat)) s"
    and "TrimSpace st \<noteq> []" "0 < n"
  shows "NewRule uc s st n [StripWhitespace] =
    Inr \<lparr>ru_scheme = s, ru_standard = st, ru_length = n, ru_folds = [StripWhitespace]\<rparr>"
proof -
  have "ToLower uc s = s"
    unfolding ToLower_def using assms(1,3)
    by (intro strings_Map_fixes) (auto simp: unicode_ToLower_def list_all_iff)
  moreover have "TrimSpace s = s"
    using assms(1,3) by (intro TrimSpace_no_space) (auto simp: tokens_ascii list_all_iff IsSpace_def)
  ultimately show ?thesis
    using assms by (simp add: NewRule_def check_folds_Inr_iff Fold_Valid_def foldIsSafe_strip)
qed

definition shipped_ruleset :: Ruleset where
  "shipped_ruleset = \<lparr>rs_version = ''1'', rs_rules =
     [\<lparr>ru_scheme = ''isin'', ru_standard = ''ISO 6166'', ru_length = 12, ru_folds = [StripWhitespace]\<rparr>,
      \<lparr>ru_scheme = ''cusip'', ru_standard = ''CUSIP Global Services'', ru_length = 9, ru_folds = [StripWhitespace]\<rparr>,
      \<lparr>ru_scheme = ''sedol'', ru_standard = ''London Stock Exchange'', ru_length = 7, ru_folds = [StripWhitespace]\<rparr>,
      \<lparr>ru_scheme = ''figi'', ru_standard = ''OMG FIGI'', ru_length = 12, ru_folds = [StripWhitespace]\<rparr>]\<rparr>"

lemma Canonicalisation_shipped: "Canonicalisation uc = Inr shipped_ruleset"
  unfolding Canonicalisation_def MustRule_def
  by (subst NewRule_shipped, simp_all add: TrimSpace_def tokens_ascii IsSpace_def shipped_ruleset_def canonicalisationVersion_def)+

lemma wf_shipped: "wf_ruleset shipped_ruleset"
  by (simp add: wf_ruleset_def shipped_ruleset_def wf_rule_def)

lemma NewRuleset_shipped:
  "NewRuleset (rs_version shipped_ruleset) (rs_rules shipped_ruleset) = Inr shipped_ruleset"
  by (simp add: NewRuleset_Inr_iff) (simp add: shipped_ruleset_def TrimSpace_def tokens_ascii IsSpace_def)

section \<open>Seeds, pre-images and derived identifiers\<close>

lemma canonicaliseSeed_Nil_iff: "canonicaliseSeed uc s = [] \<longleftrightarrow> Fields s = []"
  by (simp add: canonicaliseSeed_def Join_eq_Nil_iff Fields_nonempty_words)

lemma joined_nonempty: "canonicaliseSeed uc (Claim_String c) \<noteq> []"
  using Fields_ascii_byte [of "CHR '':''" "Claim_String c"]
  by (simp add: canonicaliseSeed_Nil_iff Claim_String_def IsSpace_def)

lemma NewClaim_Inr_iff:
  "NewClaim uc s v = Inr c \<longleftrightarrow>
     s \<noteq> [] \<and> s = ToLower uc s \<and> s = TrimSpace s \<and> v \<noteq> [] \<and>
     c = \<lparr>cl_scheme = s, cl_value = v\<rparr>"
  by (auto simp: NewClaim_def)

text \<open>What \<open>NewClaim\<close> establishes: the claims the wire and the use cases work on.\<close>

definition wf_claim :: "unicode \<Rightarrow> Claim \<Rightarrow> bool" where
  "wf_claim uc c \<longleftrightarrow> NewClaim uc (cl_scheme c) (cl_value c) = Inr c"

lemma NewClaim_wf: "NewClaim uc s v = Inr c \<Longrightarrow> wf_claim uc c"
  by (auto simp: wf_claim_def NewClaim_Inr_iff)

lemma wf_claim_scheme: "wf_claim uc c \<Longrightarrow> canonicaliseSeed uc (cl_scheme c) \<noteq> []"
  using TrimSpace_Nil_if by (fastforce simp: wf_claim_def NewClaim_Inr_iff canonicaliseSeed_Nil_iff)

lemma wf_claim_Fold: "wf_claim uc c \<Longrightarrow> wf_claim uc (Ruleset_Fold rs c)"
  using Ruleset_Fold_value_nonempty [of c rs] by (simp add: wf_claim_def NewClaim_Inr_iff)

lemma DeriveFromClaim_Inr_iff:
  "DeriveFromClaim uc k c = Inr i \<longleftrightarrow>
     Kind_Valid k \<and> cl_scheme c \<noteq> [] \<and> canonicaliseSeed uc (cl_scheme c) \<noteq> [] \<and>
     canonicaliseSeed uc (Claim_String c) \<noteq> [] \<and>
     i = \<lparr>id_kind = k, id_value = uuidV5 namespace (Frame tagClaimSeed
       [Kind_String k, canonicaliseSeed uc (cl_scheme c), canonicaliseSeed uc (Claim_String c)])\<rparr>"
  by (auto simp: DeriveFromClaim_def Claim_IsZero_def Let_def identity_frame_def)

lemma Derive_Inr_iff:
  "Derive uc k s = Inr i \<longleftrightarrow>
     Kind_Valid k \<and> canonicaliseSeed uc s \<noteq> [] \<and>
     i = \<lparr>id_kind = k, id_value = uuidV5 namespace (Frame tagEntitySeed
       [Kind_String k, canonicaliseSeed uc s])\<rparr>"
  by (auto simp: Derive_def Let_def identity_frame_def)

lemma DeriveFromClaim_wf:
  "wf_claim uc c \<Longrightarrow> Kind_Valid k \<Longrightarrow> \<exists>i. DeriveFromClaim uc k c = Inr i"
  using wf_claim_scheme [of uc c] joined_nonempty [of uc c]
  by (auto simp: DeriveFromClaim_Inr_iff wf_claim_def NewClaim_Inr_iff)

text \<open>
  The bytes \<open>DeriveFromClaim\<close> hashes for a folded claim, and the bytes resolution compares,
  carry the same information.
\<close>

definition claim_preimage :: "unicode \<Rightarrow> Kind \<Rightarrow> Claim \<Rightarrow> string" where
  "claim_preimage uc k c = Frame tagClaimSeed
     [Kind_String k, canonicaliseSeed uc (cl_scheme c), canonicaliseSeed uc (Claim_String c)]"

definition seed_fits :: "unicode \<Rightarrow> Claim \<Rightarrow> bool" where
  "seed_fits uc c \<longleftrightarrow>
     fits (canonicaliseSeed uc (cl_scheme c)) \<and> fits (canonicaliseSeed uc (Claim_String c))"

lemma fits_small: "length s < 1000 \<Longrightarrow> fits s"
  by (simp add: fits_def)

lemma fits_tags [simp]: "fits tagClaimSeed" "fits tagEntitySeed" "fits (Kind_String k)"
  by (simp_all add: fits_small tag_defs Kind_String_def)

lemma CanonicalPreimage_eq_iff:
  assumes "seed_fits uc (Ruleset_Fold rs a)" "seed_fits uc (Ruleset_Fold rs b)"
  shows "CanonicalPreimage uc rs a = CanonicalPreimage uc rs b \<longleftrightarrow>
    canonicaliseSeed uc (cl_scheme a) = canonicaliseSeed uc (cl_scheme b) \<and>
    CanonicalSeed uc rs a = CanonicalSeed uc rs b"
  using assms
  by (auto simp: CanonicalPreimage_def CanonicalSeed_def Let_def identity_frame_def
      seed_fits_def framing.frame_eq_iff)

lemma claim_preimage_eq_iff:
  assumes "seed_fits uc a" "seed_fits uc b"
  shows "claim_preimage uc k a = claim_preimage uc k' b \<longleftrightarrow> Kind_String k = Kind_String k' \<and>
    canonicaliseSeed uc (cl_scheme a) = canonicaliseSeed uc (cl_scheme b) \<and>
    canonicaliseSeed uc (Claim_String a) = canonicaliseSeed uc (Claim_String b)"
  using assms by (auto simp: claim_preimage_def seed_fits_def framing.frame_eq_iff)

lemma DeriveFromClaim_preimage:
  assumes "DeriveFromClaim uc k c = Inr i"
  shows "i = \<lparr>id_kind = k, id_value = uuidV5 namespace (claim_preimage uc k c)\<rparr>"
  using assms by (simp add: DeriveFromClaim_Inr_iff claim_preimage_def)

lemma Kind_String_inj: "Kind_Valid k \<Longrightarrow> Kind_Valid k' \<Longrightarrow> Kind_String k = Kind_String k' \<longleftrightarrow> k = k'"
proof -
  have "k = 1 \<or> k = 2 \<or> k = 3 \<or> k = 4" if "Kind_Valid k" for k
    using that unfolding Kind_Valid_def enum_defs word_le_nat_alt
    by (auto simp: word_unat_eq_iff)
  then show "Kind_Valid k \<Longrightarrow> Kind_Valid k' \<Longrightarrow> ?thesis"
    by (auto simp: Kind_String_def enum_defs)
qed

text \<open>A ruleset answers with one rule per scheme, whatever order the rules were given in.\<close>

lemma RuleFor_order:
  assumes "mset (rs_rules a) = mset (rs_rules b)" "wf_ruleset a"
  shows "RuleFor a s = RuleFor b s"
proof (cases "RuleFor a s")
  case None
  with mset_eq_setD [OF assms(1)] have "RuleFor b s = None" by (simp add: RuleFor_def find_None_iff)
  with None show ?thesis by simp
next
  case (Some r)
  moreover have "distinct (map ru_scheme (rs_rules b))"
    using assms mset_eq_imp_distinct_iff [of "map ru_scheme (rs_rules a)" "map ru_scheme (rs_rules b)"]
    by (simp add: wf_ruleset_def)
  ultimately show ?thesis
    using RuleFor_Some [OF Some] RuleFor_unique [of b r] mset_eq_setD [OF assms(1)] by simp
qed

text \<open>Rules that evaluate claims, rules and rulesets on ASCII literals.\<close>

lemmas claim_eval =
  wf_claim_def NewClaim_def canonicaliseSeed_def seed_fits_def fits_def Claim_String_def
  Ruleset_Fold_def RuleFor_def Rule_fold_def Fold_apply_def shipped_ruleset_def
  Kind_Valid_def enum_defs NewRule_def Rule_IsCanonical_def canonicalAlphabet_def
  check_folds.simps Fold_Valid_def

section \<open>Properties\<close>

text \<open>C21: minting and resolving agree. For two well-formed claims and any kind,
  \<open>DeriveFromClaim\<close> on the folded claims succeeds, and the bytes it hashes for the two are the
  same exactly when the pre-images that resolution compares are the same. \<open>seed_fits\<close> says the
  canonical seeds are shorter than \<open>2^63\<close> bytes, which every Go string is.\<close>

theorem mint_resolve_agree:
  assumes "wf_claim uc a" "wf_claim uc b" "Kind_Valid k"
    and "seed_fits uc (Ruleset_Fold rs a)" "seed_fits uc (Ruleset_Fold rs b)"
  shows "\<exists>p q. DeriveFromClaim uc k (Ruleset_Fold rs a) = Inr \<lparr>id_kind = k, id_value = uuidV5 namespace p\<rparr> \<and>
    DeriveFromClaim uc k (Ruleset_Fold rs b) = Inr \<lparr>id_kind = k, id_value = uuidV5 namespace q\<rparr> \<and>
    (p = q \<longleftrightarrow> CanonicalPreimage uc rs a = CanonicalPreimage uc rs b)"
proof -
  let ?p = "\<lambda>c. claim_preimage uc k (Ruleset_Fold rs c)"
  have "DeriveFromClaim uc k (Ruleset_Fold rs c) = Inr \<lparr>id_kind = k, id_value = uuidV5 namespace (?p c)\<rparr>"
    if "wf_claim uc c" for c
    using DeriveFromClaim_wf [OF wf_claim_Fold [OF that, of rs] assms(3)] DeriveFromClaim_preimage by auto
  moreover have "?p a = ?p b \<longleftrightarrow> CanonicalPreimage uc rs a = CanonicalPreimage uc rs b"
    using assms(4,5) by (simp add: claim_preimage_eq_iff CanonicalPreimage_eq_iff CanonicalSeed_def)
  ultimately show ?thesis using assms(1,2) by blast
qed


theorem mint_resolve_agree_witness:
  "\<exists>p q. DeriveFromClaim unicode_ascii KindInstrument
        (Ruleset_Fold shipped_ruleset \<lparr>cl_scheme = ''isin'', cl_value = ''br petr''\<rparr>) =
      Inr \<lparr>id_kind = KindInstrument, id_value = uuidV5 namespace p\<rparr> \<and>
    DeriveFromClaim unicode_ascii KindInstrument
        (Ruleset_Fold shipped_ruleset \<lparr>cl_scheme = ''isin'', cl_value = ''BRPETR''\<rparr>) =
      Inr \<lparr>id_kind = KindInstrument, id_value = uuidV5 namespace q\<rparr> \<and>
    (p = q \<longleftrightarrow>
      CanonicalPreimage unicode_ascii shipped_ruleset \<lparr>cl_scheme = ''isin'', cl_value = ''br petr''\<rparr> =
      CanonicalPreimage unicode_ascii shipped_ruleset \<lparr>cl_scheme = ''isin'', cl_value = ''BRPETR''\<rparr>)"
proof (rule mint_resolve_agree)
  show "wf_claim unicode_ascii \<lparr>cl_scheme = ''isin'', cl_value = ''br petr''\<rparr>" by (simp add: claim_eval ascii_eval)
  show "wf_claim unicode_ascii \<lparr>cl_scheme = ''isin'', cl_value = ''BRPETR''\<rparr>" by (simp add: claim_eval ascii_eval)
  show "Kind_Valid KindInstrument" by (simp add: claim_eval ascii_eval)
  show "seed_fits unicode_ascii
    (Ruleset_Fold shipped_ruleset \<lparr>cl_scheme = ''isin'', cl_value = ''br petr''\<rparr>)" by (simp add: claim_eval ascii_eval)
  show "seed_fits unicode_ascii
    (Ruleset_Fold shipped_ruleset \<lparr>cl_scheme = ''isin'', cl_value = ''BRPETR''\<rparr>)" by (simp add: claim_eval ascii_eval)
qed

text \<open>No rule that \<open>NewRule\<close> accepts alters a value that is canonical under it: folding
  only ever moves a non-canonical spelling, never a well-formed identifier.\<close>

theorem rule_fixes_canonical:
  assumes "NewRule uc scheme standard len folds = Inr r" "Rule_IsCanonical r v"
  shows "Rule_fold r v = v"
  using Rule_fold_wf [OF NewRule_wf [OF assms(1)]] strip_canonical [OF assms(2)] by simp

theorem rule_fixes_canonical_witness:
  "Rule_fold \<lparr>ru_scheme = ''sedol'', ru_standard = ''LSE'', ru_length = 7, ru_folds = [StripWhitespace]\<rparr>
     ''B0YBKJ7'' = ''B0YBKJ7''"
proof (rule rule_fixes_canonical [of unicode_ascii "''sedol''" "''LSE''" 7 "[StripWhitespace]"])
  show "NewRule unicode_ascii ''sedol'' ''LSE'' 7 [StripWhitespace] =
    Inr \<lparr>ru_scheme = ''sedol'', ru_standard = ''LSE'', ru_length = 7, ru_folds = [StripWhitespace]\<rparr>"
    by (rule NewRule_shipped) (simp_all add: ascii_eval)
  show "Rule_IsCanonical
    \<lparr>ru_scheme = ''sedol'', ru_standard = ''LSE'', ru_length = 7, ru_folds = [StripWhitespace]\<rparr>
    ''B0YBKJ7''" by (simp add: claim_eval ascii_eval)
qed

text \<open>Folding a claim is idempotent and keeps well-formedness for every ruleset whose rules
  came from \<open>NewRule\<close>: a claim recorded folded resolves exactly as the claim it came from.\<close>

theorem fold_idempotent:
  assumes "wf_ruleset rs" "wf_claim uc c"
  shows "Ruleset_Fold rs (Ruleset_Fold rs c) = Ruleset_Fold rs c \<and>
    wf_claim uc (Ruleset_Fold rs c) \<and>
    CanonicalPreimage uc rs (Ruleset_Fold rs c) = CanonicalPreimage uc rs c"
  using assms by (simp add: Ruleset_Fold_idem wf_claim_Fold CanonicalPreimage_def)

theorem fold_idempotent_witness:
  "Ruleset_Fold shipped_ruleset (Ruleset_Fold shipped_ruleset
     \<lparr>cl_scheme = ''isin'', cl_value = ''br petr''\<rparr>) = \<lparr>cl_scheme = ''isin'', cl_value = ''brpetr''\<rparr>"
proof -
  have "wf_claim unicode_ascii \<lparr>cl_scheme = ''isin'', cl_value = ''br petr''\<rparr>" by (simp add: claim_eval ascii_eval)
  moreover have "Ruleset_Fold shipped_ruleset \<lparr>cl_scheme = ''isin'', cl_value = ''br petr''\<rparr> =
    \<lparr>cl_scheme = ''isin'', cl_value = ''brpetr''\<rparr>" by (simp add: claim_eval ascii_eval)
  ultimately show ?thesis
    using fold_idempotent [OF wf_shipped,
        of unicode_ascii "\<lparr>cl_scheme = ''isin'', cl_value = ''br petr''\<rparr>"] by simp
qed

text \<open>Every identifier that \<open>Derive\<close> or \<open>DeriveFromClaim\<close> returns is a canonical UUID and
  survives a store and reload: \<open>Restore\<close> of its kind and value is the identifier itself.\<close>

theorem derived_id_restores:
  assumes "Derive uc k seed = Inr i \<or> DeriveFromClaim uc k c = Inr i"
  shows "id_kind i = k \<and> isCanonicalUUID (id_value i) \<and> Restore (id_kind i) (id_value i) = Inr i"
  using assms by (auto simp: Derive_Inr_iff DeriveFromClaim_Inr_iff uuidV5_canonical Restore_derived)

theorem derived_id_restores_witness:
  "\<exists>i. DeriveFromClaim unicode_ascii KindAccount \<lparr>cl_scheme = ''iban'', cl_value = ''x''\<rparr> = Inr i \<and>
     Restore (id_kind i) (id_value i) = Inr i"
proof -
  have "wf_claim unicode_ascii \<lparr>cl_scheme = ''iban'', cl_value = ''x''\<rparr>" "Kind_Valid KindAccount"
    by (simp_all add: claim_eval ascii_eval)
  then obtain i where
    "DeriveFromClaim unicode_ascii KindAccount \<lparr>cl_scheme = ''iban'', cl_value = ''x''\<rparr> = Inr i"
    using DeriveFromClaim_wf by blast
  then show ?thesis using derived_id_restores by blast
qed

text \<open>The shipped ruleset is built without a panic under every Unicode table, is one
  \<open>NewRuleset\<close> would accept, and every rule of it is well-formed.\<close>

theorem shipped_ruleset_valid:
  "\<exists>rs. Canonicalisation uc = Inr rs \<and> NewRuleset (rs_version rs) (rs_rules rs) = Inr rs \<and>
     wf_ruleset rs \<and> map ru_scheme (rs_rules rs) = [''isin'', ''cusip'', ''sedol'', ''figi'']"
  using Canonicalisation_shipped NewRuleset_shipped wf_shipped
  by (simp add: shipped_ruleset_def)

text \<open>Which rule applies to a scheme, and so the pre-image a claim resolves under, does not
  depend on the order in which \<open>NewRuleset\<close> was given the rules.\<close>

theorem ruleset_order_irrelevant:
  assumes "mset rules = mset rules'" "list_all wf_rule rules"
    and "NewRuleset v rules = Inr a" "NewRuleset w rules' = Inr b"
  shows "Ruleset_Fold a c = Ruleset_Fold b c \<and> CanonicalPreimage uc a c = CanonicalPreimage uc b c"
proof -
  have "RuleFor a s = RuleFor b s" for s
    using assms by (intro RuleFor_order) (auto simp: NewRuleset_Inr_iff wf_ruleset_def)
  then show ?thesis by (simp add: Ruleset_Fold_def CanonicalPreimage_def)
qed

theorem ruleset_order_irrelevant_witness:
  "Ruleset_Fold shipped_ruleset \<lparr>cl_scheme = ''figi'', cl_value = ''b b''\<rparr> =
   Ruleset_Fold \<lparr>rs_version = ''2'', rs_rules = rev (rs_rules shipped_ruleset)\<rparr>
     \<lparr>cl_scheme = ''figi'', cl_value = ''b b''\<rparr>"
proof -
  have "NewRuleset ''2'' (rev (rs_rules shipped_ruleset)) =
      Inr \<lparr>rs_version = ''2'', rs_rules = rev (rs_rules shipped_ruleset)\<rparr>"
    by (simp add: NewRuleset_Inr_iff ascii_eval shipped_ruleset_def)
  moreover have "list_all wf_rule (rs_rules shipped_ruleset)" using wf_shipped by (simp add: wf_ruleset_def)
  ultimately show ?thesis
    using ruleset_order_irrelevant [OF _ _ NewRuleset_shipped, of "rev (rs_rules shipped_ruleset)"] by simp
qed

end
