(* ===== verification/Money.thy ===== *)
theory Money
  imports Go_Strings Complex_Main
begin

unbundle bit_operations_syntax

text \<open>
  \<^verbatim>\<open>src/libs/kernel/money\<close>: currencies, canonical decimal text and monetary amounts
  (\<^verbatim>\<open>money.go\<close>), quantities (\<^verbatim>\<open>quantity.go\<close>) and rounding contexts (\<^verbatim>\<open>rounding.go\<close>).

  The decimal arithmetic is the third-party package \<^verbatim>\<open>cockroachdb/apd\<close>, which is not part of
  the repository. It is the parameter \<open>'d apd\<close>: the type of decimals is the type variable
  \<open>'d\<close> and the operations the code calls are the fields of the record, passed as the first
  argument of every definition that uses them. What the theorems rely on is stated in the
  predicates \<open>apd_traps\<close>, \<open>apd_exact\<close> and \<open>apd_text\<close>, which say what the package documents:
  a condition in the context's traps is an error, a result without the inexact condition is the
  mathematical one, reading plain decimal text is decided by its sign, its coefficient and its number
  of fractional digits, and the text form prints those three back. That printing loses nothing,
  that what is printed is canonical and that it reads back to the same value are lemmas about digit
  strings, not part of the law. \<open>int_apd\<close> and \<open>dec_apd\<close> are concrete instances, used by the
  witnesses.
\<close>

section \<open>The apd package as a parameter\<close>

datatype apd_condition =
  Inexact | Rounded | InvalidOperation | DivisionByZero | Overflow | Underflow | OtherCondition

record apd_Context =
  cx_Precision :: u32
  cx_Rounding :: string
  cx_Traps :: "apd_condition set"

type_synonym 'd apd_outcome = "'d \<times> apd_condition set \<times> go_error option"

record 'd apd =
  apd_ZeroValue :: 'd
  apd_NewFromString :: "string \<Rightarrow> 'd result"
  apd_Text :: "'d \<Rightarrow> string"
  apd_IsZero :: "'d \<Rightarrow> bool"
  apd_Neg :: "'d \<Rightarrow> 'd"
  apd_Cmp :: "'d \<Rightarrow> 'd \<Rightarrow> int"
  apd_BaseContext :: apd_Context
  apd_Add :: "apd_Context \<Rightarrow> 'd \<Rightarrow> 'd \<Rightarrow> 'd apd_outcome"
  apd_Sub :: "apd_Context \<Rightarrow> 'd \<Rightarrow> 'd \<Rightarrow> 'd apd_outcome"
  apd_Mul :: "apd_Context \<Rightarrow> 'd \<Rightarrow> 'd \<Rightarrow> 'd apd_outcome"
  apd_Quo :: "apd_Context \<Rightarrow> 'd \<Rightarrow> 'd \<Rightarrow> 'd apd_outcome"
  apd_Quantize :: "apd_Context \<Rightarrow> 'd \<Rightarrow> i32 \<Rightarrow> 'd apd_outcome"

section \<open>Currencies and canonical decimal text\<close>

definition ErrCurrencyMismatch :: sentinel where
  "ErrCurrencyMismatch = ''money: currency mismatch''"
definition ErrInvalidCurrency :: sentinel where
  "ErrInvalidCurrency = ''money: invalid currency code''"
definition ErrMalformed :: sentinel where
  "ErrMalformed = ''money: malformed decimal''"
definition ErrDivideByZero :: sentinel where
  "ErrDivideByZero = ''money: division by zero''"
definition ErrInexact :: sentinel where
  "ErrInexact = ''money: inexact result requires a rounding context''"
definition ErrNoScale :: sentinel where
  "ErrNoScale = ''money: rounding context fixes no scale''"

declare ErrCurrencyMismatch_def [sentinel_defs] ErrInvalidCurrency_def [sentinel_defs]
  ErrMalformed_def [sentinel_defs] ErrDivideByZero_def [sentinel_defs]
  ErrInexact_def [sentinel_defs] ErrNoScale_def [sentinel_defs]

type_synonym Currency = string
type_synonym Unit = string

definition ParseCurrency :: "string \<Rightarrow> Currency result" where
  "ParseCurrency code =
     (if length code \<noteq> 3 then Inl [ErrInvalidCurrency]
      else if list_ex (\<lambda>r. r < 0x41 \<or> r > 0x5A) (runes code) then Inl [ErrInvalidCurrency]
      else Inr code)"

definition validateCanonical :: "string \<Rightarrow> unit result" where
  "validateCanonical s =
     (if s = [] then Inl [ErrMalformed]
      else if ContainsAny s (''eE+ '' @ [CHR 0x09]) then Inl [ErrMalformed]
      else let body = TrimPrefix s ''-''
           in if body = [] then Inl [ErrMalformed]
              else if length (filter (\<lambda>c. c = CHR ''.'') body) > 1 then Inl [ErrMalformed]
              else if list_ex (\<lambda>r. r \<noteq> 0x2E \<and> (r < 0x30 \<or> r > 0x39)) (runes body)
                then Inl [ErrMalformed]
              else if HasSuffix body ''.'' \<or> HasPrefix body ''.'' then Inl [ErrMalformed]
              else Inr ())"

section \<open>Money and quantities\<close>

record 'd Money =
  m_amount :: 'd
  m_currency :: Currency

record 'd Quantity =
  q_amount :: 'd
  q_unit :: Unit

definition Money_Parse :: "'d apd \<Rightarrow> string \<Rightarrow> string \<Rightarrow> 'd Money result" where
  "Money_Parse A amount currency =
     bindR (ParseCurrency currency) (\<lambda>cur.
     bindR (validateCanonical amount) (\<lambda>_.
       case apd_NewFromString A amount of
         Inl e \<Rightarrow> Inl [ErrMalformed]
       | Inr d \<Rightarrow> Inr \<lparr>m_amount = d, m_currency = cur\<rparr>))"

definition Money_MustParse :: "'d apd \<Rightarrow> string \<Rightarrow> string \<Rightarrow> 'd Money result" where
  "Money_MustParse A amount currency =
     (case Money_Parse A amount currency of Inl e \<Rightarrow> Inl [Panic] | Inr m \<Rightarrow> Inr m)"

definition Money_Zero :: "'d apd \<Rightarrow> Currency \<Rightarrow> 'd Money" where
  "Money_Zero A currency = \<lparr>m_amount = apd_ZeroValue A, m_currency = currency\<rparr>"

definition Money_String :: "'d apd \<Rightarrow> 'd Money \<Rightarrow> string" where
  "Money_String A m = apd_Text A (m_amount m)"

definition Money_IsZero :: "'d apd \<Rightarrow> 'd Money \<Rightarrow> bool" where
  "Money_IsZero A m = apd_IsZero A (m_amount m)"

definition maxPrecision :: u32 where
  "maxPrecision = 96"

definition exactContext :: "'d apd \<Rightarrow> apd_Context" where
  "exactContext A = (apd_BaseContext A)\<lparr>cx_Precision := maxPrecision,
     cx_Traps := {InvalidOperation, DivisionByZero, Overflow, Underflow, Inexact, Rounded}\<rparr>"

definition exactly :: "'d apd \<Rightarrow> (apd_Context \<Rightarrow> 'd apd_outcome) \<Rightarrow> 'd result" where
  "exactly A op =
     (case op (exactContext A) of (out, res, err) \<Rightarrow>
        (case err of
           None \<Rightarrow> Inr out
         | Some e \<Rightarrow>
             if Inexact \<in> res \<or> Rounded \<in> res then Inl (wrap ErrInexact e) else Inl e))"

definition assertSameCurrency :: "'d Money \<Rightarrow> 'd Money \<Rightarrow> unit result" where
  "assertSameCurrency m other =
     (if m_currency m \<noteq> m_currency other then Inl [ErrCurrencyMismatch] else Inr ())"

definition Money_Add :: "'d apd \<Rightarrow> 'd Money \<Rightarrow> 'd Money \<Rightarrow> 'd Money result" where
  "Money_Add A m other =
     bindR (assertSameCurrency m other) (\<lambda>_.
     bindR (exactly A (\<lambda>c. apd_Add A c (m_amount m) (m_amount other))) (\<lambda>out.
       Inr \<lparr>m_amount = out, m_currency = m_currency m\<rparr>))"

definition Money_Sub :: "'d apd \<Rightarrow> 'd Money \<Rightarrow> 'd Money \<Rightarrow> 'd Money result" where
  "Money_Sub A m other =
     bindR (assertSameCurrency m other) (\<lambda>_.
     bindR (exactly A (\<lambda>c. apd_Sub A c (m_amount m) (m_amount other))) (\<lambda>out.
       Inr \<lparr>m_amount = out, m_currency = m_currency m\<rparr>))"

definition Money_Neg :: "'d apd \<Rightarrow> 'd Money \<Rightarrow> 'd Money" where
  "Money_Neg A m = \<lparr>m_amount = apd_Neg A (m_amount m), m_currency = m_currency m\<rparr>"

definition Money_Cmp :: "'d apd \<Rightarrow> 'd Money \<Rightarrow> 'd Money \<Rightarrow> int result" where
  "Money_Cmp A m other =
     bindR (assertSameCurrency m other) (\<lambda>_. Inr (apd_Cmp A (m_amount m) (m_amount other)))"

definition Money_Mul :: "'d apd \<Rightarrow> 'd Money \<Rightarrow> 'd Quantity \<Rightarrow> 'd Money result" where
  "Money_Mul A m q =
     bindR (exactly A (\<lambda>c. apd_Mul A c (m_amount m) (q_amount q))) (\<lambda>out.
       Inr \<lparr>m_amount = out, m_currency = m_currency m\<rparr>)"

definition ParseQuantity :: "'d apd \<Rightarrow> string \<Rightarrow> string \<Rightarrow> 'd Quantity result" where
  "ParseQuantity A amount unit =
     (if unit = [] then Inl [ErrMalformed]
      else bindR (validateCanonical amount) (\<lambda>_.
        case apd_NewFromString A amount of
          Inl e \<Rightarrow> Inl [ErrMalformed]
        | Inr d \<Rightarrow> Inr \<lparr>q_amount = d, q_unit = unit\<rparr>))"

definition MustParseQuantity :: "'d apd \<Rightarrow> string \<Rightarrow> string \<Rightarrow> 'd Quantity result" where
  "MustParseQuantity A amount unit =
     (case ParseQuantity A amount unit of Inl e \<Rightarrow> Inl [Panic] | Inr q \<Rightarrow> Inr q)"

definition Quantity_String :: "'d apd \<Rightarrow> 'd Quantity \<Rightarrow> string" where
  "Quantity_String A q = apd_Text A (q_amount q)"

definition Quantity_IsZero :: "'d apd \<Rightarrow> 'd Quantity \<Rightarrow> bool" where
  "Quantity_IsZero A q = apd_IsZero A (q_amount q)"

definition Quantity_Add :: "'d apd \<Rightarrow> 'd Quantity \<Rightarrow> 'd Quantity \<Rightarrow> 'd Quantity result" where
  "Quantity_Add A q other =
     (if q_unit q \<noteq> q_unit other then Inl [ErrCurrencyMismatch]
      else bindR (exactly A (\<lambda>c. apd_Add A c (q_amount q) (q_amount other))) (\<lambda>out.
        Inr \<lparr>q_amount = out, q_unit = q_unit q\<rparr>))"

definition Quantity_Sub :: "'d apd \<Rightarrow> 'd Quantity \<Rightarrow> 'd Quantity \<Rightarrow> 'd Quantity result" where
  "Quantity_Sub A q other =
     (if q_unit q \<noteq> q_unit other then Inl [ErrCurrencyMismatch]
      else bindR (exactly A (\<lambda>c. apd_Sub A c (q_amount q) (q_amount other))) (\<lambda>out.
        Inr \<lparr>q_amount = out, q_unit = q_unit q\<rparr>))"

definition Quantity_Cmp :: "'d apd \<Rightarrow> 'd Quantity \<Rightarrow> 'd Quantity \<Rightarrow> int result" where
  "Quantity_Cmp A q other =
     (if q_unit q \<noteq> q_unit other then Inl [ErrCurrencyMismatch]
      else Inr (apd_Cmp A (q_amount q) (q_amount other)))"

definition zeroQuantity :: "'d apd \<Rightarrow> 'd Quantity" where
  "zeroQuantity A = \<lparr>q_amount = apd_ZeroValue A, q_unit = []\<rparr>"

section \<open>Rounding contexts\<close>

type_synonym RoundingMode = u8

definition RoundingModeUnspecified :: RoundingMode where "RoundingModeUnspecified = 0"
definition RoundingModeHalfEven :: RoundingMode where "RoundingModeHalfEven = 1"
definition RoundingModeHalfUp :: RoundingMode where "RoundingModeHalfUp = 2"
definition RoundingModeDown :: RoundingMode where "RoundingModeDown = 3"
definition RoundingModeUp :: RoundingMode where "RoundingModeUp = 4"
definition RoundingModeCeiling :: RoundingMode where "RoundingModeCeiling = 5"
definition RoundingModeFloor :: RoundingMode where "RoundingModeFloor = 6"

declare RoundingModeUnspecified_def [enum_defs] RoundingModeHalfEven_def [enum_defs]
  RoundingModeHalfUp_def [enum_defs] RoundingModeDown_def [enum_defs]
  RoundingModeUp_def [enum_defs] RoundingModeCeiling_def [enum_defs]
  RoundingModeFloor_def [enum_defs]

definition RoundingMode_String :: "RoundingMode \<Rightarrow> string" where
  "RoundingMode_String r =
     (if r = RoundingModeHalfEven then ''half_even''
      else if r = RoundingModeHalfUp then ''half_up''
      else if r = RoundingModeDown then ''down''
      else if r = RoundingModeUp then ''up''
      else if r = RoundingModeCeiling then ''ceiling''
      else if r = RoundingModeFloor then ''floor''
      else ''unspecified'')"

text \<open>\<^verbatim>\<open>apd.Rounder\<close> is a string type; its constants are the names below.\<close>

definition apdRounder :: "RoundingMode \<Rightarrow> string result" where
  "apdRounder r =
     (if r = RoundingModeHalfEven then Inr ''half_even''
      else if r = RoundingModeHalfUp then Inr ''half_up''
      else if r = RoundingModeDown then Inr ''down''
      else if r = RoundingModeUp then Inr ''up''
      else if r = RoundingModeCeiling then Inr ''ceiling''
      else if r = RoundingModeFloor then Inr ''floor''
      else Inl [ErrInexact])"

record RoundingContext =
  rc_precision :: u32
  rc_mode :: RoundingMode
  rc_scale :: i32
  rc_hasScale :: bool

definition NewRoundingContext :: "u32 \<Rightarrow> RoundingMode \<Rightarrow> RoundingContext result" where
  "NewRoundingContext precision mode =
     (if precision = 0 then Inl [ErrInexact]
      else if precision > maxPrecision then Inl [ErrInexact]
      else bindR (apdRounder mode) (\<lambda>_.
        Inr \<lparr>rc_precision = precision, rc_mode = mode, rc_scale = 0, rc_hasScale = False\<rparr>))"

definition MustRoundingContext :: "u32 \<Rightarrow> RoundingMode \<Rightarrow> RoundingContext result" where
  "MustRoundingContext precision mode =
     (case NewRoundingContext precision mode of Inl e \<Rightarrow> Inl [Panic] | Inr rc \<Rightarrow> Inr rc)"

definition WithScale :: "RoundingContext \<Rightarrow> i32 \<Rightarrow> RoundingContext" where
  "WithScale rc scale = rc\<lparr>rc_scale := scale, rc_hasScale := True\<rparr>"

definition Scale :: "RoundingContext \<Rightarrow> i32 \<times> bool" where
  "Scale rc = (rc_scale rc, rc_hasScale rc)"

definition RoundingContext_String :: "RoundingContext \<Rightarrow> string" where
  "RoundingContext_String rc =
     (if \<not> rc_hasScale rc
      then ''precision='' @ dec_nat (unat (rc_precision rc)) @ '',mode='' @
        RoundingMode_String (rc_mode rc)
      else ''precision='' @ dec_nat (unat (rc_precision rc)) @ '',mode='' @
        RoundingMode_String (rc_mode rc) @ '',scale='' @ dec_int (sint (rc_scale rc)))"

definition apdContext :: "'d apd \<Rightarrow> RoundingContext \<Rightarrow> apd_Context" where
  "apdContext A rc =
     (case apdRounder (rc_mode rc) of
        Inl _ \<Rightarrow> (apd_BaseContext A)\<lparr>cx_Precision := 1, cx_Traps := {InvalidOperation}\<rparr>
      | Inr rounder \<Rightarrow>
          (apd_BaseContext A)\<lparr>cx_Precision := rc_precision rc, cx_Rounding := rounder,
            cx_Traps := {InvalidOperation, DivisionByZero, Overflow, Underflow}\<rparr>)"

definition Money_Div ::
  "'d apd \<Rightarrow> 'd Money \<Rightarrow> 'd Quantity \<Rightarrow> RoundingContext \<Rightarrow> ('d Money \<times> bool) result" where
  "Money_Div A m q rc =
     (if apd_IsZero A (q_amount q) then Inl [ErrDivideByZero]
      else case apd_Quo A (apdContext A rc) (m_amount m) (q_amount q) of (out, res, err) \<Rightarrow>
        (case err of
           Some e \<Rightarrow> Inl e
         | None \<Rightarrow> Inr (\<lparr>m_amount = out, m_currency = m_currency m\<rparr>, Inexact \<in> res)))"

definition Money_Quantize ::
  "'d apd \<Rightarrow> 'd Money \<Rightarrow> RoundingContext \<Rightarrow> ('d Money \<times> bool) result" where
  "Money_Quantize A m rc =
     (case Scale rc of (scale, ok) \<Rightarrow>
        if \<not> ok then Inl [ErrNoScale]
        else case apd_Quantize A (apdContext A rc) (m_amount m) (- scale) of (out, res, err) \<Rightarrow>
          (case err of
             Some e \<Rightarrow> if InvalidOperation \<in> res then Inl [ErrInexact] else Inl e
           | None \<Rightarrow> Inr (\<lparr>m_amount = out, m_currency = m_currency m\<rparr>, Inexact \<in> res)))"

section \<open>What the theorems rely on of apd\<close>

text \<open>An operation that returns no error raised no condition of the context's traps.\<close>

definition traps_respected :: "apd_Context \<Rightarrow> 'd apd_outcome \<Rightarrow> bool" where
  "traps_respected c out \<longleftrightarrow> snd (snd out) = None \<longrightarrow> fst (snd out) \<inter> cx_Traps c = {}"

definition apd_traps :: "'d apd \<Rightarrow> bool" where
  "apd_traps A \<longleftrightarrow> (\<forall>c x y. traps_respected c (apd_Add A c x y) \<and>
     traps_respected c (apd_Sub A c x y) \<and> traps_respected c (apd_Mul A c x y))"

text \<open>A result that is not flagged inexact has the mathematical value.\<close>

definition apd_exact :: "'d apd \<Rightarrow> ('d \<Rightarrow> rat) \<Rightarrow> bool" where
  "apd_exact A val \<longleftrightarrow> (\<forall>c x y.
     (\<forall>z res. apd_Add A c x y = (z, res, None) \<and> Inexact \<notin> res \<longrightarrow> val z = val x + val y) \<and>
     (\<forall>z res. apd_Sub A c x y = (z, res, None) \<and> Inexact \<notin> res \<longrightarrow> val z = val x - val y) \<and>
     (\<forall>z res. apd_Mul A c x y = (z, res, None) \<and> Inexact \<notin> res \<longrightarrow> val z = val x * val y))"

text \<open>Plain decimal text: a sign, the digits before the point, and the point with the digits after it
  when there are any.\<close>

definition is_digit :: "char \<Rightarrow> bool" where
  "is_digit c \<longleftrightarrow> (0x30::nat) \<le> of_char c \<and> of_char c \<le> (0x39::nat)"

definition digits_value :: "string \<Rightarrow> nat" where
  "digits_value s = foldl (\<lambda>n c. 10 * n + (of_char c - 48)) 0 s"

definition decimal_text :: "bool \<Rightarrow> string \<Rightarrow> string \<Rightarrow> string" where
  "decimal_text n i f = (if n then ''-'' else []) @ i @ (if f = [] then [] else ''.'' @ f)"

definition decimal_digits :: "string \<Rightarrow> string \<Rightarrow> bool" where
  "decimal_digits i f \<longleftrightarrow> i \<noteq> [] \<and> list_all is_digit i \<and> list_all is_digit f"

text \<open>The plain notation \<^verbatim>\<open>'f'\<close> of \<^verbatim>\<open>apd\<close>, of a sign, a coefficient and a number of fractional digits:
  the coefficient's digits with a point put in, behind zeros when the coefficient is too short.\<close>

definition plain_text :: "bool \<Rightarrow> nat \<Rightarrow> nat \<Rightarrow> string" where
  "plain_text n c k = (if n then ''-'' else []) @
     (let ds = dec_nat c
      in if k = 0 then ds
         else if length ds \<le> k then ''0.'' @ replicate (k - length ds) (CHR ''0'') @ ds
         else take (length ds - k) ds @ ''.'' @ drop (length ds - k) ds)"

text \<open>\<^verbatim>\<open>NewFromString\<close> reads plain decimal text into its sign, its coefficient and its exponent, or
  refuses the three (an exponent out of range); \<^verbatim>\<open>Text('f')\<close> prints what was read.\<close>

definition apd_text :: "'d apd \<Rightarrow> bool" where
  "apd_text A \<longleftrightarrow> (\<exists>parts.
     (\<forall>n i f. decimal_digits i f \<longrightarrow>
        apd_NewFromString A (decimal_text n i f) = parts n (digits_value (i @ f)) (length f)) \<and>
     (\<forall>n c k d. parts n c k = Inr d \<longrightarrow> apd_Text A d = plain_text n c k))"

text \<open>A quantized result has the exponent that was asked for.\<close>

definition apd_quantizes :: "'d apd \<Rightarrow> ('d \<Rightarrow> int) \<Rightarrow> bool" where
  "apd_quantizes A exponent \<longleftrightarrow>
     (\<forall>c x e z res. apd_Quantize A c x e = (z, res, None) \<longrightarrow> exponent z = sint e)"

section \<open>Concrete instances\<close>

text \<open>Decimals with no fractional digits: the arithmetic at a bounded precision is all there; text with
  a point and a negative zero, which an integer cannot hold, are refused.\<close>

definition int_outcome :: "apd_Context \<Rightarrow> int \<Rightarrow> int apd_outcome" where
  "int_outcome c z =
     (if \<bar>z\<bar> < 10 ^ unat (cx_Precision c) then (z, {}, None)
      else (0, {Inexact, Rounded},
            if cx_Traps c \<inter> {Inexact, Rounded} = {} then None else Some [''inexact, rounded'']))"

definition int_apd :: "int apd" where
  "int_apd = \<lparr>apd_ZeroValue = 0,
     apd_NewFromString = (\<lambda>s.
       if CHR ''.'' \<in> set s then Inl [''parse'']
       else if HasPrefix s ''-'' then
         if digits_value (drop 1 s) = 0 then Inl [''parse''] else Inr (- int (digits_value (drop 1 s)))
       else Inr (int (digits_value s))),
     apd_Text = dec_int, apd_IsZero = (\<lambda>d. d = 0), apd_Neg = (\<lambda>d. - d),
     apd_Cmp = (\<lambda>x y. sgn (x - y)),
     apd_BaseContext = \<lparr>cx_Precision = 0, cx_Rounding = [], cx_Traps = {}\<rparr>,
     apd_Add = (\<lambda>c x y. int_outcome c (x + y)), apd_Sub = (\<lambda>c x y. int_outcome c (x - y)),
     apd_Mul = (\<lambda>c x y. int_outcome c (x * y)), apd_Quo = (\<lambda>c x y. int_outcome c (x div y)),
     apd_Quantize = (\<lambda>c x e.
       if e = 0 then int_outcome c x
       else (0, {InvalidOperation}, Some [''invalid operation'']))\<rparr>"

text \<open>Decimals of any sign and any number of fractional digits, as sign, coefficient and number of
  fractional digits: every text is read and printed; arithmetic, which the text does not need, is
  an invalid operation.\<close>

definition dec_refused :: "(bool \<times> nat \<times> nat) apd_outcome" where
  "dec_refused = ((False, 0, 0), {InvalidOperation}, Some [''invalid operation''])"

definition dec_apd :: "(bool \<times> nat \<times> nat) apd" where
  "dec_apd = \<lparr>apd_ZeroValue = (False, 0, 0),
     apd_NewFromString = (\<lambda>s.
       let b = TrimPrefix s ''-'';
           i = takeWhile (\<lambda>c. c \<noteq> CHR ''.'') b;
           f = drop 1 (dropWhile (\<lambda>c. c \<noteq> CHR ''.'') b)
       in Inr (HasPrefix s ''-'', digits_value (i @ f), length f)),
     apd_Text = (\<lambda>(n, c, k). plain_text n c k), apd_IsZero = (\<lambda>(n, c, k). c = 0),
     apd_Neg = (\<lambda>(n, c, k). (\<not> n, c, k)),
     apd_Cmp = (\<lambda>(n, c, k) (n', c', k').
       sgn ((if n then -1 else 1) * int (c * 10 ^ k') - (if n' then -1 else 1) * int (c' * 10 ^ k))),
     apd_BaseContext = \<lparr>cx_Precision = 0, cx_Rounding = [], cx_Traps = {}\<rparr>,
     apd_Add = (\<lambda>c x y. dec_refused), apd_Sub = (\<lambda>c x y. dec_refused),
     apd_Mul = (\<lambda>c x y. dec_refused), apd_Quo = (\<lambda>c x y. dec_refused),
     apd_Quantize = (\<lambda>c x e. dec_refused)\<rparr>"

lemma int_apd_traps: "apd_traps int_apd"
  by (auto simp: apd_traps_def traps_respected_def int_apd_def int_outcome_def)

lemma int_apd_exact: "apd_exact int_apd of_int"
  by (auto simp: apd_exact_def int_apd_def int_outcome_def split: if_splits)

lemma int_apd_quantizes: "apd_quantizes int_apd (\<lambda>_. 0)"
  by (simp add: apd_quantizes_def int_apd_def)

lemma digits_value_snoc: "digits_value (s @ [c]) = 10 * digits_value s + (of_char c - 48)"
  by (simp add: digits_value_def)

lemma digits_value_dec_nat: "digits_value (dec_nat n) = n"
proof (induction n rule: less_induct)
  case (less n)
  show ?case
  proof (cases "n < 10")
    case True
    then show ?thesis by (simp add: dec_nat_small digits_value_def digit_char_def)
  next
    case False
    moreover have "digits_value (dec_nat (n div 10)) = n div 10" using False by (intro less) simp
    ultimately show ?thesis by (simp add: dec_nat_step digits_value_snoc digit_char_def)
  qed
qed

section \<open>Canonical decimal text\<close>

lemma is_digit_facts:
  "\<not> is_digit (CHR ''.'')" "\<not> is_digit (CHR ''-'')" "\<not> is_digit (CHR ''e'')" "\<not> is_digit (CHR ''E'')"
  "\<not> is_digit (CHR ''+'')" "\<not> is_digit (CHR '' '')" "\<not> is_digit (CHR 0x09)"
  by (simp_all add: is_digit_def)

text \<open>Digits, or digits, a point and digits.\<close>

definition canonical_body :: "string \<Rightarrow> bool" where
  "canonical_body b \<longleftrightarrow>
     b \<noteq> [] \<and> list_all is_digit b \<or>
     (\<exists>i f. b = i @ ''.'' @ f \<and> i \<noteq> [] \<and> f \<noteq> [] \<and> list_all is_digit i \<and> list_all is_digit f)"

lemma HasPrefix_one: "HasPrefix s [c] \<longleftrightarrow> (\<exists>t. s = c # t)"
  by (cases s) auto

lemma of_char_dot: "(of_char c :: nat) = 0x2E \<longleftrightarrow> c = CHR ''.''"
  using of_char_eq_iff [of c "CHR ''.''", where 'a = nat] by simp

lemma runes_digits:
  "\<not> list_ex (\<lambda>r. r \<noteq> 0x2E \<and> (r < 0x30 \<or> r > 0x39)) (runes b) \<longleftrightarrow>
   list_all (\<lambda>c. c = CHR ''.'' \<or> is_digit c) b"
proof
  assume "\<not> list_ex (\<lambda>r. r \<noteq> 0x2E \<and> (r < 0x30 \<or> r > 0x39)) (runes b)"
  then have r: "list_all (\<lambda>r. r = 0x2E \<or> 0x30 \<le> r \<and> r \<le> 0x39) (runes b)"
    by (auto simp: list_ex_iff list_all_iff not_less)
  then have "ascii b" by (intro runes_below_ascii) (auto simp: list_all_iff)
  then show "list_all (\<lambda>c. c = CHR ''.'' \<or> is_digit c) b"
    using r unfolding list_all_iff is_digit_def of_char_dot [symmetric]
    by (simp add: runes_ascii)
next
  assume a: "list_all (\<lambda>c. c = CHR ''.'' \<or> is_digit c) b"
  then have "ascii b"
    unfolding ascii_def by (rule list.pred_mono_strong) (auto simp: is_digit_def)
  moreover have "list_all (\<lambda>c. \<not> (of_char c \<noteq> (0x2E::nat) \<and> (of_char c < (0x30::nat) \<or> of_char c > (0x39::nat)))) b"
    using a by (rule list.pred_mono_strong) (auto simp: is_digit_def)
  ultimately show "\<not> list_ex (\<lambda>r. r \<noteq> 0x2E \<and> (r < 0x30 \<or> r > 0x39)) (runes b)"
    by (simp add: runes_ascii list_ex_iff list_all_iff)
qed

lemma HasSuffix_one: "HasSuffix s [c] \<longleftrightarrow> (\<exists>t. s = t @ [c])"
  by (cases s rule: rev_cases) (auto simp: HasSuffix_def)

lemma all_digits_no_dot: "list_all is_digit s \<Longrightarrow> CHR ''.'' \<notin> set s"
  using is_digit_facts by (auto simp: list_all_iff)

lemma no_dot_digits:
  assumes "CHR ''.'' \<notin> set s" "list_all (\<lambda>c. c = CHR ''.'' \<or> is_digit c) s"
  shows "list_all is_digit s"
  using assms(2) by (rule list.pred_mono_strong) (use assms(1) in auto)

lemma body_iff:
  "b \<noteq> [] \<and> \<not> length (filter (\<lambda>c. c = CHR ''.'') b) > 1 \<and>
   list_all (\<lambda>c. c = CHR ''.'' \<or> is_digit c) b \<and> \<not> HasSuffix b ''.'' \<and> \<not> HasPrefix b ''.'' \<longleftrightarrow>
   canonical_body b" (is "?L \<longleftrightarrow> _")
proof
  assume L: ?L
  show "canonical_body b"
  proof (cases "CHR ''.'' \<in> set b")
    case False
    have "list_all (\<lambda>c. c = CHR ''.'' \<or> is_digit c) b" using L by simp
    with False have "list_all is_digit b" by (rule no_dot_digits)
    then show ?thesis using L by (simp add: canonical_body_def)
  next
    case True
    then obtain i f where b: "b = i @ CHR ''.'' # f" "CHR ''.'' \<notin> set i" by (meson split_list_first)
    have "filter (\<lambda>c. c = CHR ''.'') f = []" using L b by (cases "filter (\<lambda>c. c = CHR ''.'') f") auto
    then have "CHR ''.'' \<notin> set f" by (auto simp: filter_empty_conv)
    moreover have "i \<noteq> []" "f \<noteq> []" using L b by (auto simp: HasPrefix_one HasSuffix_one)
    moreover have "list_all is_digit i" "list_all is_digit f"
      using L b calculation(1) no_dot_digits [of i] no_dot_digits [of f] by simp_all
    ultimately show ?thesis using b by (auto simp: canonical_body_def)
  qed
next
  assume "canonical_body b"
  then consider "b \<noteq> []" "list_all is_digit b"
    | i f where "b = i @ ''.'' @ f" "i \<noteq> []" "f \<noteq> []" "list_all is_digit i" "list_all is_digit f"
    by (auto simp: canonical_body_def)
  then show ?L
  proof cases
    case 1
    then have "CHR ''.'' \<notin> set b" by (intro all_digits_no_dot)
    then have "filter (\<lambda>c. c = CHR ''.'') b = []" by (auto simp: filter_empty_conv)
    with 1 \<open>CHR ''.'' \<notin> set b\<close> show ?thesis
      by (auto simp: HasPrefix_one HasSuffix_one list_all_iff)
  next
    case 2
    then have nd: "CHR ''.'' \<notin> set i" "CHR ''.'' \<notin> set f" by (simp_all add: all_digits_no_dot)
    then have "filter (\<lambda>c. c = CHR ''.'') i = []" "filter (\<lambda>c. c = CHR ''.'') f = []"
      by (auto simp: filter_empty_conv)
    moreover obtain f' c where "f = f' @ [c]" using 2(3) by (cases f rule: rev_cases) auto
    ultimately show ?thesis
      using 2 nd by (cases i) (auto simp: HasPrefix_one HasSuffix_one list_all_iff)
  qed
qed

lemma canonical_body_chars:
  "canonical_body b \<Longrightarrow> c \<in> set b \<Longrightarrow> c = CHR ''.'' \<or> is_digit c"
  by (auto simp: canonical_body_def list_all_iff)

text \<open>\<open>validateCanonical\<close> accepts exactly the documented grammar: an optional leading minus
  sign, digits, and an optional point followed by digits, and nothing else, whatever bytes the
  string holds.\<close>

theorem validateCanonical_grammar:
  "validateCanonical s = Inr () \<longleftrightarrow> canonical_body s \<or> (\<exists>b. s = CHR ''-'' # b \<and> canonical_body b)"
proof -
  have chars: "\<not> ContainsAny b (''eE+ '' @ [CHR 0x09])" if "canonical_body b" for b
    using canonical_body_chars [OF that] is_digit_facts by (force simp: ContainsAny_def list_ex_iff)
  have ne: "canonical_body b \<Longrightarrow> b \<noteq> []" for b by (auto simp: canonical_body_def)
  have minus: "\<not> canonical_body (CHR ''-'' # b)" for b
    using canonical_body_chars [of "CHR ''-'' # b" "CHR ''-''"] is_digit_facts by auto
  have *: "validateCanonical s = Inr () \<longleftrightarrow> s \<noteq> [] \<and> \<not> ContainsAny s (''eE+ '' @ [CHR 0x09]) \<and>
      canonical_body (TrimPrefix s ''-'')"
    unfolding validateCanonical_def Let_def body_iff [symmetric] runes_digits [symmetric] by simp
  show ?thesis
  proof (cases "\<exists>b. s = CHR ''-'' # b")
    case True
    then obtain b where b: "s = CHR ''-'' # b" ..
    have "\<not> ContainsAny s (''eE+ '' @ [CHR 0x09]) \<longleftrightarrow> \<not> ContainsAny b (''eE+ '' @ [CHR 0x09])"
      by (simp add: b ContainsAny_def)
    with chars [of b] show ?thesis unfolding * by (auto simp: b TrimPrefix_def minus)
  next
    case False
    then have "TrimPrefix s ''-'' = s" by (simp add: TrimPrefix_def HasPrefix_one)
    with False chars [of s] ne [of s] show ?thesis unfolding * by auto
  qed
qed

lemma dec_nat_body: "canonical_body (dec_nat n)"
  using dec_nat_digits by (auto simp: canonical_body_def is_digit_def list_all_iff)

lemma canonical_decimal_text:
  "canonical_body s \<or> (\<exists>b. s = CHR ''-'' # b \<and> canonical_body b) \<longleftrightarrow>
     (\<exists>n i f. decimal_digits i f \<and> s = decimal_text n i f)"
proof -
  have "canonical_body b \<longleftrightarrow> (\<exists>i f. decimal_digits i f \<and> b = decimal_text False i f)" for b
    unfolding canonical_body_def decimal_digits_def decimal_text_def
    by (cases "list_all is_digit b \<and> b \<noteq> []") (auto 4 3 intro: exI [of _ "[]"])
  moreover have "decimal_text True i f = CHR ''-'' # decimal_text False i f" for i f
    by (simp add: decimal_text_def)
  ultimately show ?thesis by (metis (full_types))
qed

lemma digit_char_of: "is_digit c \<Longrightarrow> digit_char (of_char c - 48) = c"
  by (simp add: is_digit_def digit_char_def)

lemma of_digit_less: "is_digit c \<Longrightarrow> of_char c - 48 < (10::nat)"
  unfolding is_digit_def by linarith

lemma dec_nat_zero: "dec_nat 0 = ''0''"
  by code_simp

lemma dec_nat_snoc: "0 < x \<Longrightarrow> is_digit c \<Longrightarrow> dec_nat (10 * x + (of_char c - 48)) = dec_nat x @ [c]"
  using of_digit_less [of c] by (subst dec_nat_step) (simp_all add: digit_char_of)

lemma digits_value_append_zero: "digits_value i = 0 \<Longrightarrow> digits_value (i @ f) = digits_value f"
  by (simp add: digits_value_def)

lemma digits_value_cong: "digits_value i = digits_value j \<Longrightarrow> digits_value (i @ f) = digits_value (j @ f)"
  by (simp add: digits_value_def)

lemma digits_value_positive: "0 < digits_value i \<Longrightarrow> 0 < digits_value (i @ f)"
  by (induction f rule: rev_induct) (simp_all add: digits_value_snoc flip: append_assoc)

text \<open>Appending digits to a positive number's digits, and padding a small one with zeros.\<close>

lemma dec_nat_append:
  "0 < digits_value i \<Longrightarrow> list_all is_digit f \<Longrightarrow> dec_nat (digits_value (i @ f)) = dec_nat (digits_value i) @ f"
  by (induction f rule: rev_induct)
     (simp_all add: digits_value_snoc dec_nat_snoc digits_value_positive flip: append_assoc)

lemma dec_nat_pad:
  assumes "f \<noteq> []" "list_all is_digit f"
  shows "length (dec_nat (digits_value f)) \<le> length f \<and>
    replicate (length f - length (dec_nat (digits_value f))) (CHR ''0'') @ dec_nat (digits_value f) = f"
  using assms
proof (induction f rule: rev_nonempty_induct)
  case (single c)
  then show ?case by (simp add: digits_value_def dec_nat_small digit_char_of of_digit_less)
next
  case (snoc c g)
  show ?case
  proof (cases "digits_value g = 0")
    case True
    have "replicate (length g - 1) (CHR ''0'') @ [CHR ''0''] = g"
      using snoc True by (simp add: dec_nat_zero)
    moreover have "replicate (length g - 1) (CHR ''0'') @ [CHR ''0''] = replicate (length g) (CHR ''0'')"
      using snoc.hyps by (simp add: replicate_append_same flip: replicate_Suc)
    ultimately show ?thesis
      using snoc True by (simp add: digits_value_snoc dec_nat_small digit_char_of of_digit_less)
  next
    case False
    with snoc show ?thesis by (simp add: digits_value_snoc dec_nat_snoc)
  qed
qed

text \<open>What is printed is the same sign and the same fractional digits behind the digits before the point
  without superfluous zeros.\<close>

lemma plain_text_digits:
  assumes "decimal_digits i f"
  shows "plain_text n (digits_value (i @ f)) (length f) = decimal_text n (dec_nat (digits_value i)) f"
proof (cases "f = [] \<or> 0 < digits_value i")
  case True
  have "list_all is_digit f" using assms by (simp add: decimal_digits_def)
  with True show ?thesis
    by (auto simp: plain_text_def decimal_text_def dec_nat_append Let_def)
next
  case False
  then have "length (dec_nat (digits_value f)) \<le> length f"
    "replicate (length f - length (dec_nat (digits_value f))) (CHR ''0'') @ dec_nat (digits_value f) = f"
    using assms dec_nat_pad [of f] by (simp_all add: decimal_digits_def)
  with False show ?thesis
    by (simp add: plain_text_def decimal_text_def digits_value_append_zero dec_nat_zero)
qed

lemma dec_nat_decimal_digits: "decimal_digits i f \<Longrightarrow> decimal_digits (dec_nat n) f"
  using dec_nat_digits by (auto simp: decimal_digits_def is_digit_def list_all_iff)

lemma apd_text_printed:
  assumes "apd_text A" "decimal_digits i f" "apd_NewFromString A (decimal_text n i f) = Inr d"
  shows "apd_Text A d = decimal_text n (dec_nat (digits_value i)) f"
    and "apd_NewFromString A (decimal_text n (dec_nat (digits_value i)) f) = Inr d"
proof -
  obtain parts where
    read: "\<And>n i f. decimal_digits i f \<Longrightarrow>
      apd_NewFromString A (decimal_text n i f) = parts n (digits_value (i @ f)) (length f)"
    and print: "\<And>n c k d. parts n c k = Inr d \<Longrightarrow> apd_Text A d = plain_text n c k"
    using assms(1) unfolding apd_text_def by blast
  have d: "parts n (digits_value (i @ f)) (length f) = Inr d" using read [OF assms(2)] assms(3) by simp
  show "apd_Text A d = decimal_text n (dec_nat (digits_value i)) f"
    using print [OF d] plain_text_digits [OF assms(2)] by simp
  show "apd_NewFromString A (decimal_text n (dec_nat (digits_value i)) f) = Inr d"
    using read [OF dec_nat_decimal_digits [OF assms(2)], of n "digits_value i"] d
      digits_value_cong [of "dec_nat (digits_value i)" i f] by (simp add: digits_value_dec_nat)
qed

lemma validateCanonical_text:
  "validateCanonical s = Inr () \<longleftrightarrow> (\<exists>n i f. decimal_digits i f \<and> s = decimal_text n i f)"
  unfolding validateCanonical_grammar canonical_decimal_text ..

lemma validateCanonical_Inl: "validateCanonical s \<noteq> Inr () \<Longrightarrow> validateCanonical s = Inl [ErrMalformed]"
  by (simp add: validateCanonical_def Let_def split: if_splits)

lemma apd_text_reparses:
  assumes "apd_text A" "validateCanonical s = Inr ()" "apd_NewFromString A s = Inr d"
  shows "validateCanonical (apd_Text A d) = Inr ()" "apd_NewFromString A (apd_Text A d) = Inr d"
proof -
  obtain n i f where s: "decimal_digits i f" "s = decimal_text n i f"
    using assms(2) by (auto simp: validateCanonical_text)
  note pr = apd_text_printed [OF assms(1) s(1) assms(3) [unfolded s(2)]]
  show "validateCanonical (apd_Text A d) = Inr ()"
    using dec_nat_decimal_digits [OF s(1)] unfolding validateCanonical_text pr(1) by blast
  show "apd_NewFromString A (apd_Text A d) = Inr d" using pr by simp
qed

lemma decimal_text_parts:
  assumes "decimal_digits i f"
  shows "HasPrefix (decimal_text n i f) ''-'' = n"
    and "TrimPrefix (decimal_text n i f) ''-'' = i @ (if f = [] then [] else ''.'' @ f)"
    and "CHR ''.'' \<in> set (decimal_text n i f) \<longleftrightarrow> f \<noteq> []"
proof -
  have "CHR ''.'' \<notin> set i" "CHR ''.'' \<notin> set f" using assms by (simp_all add: decimal_digits_def all_digits_no_dot)
  moreover obtain c j where "i = c # j" "c \<noteq> CHR ''-''"
    using assms is_digit_facts by (cases i) (auto simp: decimal_digits_def)
  ultimately show "HasPrefix (decimal_text n i f) ''-'' = n"
    "TrimPrefix (decimal_text n i f) ''-'' = i @ (if f = [] then [] else ''.'' @ f)"
    "CHR ''.'' \<in> set (decimal_text n i f) \<longleftrightarrow> f \<noteq> []"
    by (auto simp: decimal_text_def TrimPrefix_def)
qed

lemma int_apd_text: "apd_text int_apd"
  unfolding apd_text_def
proof (intro exI conjI allI impI)
  let ?parts = "\<lambda>n c k. if k \<noteq> 0 \<or> n \<and> c = 0 then Inl [''parse''] else Inr (if n then - int c else int c)"
  fix n i f assume d: "decimal_digits i f"
  have "drop 1 (decimal_text True i f) = i" "decimal_text False i f = i" if "f = []"
    using that by (simp_all add: decimal_text_def)
  then show "apd_NewFromString int_apd (decimal_text n i f) = ?parts n (digits_value (i @ f)) (length f)"
    using decimal_text_parts(1,3) [OF d, of n] by (cases n; cases "f = []") (simp_all add: int_apd_def)
next
  fix n c d and k :: nat
  assume "(if k \<noteq> 0 \<or> n \<and> c = 0 then Inl [''parse''] else Inr (if n then - int c else int c)) = Inr d"
  then show "apd_Text int_apd d = plain_text n c k"
    by (auto simp: int_apd_def plain_text_def dec_int_def split: if_splits)
qed

lemma dec_apd_text: "apd_text dec_apd"
  unfolding apd_text_def
proof (intro exI conjI allI impI)
  fix n i f assume d: "decimal_digits i f"
  have "CHR ''.'' \<notin> set i" using d by (simp add: decimal_digits_def all_digits_no_dot)
  then have "takeWhile (\<lambda>c. c \<noteq> CHR ''.'') i = i" "dropWhile (\<lambda>c. c \<noteq> CHR ''.'') i = []"
    by (auto simp: takeWhile_eq_all_conv dropWhile_eq_Nil_conv)
  then show "apd_NewFromString dec_apd (decimal_text n i f) =
      (\<lambda>n c k. Inr (n, c, k)) n (digits_value (i @ f)) (length f)"
    using d \<open>CHR ''.'' \<notin> set i\<close>
    by (auto simp: dec_apd_def decimal_text_parts [OF d] Let_def takeWhile_append dropWhile_append)
next
  fix n c k d
  assume "(\<lambda>n c k. Inr (n, c, k)) n c k = (Inr d :: (bool \<times> nat \<times> nat) result)"
  then show "apd_Text dec_apd d = plain_text n c k" by (auto simp: dec_apd_def)
qed

section \<open>Parsing and printing\<close>

lemma ParseQuantity_Inr_iff:
  "ParseQuantity A s u = Inr q \<longleftrightarrow>
     u \<noteq> [] \<and> validateCanonical s = Inr () \<and> apd_NewFromString A s = Inr (q_amount q) \<and> q_unit q = u"
  by (cases q) (auto simp: ParseQuantity_def split: sum.splits)

lemma Money_Parse_Inr_iff:
  "Money_Parse A s c = Inr m \<longleftrightarrow>
     ParseCurrency c = Inr (m_currency m) \<and> validateCanonical s = Inr () \<and>
     apd_NewFromString A s = Inr (m_amount m)"
  by (cases m; cases "apd_NewFromString A s") (auto simp: Money_Parse_def)

lemma ParseCurrency_Inr_iff:
  "ParseCurrency s = Inr c \<longleftrightarrow>
     c = s \<and> length s = 3 \<and> list_all (\<lambda>r. 0x41 \<le> r \<and> r \<le> 0x5A) (runes s)"
  by (auto simp: ParseCurrency_def list_ex_iff list_all_iff not_less) (metis not_less)+

text \<open>What \<open>ParseQuantity\<close> establishes: a unit, and text that parses back.\<close>

definition wf_quantity :: "'d apd \<Rightarrow> 'd Quantity \<Rightarrow> bool" where
  "wf_quantity A q \<longleftrightarrow> ParseQuantity A (Quantity_String A q) (q_unit q) = Inr q"

lemma ParseQuantity_wf: "apd_text A \<Longrightarrow> ParseQuantity A s u = Inr q \<Longrightarrow> wf_quantity A q"
  using apd_text_reparses by (auto simp: wf_quantity_def ParseQuantity_Inr_iff Quantity_String_def)

lemma Money_Parse_again:
  "apd_text A \<Longrightarrow> Money_Parse A s c = Inr m \<Longrightarrow> Money_Parse A (Money_String A m) (m_currency m) = Inr m"
  using apd_text_reparses by (auto simp: Money_Parse_Inr_iff ParseCurrency_Inr_iff Money_String_def)

lemma read_is_plain:
  assumes "apd_text A" "validateCanonical s = Inr ()" "apd_NewFromString A s = Inr d"
  shows "\<exists>n i f. decimal_digits i f \<and> s = decimal_text n i f \<and>
    apd_Text A d = decimal_text n (dec_nat (digits_value i)) f"
proof -
  obtain n i f where s: "decimal_digits i f" "s = decimal_text n i f"
    using assms(2) by (auto simp: validateCanonical_text)
  with apd_text_printed(1) [OF assms(1) s(1) assms(3) [unfolded s(2)]] show ?thesis by blast
qed



section \<open>Exact arithmetic\<close>

lemma exactly_Inr:
  assumes "exactly A op = Inr z" "traps_respected (exactContext A) (op (exactContext A))"
  shows "\<exists>res. op (exactContext A) = (z, res, None) \<and> Inexact \<notin> res \<and> Rounded \<notin> res"
  using assms
  by (auto simp: exactly_def traps_respected_def exactContext_def split: prod.splits option.splits if_splits)

lemma exactly_Inl:
  assumes "op (exactContext A) = (z, res, Some e)" "Inexact \<in> res \<or> Rounded \<in> res"
  shows "\<exists>e'. exactly A op = Inl e' \<and> errors_Is e' ErrInexact"
  using assms by (simp add: exactly_def errors_Is_def wrap_def)

lemma Money_Add_Inr_iff:
  "Money_Add A m n = Inr r \<longleftrightarrow> m_currency m = m_currency n \<and> m_currency r = m_currency m \<and>
     exactly A (\<lambda>c. apd_Add A c (m_amount m) (m_amount n)) = Inr (m_amount r)"
  by (cases r) (auto simp: Money_Add_def assertSameCurrency_def)

lemma Money_Sub_Inr_iff:
  "Money_Sub A m n = Inr r \<longleftrightarrow> m_currency m = m_currency n \<and> m_currency r = m_currency m \<and>
     exactly A (\<lambda>c. apd_Sub A c (m_amount m) (m_amount n)) = Inr (m_amount r)"
  by (cases r) (auto simp: Money_Sub_def assertSameCurrency_def)

lemma Money_Mul_Inr_iff:
  "Money_Mul A m q = Inr r \<longleftrightarrow> m_currency r = m_currency m \<and>
     exactly A (\<lambda>c. apd_Mul A c (m_amount m) (q_amount q)) = Inr (m_amount r)"
  by (cases r) (auto simp: Money_Mul_def)

lemma exactly_value:
  assumes "apd_traps A" "apd_exact A val"
  shows "exactly A (\<lambda>c. apd_Add A c x y) = Inr z \<Longrightarrow> val z = val x + val y"
    and "exactly A (\<lambda>c. apd_Sub A c x y) = Inr z \<Longrightarrow> val z = val x - val y"
    and "exactly A (\<lambda>c. apd_Mul A c x y) = Inr z \<Longrightarrow> val z = val x * val y"
proof -
  assume "exactly A (\<lambda>c. apd_Add A c x y) = Inr z"
  then show "val z = val x + val y"
    using assms exactly_Inr [of A "\<lambda>c. apd_Add A c x y" z] unfolding apd_traps_def apd_exact_def by blast
next
  assume "exactly A (\<lambda>c. apd_Sub A c x y) = Inr z"
  then show "val z = val x - val y"
    using assms exactly_Inr [of A "\<lambda>c. apd_Sub A c x y" z] unfolding apd_traps_def apd_exact_def by blast
next
  assume "exactly A (\<lambda>c. apd_Mul A c x y) = Inr z"
  then show "val z = val x * val y"
    using assms exactly_Inr [of A "\<lambda>c. apd_Mul A c x y" z] unfolding apd_traps_def apd_exact_def by blast
qed

text \<open>C39: money arithmetic is exact or refused. When \<open>Add\<close>, \<open>Sub\<close> and \<open>Mul\<close> succeed the
  result has the mathematical value and the currency of the receiver; two currencies never add.\<close>

theorem money_arithmetic_exact:
  assumes "apd_traps A" "apd_exact A val"
  shows "(Money_Add A m n = Inr r \<longrightarrow>
      val (m_amount r) = val (m_amount m) + val (m_amount n) \<and> m_currency r = m_currency m) \<and>
    (Money_Sub A m n = Inr r \<longrightarrow>
      val (m_amount r) = val (m_amount m) - val (m_amount n) \<and> m_currency r = m_currency m) \<and>
    (Money_Mul A m q = Inr r \<longrightarrow>
      val (m_amount r) = val (m_amount m) * val (q_amount q) \<and> m_currency r = m_currency m) \<and>
    (m_currency m \<noteq> m_currency n \<longrightarrow>
      Money_Add A m n = Inl [ErrCurrencyMismatch] \<and> Money_Sub A m n = Inl [ErrCurrencyMismatch] \<and>
      Money_Cmp A m n = Inl [ErrCurrencyMismatch])"
  using exactly_value [OF assms]
  by (auto simp: Money_Add_Inr_iff Money_Sub_Inr_iff Money_Mul_Inr_iff)
     (simp_all add: Money_Add_def Money_Sub_def Money_Cmp_def assertSameCurrency_def)

theorem money_arithmetic_exact_witness:
  "(Money_Add int_apd \<lparr>m_amount = 2, m_currency = ''BRL''\<rparr> \<lparr>m_amount = 3, m_currency = ''BRL''\<rparr> =
     Inr \<lparr>m_amount = 5, m_currency = ''BRL''\<rparr>) \<and>
   of_int (m_amount \<lparr>m_amount = 5, m_currency = ''BRL''\<rparr>) = (of_int 2 + of_int 3 :: rat)"
proof -
  have "Money_Add int_apd \<lparr>m_amount = 2, m_currency = ''BRL''\<rparr> \<lparr>m_amount = 3, m_currency = ''BRL''\<rparr> =
     Inr \<lparr>m_amount = 5, m_currency = ''BRL''\<rparr>"
    by (simp add: Money_Add_def assertSameCurrency_def exactly_def int_apd_def int_outcome_def
        exactContext_def maxPrecision_def)
  then show ?thesis
    using money_arithmetic_exact [OF int_apd_traps int_apd_exact,
        of "\<lparr>m_amount = 2, m_currency = ''BRL''\<rparr>" "\<lparr>m_amount = 3, m_currency = ''BRL''\<rparr>"
           "\<lparr>m_amount = 5, m_currency = ''BRL''\<rparr>"] by simp
qed

section \<open>Rounding contexts\<close>

lemma apdRounder_Inr: "apdRounder m = Inr s \<Longrightarrow> RoundingMode_String m = s"
  unfolding apdRounder_def RoundingMode_String_def enum_defs by (simp split: if_split_asm)

lemma apdRounder_ok_iff: "is_ok (apdRounder m) \<longleftrightarrow> RoundingModeHalfEven \<le> m \<and> m \<le> RoundingModeFloor"
proof -
  have "1 \<le> m \<and> m \<le> 6 \<longleftrightarrow> m = 1 \<or> m = 2 \<or> m = 3 \<or> m = 4 \<or> m = 5 \<or> (m :: 8 word) = 6"
    unfolding word_le_nat_alt by (auto simp: word_unat_eq_iff)
  then show ?thesis by (simp add: apdRounder_def enum_defs)
qed

definition wf_rounding :: "RoundingContext \<Rightarrow> bool" where
  "wf_rounding rc \<longleftrightarrow> 0 < rc_precision rc \<and> rc_precision rc \<le> maxPrecision \<and>
     is_ok (apdRounder (rc_mode rc)) \<and> (\<not> rc_hasScale rc \<longrightarrow> rc_scale rc = 0)"

lemma NewRoundingContext_wf: "NewRoundingContext p m = Inr rc \<Longrightarrow> wf_rounding rc"
  by (auto simp: NewRoundingContext_def wf_rounding_def is_ok_iff word_gt_0 split: if_splits)

lemma WithScale_wf: "wf_rounding rc \<Longrightarrow> wf_rounding (WithScale rc s)"
  by (simp add: wf_rounding_def WithScale_def)

lemma dec_nat_no_sep: "c \<in> {CHR '','', CHR ''-'', CHR ''#'', CHR ''.''} \<Longrightarrow> c \<notin> set (dec_nat n)"
  using dec_nat_digits [of c n] by auto

lemma dec_int_inj: "dec_int a = dec_int b \<longleftrightarrow> a = b"
proof -
  have "dec_nat m \<noteq> CHR ''-'' # dec_nat n" for m n
    using dec_nat_no_sep [of "CHR ''-''" m] by (metis insertI1 insertI2 list.set_intros(1))
  then show ?thesis unfolding dec_int_def by (auto simp: eq_commute [of "CHR ''-'' # _"])
qed

lemma RoundingMode_String_no_comma: "CHR '','' \<notin> set (RoundingMode_String m)"
  by (simp add: RoundingMode_String_def)

lemma RoundingMode_String_inj:
  "is_ok (apdRounder m) \<Longrightarrow> is_ok (apdRounder n) \<Longrightarrow> RoundingMode_String m = RoundingMode_String n \<Longrightarrow> m = n"
  unfolding apdRounder_def RoundingMode_String_def enum_defs by (simp split: if_split_asm)

text \<open>The text of a rounding context, which is what a derivation record's address is
  computed from, tells apart any two contexts the constructors can build: precision, mode, and
  whether and which scale.\<close>

theorem rounding_context_text_injective:
  assumes "wf_rounding a" "wf_rounding b" "RoundingContext_String a = RoundingContext_String b"
  shows "a = b"
proof -
  define tail where "tail rc = (if rc_hasScale rc then '',scale='' @ dec_int (sint (rc_scale rc)) else [])" for rc :: RoundingContext
  have eq: "RoundingContext_String rc = ''precision='' @ dec_nat (unat (rc_precision rc)) @
      CHR '','' # ''mode='' @ RoundingMode_String (rc_mode rc) @ tail rc" for rc
    by (simp add: RoundingContext_String_def tail_def)
  have nc: "CHR '','' \<notin> set (dec_nat n)" for n by (rule dec_nat_no_sep) simp
  have "dec_nat (unat (rc_precision a)) = dec_nat (unat (rc_precision b)) \<and>
      ''mode='' @ RoundingMode_String (rc_mode a) @ tail a = ''mode='' @ RoundingMode_String (rc_mode b) @ tail b"
    using assms(3) unfolding eq by (intro cut_at [OF nc nc]) simp
  then have p: "rc_precision a = rc_precision b" and
    t: "RoundingMode_String (rc_mode a) @ tail a = RoundingMode_String (rc_mode b) @ tail b"
    by (simp_all add: word_unat_eq_iff)
  have "RoundingMode_String (rc_mode a) = RoundingMode_String (rc_mode b) \<and> tail a = tail b"
  proof -
    note no = RoundingMode_String_no_comma [of "rc_mode a"] RoundingMode_String_no_comma [of "rc_mode b"]
    show ?thesis
    proof (cases "rc_hasScale a"; cases "rc_hasScale b")
      assume "rc_hasScale a" "rc_hasScale b"
      then have "RoundingMode_String (rc_mode a) = RoundingMode_String (rc_mode b) \<and>
          ''scale='' @ dec_int (sint (rc_scale a)) = ''scale='' @ dec_int (sint (rc_scale b))"
        using t by (intro cut_at [OF no]) (simp add: tail_def)
      then show ?thesis by (simp add: tail_def \<open>rc_hasScale a\<close> \<open>rc_hasScale b\<close>)
    next
      assume s: "rc_hasScale a" "\<not> rc_hasScale b"
      then have "CHR '','' \<in> set (RoundingMode_String (rc_mode b) @ tail b)"
        unfolding t [symmetric] by (simp add: tail_def)
      then have "CHR '','' \<in> set (RoundingMode_String (rc_mode b))" using s by (simp add: tail_def)
      then show ?thesis using no by blast
    next
      assume s: "\<not> rc_hasScale a" "rc_hasScale b"
      then have "CHR '','' \<in> set (RoundingMode_String (rc_mode a) @ tail a)"
        unfolding t by (simp add: tail_def)
      then have "CHR '','' \<in> set (RoundingMode_String (rc_mode a))" using s by (simp add: tail_def)
      then show ?thesis using no by blast
    qed (use t in \<open>simp add: tail_def\<close>)
  qed
  then have m: "rc_mode a = rc_mode b" and tl: "tail a = tail b"
    using assms RoundingMode_String_inj by (auto simp: wf_rounding_def)
  have "rc_hasScale a = rc_hasScale b \<and> rc_scale a = rc_scale b"
    using tl assms(1,2)
    by (auto simp: tail_def wf_rounding_def dec_int_inj signed_word_eqI split: if_splits)
  with p m show ?thesis by simp
qed

theorem rounding_context_text_injective_witness:
  "RoundingContext_String \<lparr>rc_precision = 9, rc_mode = 1, rc_scale = 0, rc_hasScale = True\<rparr> \<noteq>
   RoundingContext_String \<lparr>rc_precision = 9, rc_mode = 1, rc_scale = 0, rc_hasScale = False\<rparr>"
proof -
  have "wf_rounding \<lparr>rc_precision = 9, rc_mode = 1, rc_scale = 0, rc_hasScale = b\<rparr>" for b
    by (simp add: wf_rounding_def apdRounder_def enum_defs maxPrecision_def)
  then show ?thesis using rounding_context_text_injective by fastforce
qed

lemma sint_neg:
  fixes w :: i32
  assumes "sint w \<noteq> - (2 ^ 31)"
  shows "sint (- w) = - sint w"
proof -
  have "- (2 ^ 31) < sint w" "sint w < 2 ^ 31"
    using sint_ge [of w] sint_lt [of w] assms by simp_all
  then have "sint (word_of_int (- sint w) :: i32) = - sint w"
    by (simp only: sint_sbintrunc') (simp add: signed_take_bit_int_eq_self)
  then show ?thesis by simp
qed

text \<open>Rounding to minor units is never defaulted and never partial. A context without a
  scale is refused with \<open>ErrNoScale\<close>; with a scale other than the smallest \<open>int32\<close> the result
  has exactly that many decimal places and the receiver's currency; an amount that does not fit
  the precision is \<open>ErrInexact\<close>.\<close>

theorem quantize_scale:
  assumes "apd_quantizes A exponent" "NewRoundingContext p mode = Inr rc"
  shows "Money_Quantize A m rc = Inl [ErrNoScale] \<and>
    (\<forall>r inex. Money_Quantize A m (WithScale rc sc) = Inr (r, inex) \<and> sint sc \<noteq> - (2 ^ 31) \<longrightarrow>
       exponent (m_amount r) = - sint sc \<and> m_currency r = m_currency m) \<and>
    (\<forall>z res e. apd_Quantize A (apdContext A (WithScale rc sc)) (m_amount m) (- sc) = (z, res, Some e) \<and>
       InvalidOperation \<in> res \<longrightarrow> Money_Quantize A m (WithScale rc sc) = Inl [ErrInexact])"
proof -
  have "sint (- sc) = - sint sc" if "sint sc \<noteq> - (2 ^ 31)"
    using that by (rule sint_neg)
  moreover have "\<not> rc_hasScale rc" using assms(2) by (auto simp: NewRoundingContext_def split: if_splits)
  ultimately show ?thesis
    using assms(1)
    by (auto simp: Money_Quantize_def Scale_def WithScale_def apd_quantizes_def
        split: prod.splits option.splits if_splits) 
qed

theorem quantize_scale_witness:
  "\<exists>rc. NewRoundingContext 9 RoundingModeHalfEven = Inr rc \<and>
     Money_Quantize int_apd \<lparr>m_amount = 12, m_currency = ''JPY''\<rparr> rc = Inl [ErrNoScale] \<and>
     Money_Quantize int_apd \<lparr>m_amount = 12, m_currency = ''JPY''\<rparr> (WithScale rc 0) =
       Inr (\<lparr>m_amount = 12, m_currency = ''JPY''\<rparr>, False)"
proof -
  let ?rc = "\<lparr>rc_precision = 9, rc_mode = RoundingModeHalfEven, rc_scale = 0, rc_hasScale = False\<rparr>"
  have rc: "NewRoundingContext 9 RoundingModeHalfEven = Inr ?rc"
    by (simp add: NewRoundingContext_def apdRounder_def maxPrecision_def)
  have "Money_Quantize int_apd \<lparr>m_amount = 12, m_currency = ''JPY''\<rparr> (WithScale ?rc 0) =
      Inr (\<lparr>m_amount = 12, m_currency = ''JPY''\<rparr>, False)"
    by (simp add: Money_Quantize_def Scale_def WithScale_def int_apd_def int_outcome_def apdContext_def
        apdRounder_def)
  with rc show ?thesis using quantize_scale [OF int_apd_quantizes rc] by blast
qed

end
