(* ===== verification/Ledger_Fact.thy ===== *)
theory Ledger_Fact
  imports Identity Money Provenance
begin

text \<open>
  \<^verbatim>\<open>src/libs/ledger/domain\<close>, the data of the ledger: facts and their envelopes (\<^verbatim>\<open>fact.go\<close>),
  the four payload types (\<^verbatim>\<open>holding.go\<close>, \<^verbatim>\<open>claimed.go\<close>). The interface \<^verbatim>\<open>Payload\<close> is the datatype
  \<open>Payload\<close> of its implementations, with \<open>None\<close> where Go passes a nil interface. The type
  variable \<open>'d\<close> is the decimal type of \<open>Money\<close>.
\<close>

section \<open>Errors, kinds and references\<close>

definition ErrIncompleteEnvelope :: sentinel where
  "ErrIncompleteEnvelope = ''ledger: incomplete envelope''"
definition Ledger_ErrUnknownKind :: sentinel where
  "Ledger_ErrUnknownKind = ''ledger: unknown fact kind''"
definition ErrEmptyType :: sentinel where
  "ErrEmptyType = ''ledger: fact type is empty''"
definition ErrNotFound :: sentinel where
  "ErrNotFound = ''ledger: fact not found''"

declare ErrIncompleteEnvelope_def [sentinel_defs] Ledger_ErrUnknownKind_def [sentinel_defs]
  ErrEmptyType_def [sentinel_defs] ErrNotFound_def [sentinel_defs]

type_synonym FactKind = u8

definition FactKindUnspecified :: FactKind where "FactKindUnspecified = 0"
definition KindOccurrence :: FactKind where "KindOccurrence = 1"
definition KindObservation :: FactKind where "KindObservation = 2"

declare FactKindUnspecified_def [enum_defs] KindOccurrence_def [enum_defs]
  KindObservation_def [enum_defs]

definition FactKind_String :: "FactKind \<Rightarrow> string" where
  "FactKind_String k =
     (if k = KindOccurrence then ''occurrence''
      else if k = KindObservation then ''observation''
      else ''unspecified'')"

definition FactKind_Valid :: "FactKind \<Rightarrow> bool" where
  "FactKind_Valid k \<longleftrightarrow> k = KindOccurrence \<or> k = KindObservation"

record FactRef =
  fr_Stream :: string
  fr_Sequence :: u64

definition FactRef_String :: "FactRef \<Rightarrow> string" where
  "FactRef_String r = fr_Stream r @ ''#'' @ dec_nat (unat (fr_Sequence r))"

section \<open>Payloads\<close>

record 'd HoldingObserved =
  ho_Account :: ID
  ho_Instrument :: ID
  ho_Quantity :: "'d Quantity"

record 'd HoldingClaimed =
  hc_Account :: Claim
  hc_Instrument :: Claim
  hc_Quantity :: "'d Quantity"

record EntityMinted =
  em_Entity :: ID
  em_BornFrom :: Claim

type_synonym CorrectionKind = u8

definition CorrectionKindUnspecified :: CorrectionKind where "CorrectionKindUnspecified = 0"
definition CorrectionKindCorrected :: CorrectionKind where "CorrectionKindCorrected = 1"
definition CorrectionKindRetracted :: CorrectionKind where "CorrectionKindRetracted = 2"
definition CorrectionKindSuperseded :: CorrectionKind where "CorrectionKindSuperseded = 3"

declare CorrectionKindUnspecified_def [enum_defs] CorrectionKindCorrected_def [enum_defs]
  CorrectionKindRetracted_def [enum_defs] CorrectionKindSuperseded_def [enum_defs]

definition CorrectionKind_String :: "CorrectionKind \<Rightarrow> string" where
  "CorrectionKind_String c =
     (if c = CorrectionKindCorrected then ''corrected''
      else if c = CorrectionKindRetracted then ''retracted''
      else if c = CorrectionKindSuperseded then ''superseded''
      else ''unspecified'')"

definition CorrectionKind_Valid :: "CorrectionKind \<Rightarrow> bool" where
  "CorrectionKind_Valid c \<longleftrightarrow> c \<ge> CorrectionKindCorrected \<and> c \<le> CorrectionKindSuperseded"

record FactCorrected =
  fc_Corrects :: FactRef
  fc_Kind :: CorrectionKind
  fc_Reason :: string

datatype 'd Payload =
  HoldingObservedP "'d HoldingObserved"
| HoldingClaimedP "'d HoldingClaimed"
| EntityMintedP EntityMinted
| FactCorrectedP FactCorrected

fun FactType :: "'d Payload \<Rightarrow> string" where
  "FactType (HoldingObservedP _) = ''ledger.HoldingObserved''"
| "FactType (HoldingClaimedP _) = ''ledger.HoldingClaimed''"
| "FactType (EntityMintedP _) = ''ledger.EntityMinted''"
| "FactType (FactCorrectedP _) = ''ledger.FactCorrected''"

fun TypeVersion :: "'d Payload \<Rightarrow> u32" where
  "TypeVersion (HoldingObservedP _) = 1"
| "TypeVersion (HoldingClaimedP _) = 1"
| "TypeVersion (EntityMintedP _) = 1"
| "TypeVersion (FactCorrectedP _) = 1"

section \<open>Envelopes and facts\<close>

record Envelope =
  ev_coordinates :: Coordinates
  ev_provenance :: Provenance
  ev_references :: "ReferenceBinding list"

definition NewEnvelope ::
  "Coordinates \<Rightarrow> Provenance \<Rightarrow> ReferenceBinding list \<Rightarrow> Envelope result" where
  "NewEnvelope coordinates prov references =
     (if Instant_IsZero (knowledge coordinates) then Inl [ErrIncompleteEnvelope]
      else if Provenance_IsZero prov then Inl [ErrIncompleteEnvelope]
      else Inr \<lparr>ev_coordinates = coordinates, ev_provenance = prov, ev_references = references\<rparr>)"

record 'd Fact =
  f_ref :: FactRef
  f_envelope :: Envelope
  f_kind :: FactKind
  f_payload :: "'d Payload"

definition NewFact ::
  "FactRef \<Rightarrow> Envelope \<Rightarrow> FactKind \<Rightarrow> 'd Payload option \<Rightarrow> 'd Fact result" where
  "NewFact ref envelope kind payload =
     (if Provenance_IsZero (ev_provenance envelope) then Inl [ErrIncompleteEnvelope]
      else if \<not> FactKind_Valid kind then Inl [Ledger_ErrUnknownKind]
      else case payload of
        None \<Rightarrow> Inl [ErrEmptyType]
      | Some p \<Rightarrow>
          if FactType p = [] then Inl [ErrEmptyType]
          else Inr \<lparr>f_ref = ref, f_envelope = envelope, f_kind = kind, f_payload = p\<rparr>)"

definition Fact_Visible :: "'d Fact \<Rightarrow> AsOf \<Rightarrow> bool" where
  "Fact_Visible f asOf \<longleftrightarrow> Coordinates_Visible (ev_coordinates (f_envelope f)) asOf"

abbreviation fact_from :: "'d Fact \<Rightarrow> Instant" where
  "fact_from f \<equiv> iv_from (effective (ev_coordinates (f_envelope f)))"

abbreviation fact_knowledge :: "'d Fact \<Rightarrow> Instant" where
  "fact_knowledge f \<equiv> knowledge (ev_coordinates (f_envelope f))"

section \<open>Lemmas\<close>

lemma FactType_nonempty [simp]: "FactType p \<noteq> []"
  by (cases p) simp_all

lemma NewFact_Inr_iff:
  "NewFact r e k p = Inr f \<longleftrightarrow>
     \<not> Provenance_IsZero (ev_provenance e) \<and> FactKind_Valid k \<and>
     (\<exists>q. p = Some q \<and> f = \<lparr>f_ref = r, f_envelope = e, f_kind = k, f_payload = q\<rparr>)"
  by (auto simp: NewFact_def split: option.splits)

lemma NewEnvelope_Inr_iff:
  "NewEnvelope c p rs = Inr e \<longleftrightarrow>
     knowledge c \<noteq> zeroInstant \<and> \<not> Provenance_IsZero p \<and>
     e = \<lparr>ev_coordinates = c, ev_provenance = p, ev_references = rs\<rparr>"
  by (auto simp: NewEnvelope_def Instant_IsZero_iff)

lemma Fact_Visible_iff:
  "Fact_Visible f a \<longleftrightarrow> fact_knowledge f \<le> ao_knowledge a \<and>
     Contains (effective (ev_coordinates (f_envelope f))) (ao_effective a)"
  by (simp add: Fact_Visible_def Coordinates_Visible_iff)

lemma FactRef_String_inj: "FactRef_String r = FactRef_String s \<longleftrightarrow> r = s"
proof
  assume "FactRef_String r = FactRef_String s"
  then have "rev (dec_nat (unat (fr_Sequence r))) @ CHR ''#'' # rev (fr_Stream r) =
      rev (dec_nat (unat (fr_Sequence s))) @ CHR ''#'' # rev (fr_Stream s)"
    unfolding FactRef_String_def by (metis append.assoc append_Cons append_Nil rev_append rev_singleton_conv)
  then have "rev (dec_nat (unat (fr_Sequence r))) = rev (dec_nat (unat (fr_Sequence s))) \<and>
      rev (fr_Stream r) = rev (fr_Stream s)"
    using dec_nat_no_sep [of "CHR ''#''"] by (intro cut_at [of "CHR ''#''"]) auto
  then show "r = s" by (cases r; cases s) (simp add: word_unat_eq_iff)
qed simp

text \<open>What \<open>NewEnvelope\<close> and the provenance constructors establish of an envelope.\<close>

definition wf_envelope :: "Envelope \<Rightarrow> bool" where
  "wf_envelope e \<longleftrightarrow>
     wf_interval (effective (ev_coordinates e)) \<and> knowledge (ev_coordinates e) \<noteq> zeroInstant \<and>
     wf_provenance (ev_provenance e)"

lemma wf_provenance_nonzero: "wf_provenance p \<Longrightarrow> \<not> Provenance_IsZero p"
  by (simp add: wf_provenance_def Provenance_IsZero_def)

end
