(* ===== verification/Ledger_Stream.thy ===== *)
theory Ledger_Stream
  imports Ledger_Fact "HOL-Library.Product_Lexorder"
begin

text \<open>
  \<^verbatim>\<open>src/libs/ledger/domain/stream.go\<close>: the append-only stream of facts. A stream is a value;
  \<^verbatim>\<open>Append\<close> returns the extended stream. \<^verbatim>\<open>sort.SliceStable\<close> with the comparison
  (effective from, knowledge, sequence) is the stable \<open>sort_key\<close> on that triple, ordered
  lexicographically.
\<close>

record 'd Stream =
  st_name :: string
  st_facts :: "'d Fact list"

definition NewStream :: "string \<Rightarrow> 'd Stream result" where
  "NewStream name =
     (if name = [] then Inl [ErrEmptyType] else Inr \<lparr>st_name = name, st_facts = []\<rparr>)"

definition Stream_Len :: "'d Stream \<Rightarrow> nat" where
  "Stream_Len s = length (st_facts s)"

definition Stream_Append ::
  "'d Stream \<Rightarrow> Envelope \<Rightarrow> FactKind \<Rightarrow> 'd Payload option \<Rightarrow> ('d Stream \<times> FactRef) result" where
  "Stream_Append s envelope kind payload =
     (let ref = \<lparr>fr_Stream = st_name s, fr_Sequence = word_of_nat (length (st_facts s)) + 1\<rparr>
      in bindR (NewFact ref envelope kind payload) (\<lambda>fact.
           Inr (\<lparr>st_name = st_name s, st_facts = st_facts s @ [fact]\<rparr>, ref)))"

definition Stream_Get :: "'d Stream \<Rightarrow> FactRef \<Rightarrow> 'd Fact result" where
  "Stream_Get s ref =
     (if fr_Stream ref \<noteq> st_name s \<or> fr_Sequence ref = 0 \<or>
         fr_Sequence ref > word_of_nat (length (st_facts s))
      then Inl [ErrNotFound]
      else Inr (st_facts s ! unat (fr_Sequence ref - 1)))"

definition visible_key :: "'d Fact \<Rightarrow> Instant \<times> Instant \<times> u64" where
  "visible_key f = (fact_from f, fact_knowledge f, fr_Sequence (f_ref f))"

definition VisibleAt :: "'d Stream \<Rightarrow> AsOf \<Rightarrow> 'd Fact list" where
  "VisibleAt s asOf = sort_key visible_key (filter (\<lambda>f. Fact_Visible f asOf) (st_facts s))"

definition as_correction :: "'d Fact \<Rightarrow> FactCorrected option" where
  "as_correction f = (case f_payload f of FactCorrectedP c \<Rightarrow> Some c | _ \<Rightarrow> None)"

definition Corrections :: "'d Stream \<Rightarrow> AsOf \<Rightarrow> FactCorrected list" where
  "Corrections s asOf = List.map_filter as_correction (VisibleAt s asOf)"

section \<open>Well-formed streams\<close>

text \<open>
  A stream is at most as long as a Go slice can be, every fact is numbered by its position and
  carries a well-formed envelope and a valid kind. \<open>NewStream\<close> and \<open>Append\<close> keep it.
\<close>

definition wf_fact :: "'d Fact \<Rightarrow> bool" where
  "wf_fact f \<longleftrightarrow> wf_envelope (f_envelope f) \<and> FactKind_Valid (f_kind f)"

definition wf_stream :: "'d Stream \<Rightarrow> bool" where
  "wf_stream s \<longleftrightarrow>
     length (st_facts s) < 2 ^ 63 \<and> list_all wf_fact (st_facts s) \<and>
     (\<forall>i < length (st_facts s).
        f_ref (st_facts s ! i) = \<lparr>fr_Stream = st_name s, fr_Sequence = word_of_nat (i + 1)\<rparr>)"

lemma NewStream_Inr_iff:
  "NewStream n = Inr s \<longleftrightarrow> n \<noteq> [] \<and> s = \<lparr>st_name = n, st_facts = []\<rparr>"
  by (auto simp: NewStream_def)

lemma NewStream_wf: "NewStream n = Inr s \<Longrightarrow> wf_stream s"
  by (auto simp: NewStream_Inr_iff wf_stream_def)

lemma Stream_Append_Inr_iff:
  "Stream_Append s e k p = Inr (s', r) \<longleftrightarrow>
     \<not> Provenance_IsZero (ev_provenance e) \<and> FactKind_Valid k \<and>
     r = \<lparr>fr_Stream = st_name s, fr_Sequence = word_of_nat (length (st_facts s) + 1)\<rparr> \<and>
     (\<exists>q. p = Some q \<and> s' = \<lparr>st_name = st_name s, st_facts = st_facts s @
        [\<lparr>f_ref = r, f_envelope = e, f_kind = k, f_payload = q\<rparr>]\<rparr>)"
  by (auto simp: Stream_Append_def NewFact_Inr_iff Let_def add.commute)

lemma Stream_Append_wf:
  assumes "wf_stream s" "Stream_Append s e k p = Inr (s', r)" "wf_envelope e"
    and "length (st_facts s) + 1 < 2 ^ 63"
  shows "wf_stream s'"
  using assms
  by (auto simp: wf_stream_def Stream_Append_Inr_iff nth_append wf_fact_def less_Suc_eq)

lemma Stream_Append_name: "Stream_Append s e k p = Inr (s', r) \<Longrightarrow> st_name s' = st_name s"
  by (auto simp: Stream_Append_Inr_iff)

lemma unat_seq: "i < 2 ^ 63 \<Longrightarrow> unat (word_of_nat i :: u64) = i"
  by (simp add: unat_of_nat take_bit_nat_eq_self)

lemma Stream_Get_Inr_iff:
  assumes "length (st_facts s) < 2 ^ 63"
  shows "Stream_Get s r = Inr f \<longleftrightarrow>
    (\<exists>i < length (st_facts s). r = \<lparr>fr_Stream = st_name s, fr_Sequence = word_of_nat (i + 1)\<rparr> \<and>
       f = st_facts s ! i)" (is "?L \<longleftrightarrow> ?R")
proof
  assume ?L
  then have r: "fr_Stream r = st_name s" "fr_Sequence r \<noteq> 0"
    "fr_Sequence r \<le> word_of_nat (length (st_facts s))" and f: "f = st_facts s ! unat (fr_Sequence r - 1)"
    by (auto simp: Stream_Get_def not_less split: if_splits)
  define i where "i = unat (fr_Sequence r) - 1"
  have pos: "0 < unat (fr_Sequence r)" using r(2) by (simp add: unat_gt_0)
  have le: "unat (fr_Sequence r) \<le> length (st_facts s)"
    using r(3) unat_seq [OF assms] by (simp add: word_le_nat_alt)
  have idx: "unat (fr_Sequence r - 1) = i" using pos unfolding i_def by (simp add: unat_minus_one r(2))
  have "i + 1 = unat (fr_Sequence r)" using pos by (simp add: i_def)
  then have "fr_Sequence r = word_of_nat (i + 1)" by (metis of_nat_unat ucast_id)
  then have "r = \<lparr>fr_Stream = st_name s, fr_Sequence = word_of_nat (i + 1)\<rparr>" using r(1) by (cases r) simp
  moreover have "i < length (st_facts s)" using le pos unfolding i_def by linarith
  moreover have "f = st_facts s ! i" using f by (simp only: idx)
  ultimately have "\<exists>i < length (st_facts s).
      r = \<lparr>fr_Stream = st_name s, fr_Sequence = word_of_nat (i + 1)\<rparr> \<and> f = st_facts s ! i" by blast
  then show ?R .
next
  assume ?R
  then obtain i where i: "i < length (st_facts s)" "f = st_facts s ! i"
    "r = \<lparr>fr_Stream = st_name s, fr_Sequence = word_of_nat (i + 1)\<rparr>" by blast
  have u: "unat (word_of_nat (i + 1) :: u64) = i + 1" "unat (word_of_nat (length (st_facts s)) :: u64) = length (st_facts s)"
    using i(1) assms by (simp_all only: unat_seq)
  have "(word_of_nat (i + 1) :: u64) \<noteq> 0" using u(1) by (metis add_is_0 unat_0 zero_neq_one)
  then show ?L
    using i u unat_seq [of i] assms by (simp add: Stream_Get_def not_less word_le_nat_alt)
qed

section \<open>Visible facts\<close>

lemma set_VisibleAt: "set (VisibleAt s a) = {f \<in> set (st_facts s). Fact_Visible f a}"
  by (auto simp: VisibleAt_def)

lemma as_correction_Some_iff: "as_correction f = Some c \<longleftrightarrow> f_payload f = FactCorrectedP c"
  by (simp add: as_correction_def split: Payload.splits)

lemma set_map_filter: "set (List.map_filter g xs) = {y. \<exists>x \<in> set xs. g x = Some y}"
  by (induction xs) (auto split: option.splits)

lemma set_Corrections:
  "set (Corrections s a) = {c. \<exists>f \<in> set (st_facts s). Fact_Visible f a \<and> f_payload f = FactCorrectedP c}"
  by (auto simp: Corrections_def set_map_filter as_correction_Some_iff set_VisibleAt)

lemma mset_VisibleAt: "mset (VisibleAt s a) = mset (filter (\<lambda>f. Fact_Visible f a) (st_facts s))"
  by (simp add: VisibleAt_def)

lemma sorted_VisibleAt: "sorted (map visible_key (VisibleAt s a))"
  by (simp add: VisibleAt_def)

lemma wf_stream_distinct_seq:
  assumes "wf_stream s"
  shows "distinct (map (\<lambda>f. fr_Sequence (f_ref f)) (st_facts s))"
proof -
  have "fr_Sequence (f_ref (st_facts s ! i)) \<noteq> fr_Sequence (f_ref (st_facts s ! j))"
    if "i < length (st_facts s)" "j < length (st_facts s)" "i \<noteq> j" for i j
    using that assms unat_seq [of "i + 1"] unat_seq [of "j + 1"]
    by (auto simp: wf_stream_def)
  then show ?thesis by (simp add: distinct_conv_nth)
qed

lemma wf_stream_distinct_keys: "wf_stream s \<Longrightarrow> distinct (map visible_key (st_facts s))"
  using wf_stream_distinct_seq [of s]
  by (auto simp: distinct_map visible_key_def inj_on_def)

lemma VisibleAt_append_invisible:
  "\<not> Fact_Visible f a \<Longrightarrow> VisibleAt \<lparr>st_name = n, st_facts = fs @ [f]\<rparr> a = VisibleAt \<lparr>st_name = m, st_facts = fs\<rparr> a"
  by (simp add: VisibleAt_def)

lemma VisibleAt_name: "VisibleAt \<lparr>st_name = n, st_facts = st_facts s\<rparr> a = VisibleAt s a"
  by (simp add: VisibleAt_def)

lemma VisibleAt_later_knowledge:
  assumes "Stream_Append s e k p = Inr (s', r)" "ao_knowledge a < knowledge (ev_coordinates e)"
  shows "VisibleAt s' a = VisibleAt s a"
proof -
  from assms(1) obtain q where
    s': "s' = \<lparr>st_name = st_name s, st_facts = st_facts s @ [\<lparr>f_ref = r, f_envelope = e, f_kind = k, f_payload = q\<rparr>]\<rparr>"
    by (auto simp: Stream_Append_Inr_iff)
  have "\<not> Fact_Visible \<lparr>f_ref = r, f_envelope = e, f_kind = k, f_payload = q\<rparr> a"
    using assms(2) by (simp add: Fact_Visible_iff not_le)
  then show ?thesis unfolding s' by (simp add: VisibleAt_def)
qed

lemma Corrections_later_knowledge:
  "Stream_Append s e k p = Inr (s', r) \<Longrightarrow> ao_knowledge a < knowledge (ev_coordinates e) \<Longrightarrow>
   Corrections s' a = Corrections s a"
  by (simp add: Corrections_def VisibleAt_later_knowledge)

section \<open>Properties\<close>

text \<open>The ledger is append-only. \<open>Append\<close> on a well-formed stream adds one fact at the end,
  numbers it by its position, returns a reference that \<open>Get\<close> answers with that fact, keeps every
  earlier reference's answer, and keeps the stream well-formed.\<close>

theorem stream_append_only:
  assumes "wf_stream s" "wf_envelope e" "length (st_facts s) + 1 < 2 ^ 63"
    and "Stream_Append s e k p = Inr (s', r)"
  shows "(\<exists>f. st_facts s' = st_facts s @ [f] \<and> Stream_Get s' r = Inr f \<and>
       f_envelope f = e \<and> f_kind f = k \<and> p = Some (f_payload f)) \<and>
    fr_Sequence r = word_of_nat (Stream_Len s') \<and>
    (\<forall>r0 f0. Stream_Get s r0 = Inr f0 \<longrightarrow> Stream_Get s' r0 = Inr f0) \<and>
    Stream_Get s r = Inl [ErrNotFound] \<and> wf_stream s'"
proof -
  obtain q where q: "p = Some q" and
    r: "r = \<lparr>fr_Stream = st_name s, fr_Sequence = word_of_nat (length (st_facts s) + 1)\<rparr>" and
    s': "s' = \<lparr>st_name = st_name s, st_facts = st_facts s @ [\<lparr>f_ref = r, f_envelope = e, f_kind = k, f_payload = q\<rparr>]\<rparr>"
    using assms(4) by (auto simp: Stream_Append_Inr_iff)
  have len: "length (st_facts s) < 2 ^ 63" "length (st_facts s') < 2 ^ 63" using assms(3) s' by simp_all
  have new: "Stream_Get s' r = Inr \<lparr>f_ref = r, f_envelope = e, f_kind = k, f_payload = q\<rparr>"
    unfolding Stream_Get_Inr_iff [OF len(2)] using r by (intro exI [of _ "length (st_facts s)"]) (simp add: s')
  have old: "Stream_Get s' r0 = Inr f0" if "Stream_Get s r0 = Inr f0" for r0 f0
    using that unfolding Stream_Get_Inr_iff [OF len(1)] Stream_Get_Inr_iff [OF len(2)]
    by (auto simp: s' nth_append)
  have "unat (word_of_nat (length (st_facts s) + 1) :: u64) = length (st_facts s) + 1"
    "unat (word_of_nat (length (st_facts s)) :: u64) = length (st_facts s)"
    using assms(3) len by (simp_all only: unat_seq)
  then have "Stream_Get s r = Inl [ErrNotFound]"
    by (simp add: Stream_Get_def r word_less_nat_alt)
  with new old Stream_Append_wf [OF assms(1,4,2,3)] show ?thesis
    by (simp add: s' q) (simp add: r Stream_Len_def)
qed

text \<open>The order of visible facts is total and forgets how they were stored. Two streams
  holding the same facts in any order give the same list at every coordinate, and it is sorted by
  (effective from, knowledge, sequence).\<close>

theorem visible_order_deterministic:
  assumes "wf_stream s" "mset (st_facts t) = mset (st_facts s)"
  shows "VisibleAt t a = VisibleAt s a \<and> sorted (map visible_key (VisibleAt s a)) \<and>
    distinct (map visible_key (VisibleAt s a))"
proof -
  have "distinct (map visible_key (filter (\<lambda>f. Fact_Visible f a) (st_facts s)))"
    using wf_stream_distinct_keys [OF assms(1)] by (rule distinct_map_filter)
  moreover from this have "VisibleAt s a = VisibleAt t a"
    unfolding VisibleAt_def using assms(2) by (intro sort_key_perm_eq) simp_all
  moreover have "distinct (map visible_key (VisibleAt s a))"
    using calculation(1) by (simp add: VisibleAt_def distinct_map)
  ultimately show ?thesis using sorted_VisibleAt [of s a] by simp
qed

text \<open>C13: no look-ahead. Every fact visible at a coordinate was known by its knowledge time and
  in force at its effective time, and appending a fact learned later never changes what was
  visible, nor which corrections applied.\<close>

theorem visible_no_look_ahead:
  assumes "Stream_Append s e k p = Inr (s', r)" "ao_knowledge a < knowledge (ev_coordinates e)"
  shows "VisibleAt s' a = VisibleAt s a \<and> Corrections s' a = Corrections s a \<and>
    list_all (\<lambda>f. fact_knowledge f \<le> ao_knowledge a \<and> fact_knowledge f < knowledge (ev_coordinates e) \<and>
      Contains (effective (ev_coordinates (f_envelope f))) (ao_effective a)) (VisibleAt s' a)"
proof -
  have "list_all (\<lambda>f. fact_knowledge f \<le> ao_knowledge a \<and>
      Contains (effective (ev_coordinates (f_envelope f))) (ao_effective a)) (VisibleAt s' a)"
    by (auto simp: list_all_iff set_VisibleAt Fact_Visible_iff)
  with assms(2) show ?thesis
    using VisibleAt_later_knowledge [OF assms] Corrections_later_knowledge [OF assms]
    by (auto simp: list_all_iff)
qed

section \<open>Witnesses\<close>

definition sample_provenance :: Provenance where
  "sample_provenance = \<lparr>pv_source = Source ''s'', pv_collectedAt = Instant 5, pv_publishedAt = zeroInstant,
     pv_interpreter = Unmediated, pv_derivation = None, pv_confidence = ConfidenceAsserted\<rparr>"

definition sample_envelope :: "int \<Rightarrow> int \<Rightarrow> Envelope" where
  "sample_envelope from k = \<lparr>ev_coordinates = \<lparr>effective = \<lparr>iv_from = Instant from, iv_to = zeroInstant\<rparr>,
       knowledge = Instant k\<rparr>, ev_provenance = sample_provenance, ev_references = []\<rparr>"

definition sample_payload :: "'d Payload" where
  "sample_payload = EntityMintedP \<lparr>em_Entity = \<lparr>id_kind = KindAccount, id_value = ''i''\<rparr>,
     em_BornFrom = \<lparr>cl_scheme = ''iban'', cl_value = ''x''\<rparr>\<rparr>"

definition sample_fact :: "string \<Rightarrow> u64 \<Rightarrow> int \<Rightarrow> int \<Rightarrow> 'd Payload \<Rightarrow> 'd Fact" where
  "sample_fact n i from k p = \<lparr>f_ref = \<lparr>fr_Stream = n, fr_Sequence = i\<rparr>,
     f_envelope = sample_envelope from k, f_kind = KindObservation, f_payload = p\<rparr>"

lemmas sample_defs = sample_provenance_def sample_envelope_def sample_payload_def sample_fact_def

lemma sample_envelope_wf: "from \<noteq> 0 \<Longrightarrow> k \<noteq> 0 \<Longrightarrow> wf_envelope (sample_envelope from k)"
  by (simp add: sample_defs wf_envelope_def wf_interval_def wf_provenance_def zeroInstant_def
      Unmediated_def UnmediatedName_def Confidence_Valid_def enum_defs)

theorem stream_append_only_witness:
  "\<exists>s' r. Stream_Append \<lparr>st_name = ''l'', st_facts = [sample_fact ''l'' 1 3 4 sample_payload]\<rparr>
       (sample_envelope 3 6) KindObservation (Some (sample_payload :: int Payload)) = Inr (s', r) \<and>
     fr_Sequence r = 2 \<and> Stream_Get s' r = Inr (sample_fact ''l'' 2 3 6 sample_payload) \<and> wf_stream s'"
proof -
  let ?s = "\<lparr>st_name = ''l'', st_facts = [sample_fact ''l'' 1 3 4 (sample_payload :: int Payload)]\<rparr>"
  let ?s' = "\<lparr>st_name = ''l'', st_facts = [sample_fact ''l'' 1 3 4 sample_payload,
      sample_fact ''l'' 2 3 6 sample_payload]\<rparr> :: int Stream"
  have ap: "Stream_Append ?s (sample_envelope 3 6) KindObservation (Some sample_payload) =
      Inr (?s', \<lparr>fr_Stream = ''l'', fr_Sequence = 2\<rparr>)"
    by (simp add: Stream_Append_Inr_iff sample_defs Provenance_IsZero_def FactKind_Valid_def)
  have "wf_stream ?s"
    by (simp add: wf_stream_def wf_fact_def sample_fact_def sample_envelope_wf FactKind_Valid_def)
  then show ?thesis
    using stream_append_only [OF _ sample_envelope_wf _ ap] ap by auto
qed

theorem visible_order_deterministic_witness:
  "map (\<lambda>f. fr_Sequence (f_ref f)) (VisibleAt \<lparr>st_name = ''l'', st_facts =
     [sample_fact ''l'' 2 3 6 sample_payload, sample_fact ''l'' 1 3 4 (sample_payload :: int Payload)]\<rparr>
     \<lparr>ao_effective = Instant 9, ao_knowledge = Instant 9\<rparr>) = [1, 2]"
proof -
  let ?f1 = "sample_fact ''l'' 1 3 4 (sample_payload :: int Payload)"
  let ?f2 = "sample_fact ''l'' 2 3 6 (sample_payload :: int Payload)"
  have "wf_stream \<lparr>st_name = ''l'', st_facts = [?f1, ?f2]\<rparr>"
    by (simp add: wf_stream_def wf_fact_def sample_fact_def sample_envelope_wf FactKind_Valid_def
        less_Suc_eq)
  from visible_order_deterministic [OF this, of "\<lparr>st_name = ''l'', st_facts = [?f2, ?f1]\<rparr>"]
  show ?thesis
    by (simp add: add_mset_commute VisibleAt_def Fact_Visible_iff Contains_def sample_defs
        visible_key_def instant_defs IsOpen_def)
qed

theorem visible_no_look_ahead_witness:
  "\<exists>s' r. Stream_Append \<lparr>st_name = ''l'', st_facts = [sample_fact ''l'' 1 3 4 sample_payload]\<rparr>
       (sample_envelope 3 6) KindObservation (Some (sample_payload :: int Payload)) = Inr (s', r) \<and>
     VisibleAt s' \<lparr>ao_effective = Instant 3, ao_knowledge = Instant 5\<rparr> =
     VisibleAt \<lparr>st_name = ''l'', st_facts = [sample_fact ''l'' 1 3 4 sample_payload]\<rparr>
       \<lparr>ao_effective = Instant 3, ao_knowledge = Instant 5\<rparr>"
proof -
  let ?s = "\<lparr>st_name = ''l'', st_facts = [sample_fact ''l'' 1 3 4 (sample_payload :: int Payload)]\<rparr>"
  let ?s' = "\<lparr>st_name = ''l'', st_facts = [sample_fact ''l'' 1 3 4 sample_payload,
      sample_fact ''l'' 2 3 6 sample_payload]\<rparr> :: int Stream"
  have ap: "Stream_Append ?s (sample_envelope 3 6) KindObservation (Some sample_payload) =
      Inr (?s', \<lparr>fr_Stream = ''l'', fr_Sequence = 2\<rparr>)"
    by (simp add: Stream_Append_Inr_iff sample_defs Provenance_IsZero_def FactKind_Valid_def)
  have "ao_knowledge \<lparr>ao_effective = Instant 3, ao_knowledge = Instant 5\<rparr> <
      knowledge (ev_coordinates (sample_envelope 3 6))"
    by (simp add: sample_defs instant_defs)
  from visible_no_look_ahead [OF ap this] ap show ?thesis by blast
qed

end
