(* ===== verification/Ledger_Position.thy ===== *)
theory Ledger_Position
  imports Ledger_Stream Explained
begin

text \<open>
  \<^verbatim>\<open>src/libs/ledger/domain/position.go\<close>: the position projection. The Go map \<^verbatim>\<open>retracted\<close> is the
  list of retracted references, read by membership; the loop over visible facts is
  \<open>observe_loop\<close>. \<open>zeroQuantity A\<close> is the zero value of the seed's quantity field.
\<close>

definition ErrNoFacts :: sentinel where
  "ErrNoFacts = ''ledger: no visible facts to project''"

declare ErrNoFacts_def [sentinel_defs]

definition mustMethod :: "string \<Rightarrow> string \<Rightarrow> Method result" where
  "mustMethod name version =
     (case NewMethod name version of Inl e \<Rightarrow> Inl [Panic] | Inr m \<Rightarrow> Inr m)"

definition projectionMethod :: Method where
  "projectionMethod =
     (case mustMethod ''ledger.ProjectPosition'' ''1'' of
        Inl _ \<Rightarrow> \<lparr>me_name = [], me_version = []\<rparr> | Inr m \<Rightarrow> m)"

record 'd Position =
  po_Account :: ID
  po_Instrument :: ID
  po_Quantity :: "'d Quantity"
  po_AsOf :: AsOf

definition retracted_refs :: "'d Stream \<Rightarrow> AsOf \<Rightarrow> FactRef list" where
  "retracted_refs s asOf =
     map fc_Corrects (filter (\<lambda>c. fc_Kind c = CorrectionKindRetracted) (Corrections s asOf))"

fun observe_loop ::
  "FactRef list \<Rightarrow> ID \<Rightarrow> ID \<Rightarrow> 'd Fact list \<Rightarrow> 'd HoldingObserved Value list result" where
  "observe_loop retracted account instrument [] = Inr []"
| "observe_loop retracted account instrument (f # fs) =
     (if f_ref f \<in> set retracted then observe_loop retracted account instrument fs
      else case f_payload f of
        HoldingObservedP holding \<Rightarrow>
          if \<not> ID_Equal (ho_Account holding) account \<or> \<not> ID_Equal (ho_Instrument holding) instrument
          then observe_loop retracted account instrument fs
          else bindR (FromObservation holding projectionMethod [FactRef_String (f_ref f)]
                        (pv_confidence (ev_provenance (f_envelope f)))) (\<lambda>observed.
               bindR (observe_loop retracted account instrument fs) (\<lambda>rest.
                 Inr (observed # rest)))
      | _ \<Rightarrow> observe_loop retracted account instrument fs)"

definition ProjectPosition ::
  "'d apd \<Rightarrow> 'd Stream \<Rightarrow> ID \<Rightarrow> ID \<Rightarrow> AsOf \<Rightarrow> 'd Position Value result" where
  "ProjectPosition A stream account instrument asOf =
     bindR (observe_loop (retracted_refs stream asOf) account instrument (VisibleAt stream asOf))
       (\<lambda>observations.
         if observations = [] then Inl [ErrNoFacts]
         else Explained_Fold observations
           \<lparr>po_Account = account, po_Instrument = instrument, po_Quantity = zeroQuantity A,
            po_AsOf = asOf\<rparr>
           projectionMethod
           [\<lparr>pa_Name = ''account'', pa_Value = ID_String account\<rparr>,
            \<lparr>pa_Name = ''instrument'', pa_Value = ID_String instrument\<rparr>,
            \<lparr>pa_Name = ''as_of'', pa_Value = AsOf_String asOf\<rparr>]
           []
           (\<lambda>acc obs. Inr (acc\<lparr>po_Quantity := ho_Quantity obs\<rparr>)))"

section \<open>The specification\<close>

text \<open>
  The facts that decide a position: visible, not retracted by a visible correction, and
  observing the holding asked for. The position is the quantity of the last of them.
\<close>

definition holding_of :: "'d Fact \<Rightarrow> 'd HoldingObserved option" where
  "holding_of f = (case f_payload f of HoldingObservedP h \<Rightarrow> Some h | _ \<Rightarrow> None)"

definition relevant :: "'d Stream \<Rightarrow> ID \<Rightarrow> ID \<Rightarrow> AsOf \<Rightarrow> 'd Fact list" where
  "relevant s account instrument asOf =
     filter (\<lambda>f. f_ref f \<notin> set (retracted_refs s asOf) \<and>
       (\<exists>h. holding_of f = Some h \<and> ho_Account h = account \<and> ho_Instrument h = instrument))
       (VisibleAt s asOf)"

lemma ID_Equal_iff [simp]: "ID_Equal i j \<longleftrightarrow> i = j"
  by (cases i; cases j) (simp add: ID_Equal_def)

lemma projectionMethod_eq: "projectionMethod = \<lparr>me_name = ''ledger.ProjectPosition'', me_version = ''1''\<rparr>"
  by (simp add: projectionMethod_def mustMethod_def NewMethod_def ascii_eval)

lemma projectionMethod_named: "me_name projectionMethod \<noteq> []"
  by (simp add: projectionMethod_eq)

lemma VisibleAt_wf: "wf_stream s \<Longrightarrow> f \<in> set (VisibleAt s a) \<Longrightarrow> wf_fact f"
  by (auto simp: set_VisibleAt wf_stream_def list_all_iff)

lemma wf_fact_confidence: "wf_fact f \<Longrightarrow> Confidence_Valid (pv_confidence (ev_provenance (f_envelope f)))"
  by (simp add: wf_fact_def wf_envelope_def wf_provenance_def)

text \<open>The loop keeps exactly the relevant facts, each lifted with its reference as input.\<close>

definition observation_of :: "'d Fact \<Rightarrow> 'd HoldingObserved Value \<Rightarrow> bool" where
  "observation_of f v \<longleftrightarrow> holding_of f = Some (v_value v) \<and> wf_value v \<and>
     dr_inputs (v_record v) = [FactRef_String (f_ref f)] \<and>
     Value_Confidence v = pv_confidence (ev_provenance (f_envelope f))"

lemma FromObservation_wf:
  assumes "me_name m \<noteq> []" "Confidence_Valid c"
  shows "\<exists>v. FromObservation x m ins c = Inr v \<and> wf_value v \<and> v_value v = x \<and>
    dr_inputs (v_record v) = ins \<and> Value_Confidence v = c"
proof -
  obtain r where r: "NewDerivation m ins [] [] c = Inr r" using NewDerivation_total [OF assms] by blast
  then have "dr_inputs r = ins" "dr_confidence r = c" by (simp_all add: NewDerivation_Inr_iff)
  with r show ?thesis
    by (simp add: FromObservation_def FromDerivation_def NewDerivation_value_wf Value_Confidence_def)
qed

lemma observe_loop_spec:
  assumes "list_all wf_fact fs"
  shows "\<exists>vs. observe_loop ret acc ins fs = Inr vs \<and>
    list_all2 observation_of
      (filter (\<lambda>f. f_ref f \<notin> set ret \<and>
        (\<exists>h. holding_of f = Some h \<and> ho_Account h = acc \<and> ho_Instrument h = ins)) fs) vs"
  using assms
proof (induction fs)
  case Nil
  then show ?case by simp
next
  case (Cons f fs)
  then obtain vs where vs: "observe_loop ret acc ins fs = Inr vs"
    "list_all2 observation_of (filter (\<lambda>f. f_ref f \<notin> set ret \<and>
      (\<exists>h. holding_of f = Some h \<and> ho_Account h = acc \<and> ho_Instrument h = ins)) fs) vs" by auto
  show ?case
  proof (cases "f_payload f")
    case (HoldingObservedP h)
    obtain v where v: "FromObservation h projectionMethod [FactRef_String (f_ref f)]
        (pv_confidence (ev_provenance (f_envelope f))) = Inr v"
      "wf_value v" "v_value v = h" "dr_inputs (v_record v) = [FactRef_String (f_ref f)]"
      "Value_Confidence v = pv_confidence (ev_provenance (f_envelope f))"
      using FromObservation_wf [OF projectionMethod_named wf_fact_confidence, of f h] Cons.prems by auto
    moreover have "holding_of f = Some h" by (simp add: holding_of_def HoldingObservedP)
    ultimately have "observation_of f v" "holding_of f = Some h" by (simp_all add: observation_of_def)
    then show ?thesis using v(1) vs HoldingObservedP by auto
  qed (use vs holding_of_def [of f] in simp_all)
qed

lemma foldR_position:
  "foldR (\<lambda>acc obs. Inr (acc\<lparr>po_Quantity := ho_Quantity obs\<rparr>)) p hs =
     Inr (if hs = [] then p else p\<lparr>po_Quantity := ho_Quantity (last hs)\<rparr>)"
  by (induction hs arbitrary: p) auto

lemma position_of_observations:
  assumes "observe_loop (retracted_refs s a) account instrument (VisibleAt s a) = Inr vs" "vs \<noteq> []" "list_all wf_value vs"
  shows "\<exists>v. ProjectPosition A s account instrument a = Inr v \<and> wf_value v \<and>
    v_value v = \<lparr>po_Account = account, po_Instrument = instrument, po_Quantity = ho_Quantity (v_value (last vs)), po_AsOf = a\<rparr> \<and>
    dr_inputs (v_record v) = map (\<lambda>v. Ref_hash (v_trace v)) vs \<and> Value_Confidence v = Weakest (map Value_Confidence vs)"
proof -
  let ?params = "[\<lparr>pa_Name = ''account'', pa_Value = ID_String account\<rparr>,
      \<lparr>pa_Name = ''instrument'', pa_Value = ID_String instrument\<rparr>, \<lparr>pa_Name = ''as_of'', pa_Value = AsOf_String a\<rparr>]"
  have "Confidence_Valid (Weakest (map Value_Confidence vs))"
    using assms(2,3) by (intro Weakest_Valid) (auto simp: list_all_iff wf_value_def Value_Confidence_def)
  then obtain r where r: "NewDerivation projectionMethod (map (\<lambda>v. Ref_hash (v_trace v)) vs) ?params []
      (Weakest (map Value_Confidence vs)) = Inr r"
    using NewDerivation_total [OF projectionMethod_named] by blast
  then have "dr_inputs r = map (\<lambda>v. Ref_hash (v_trace v)) vs" "dr_confidence r = Weakest (map Value_Confidence vs)"
    by (simp_all add: NewDerivation_Inr_iff)
  moreover have "ProjectPosition A s account instrument a = Inr \<lparr>v_value =
      \<lparr>po_Account = account, po_Instrument = instrument, po_Quantity = ho_Quantity (v_value (last vs)), po_AsOf = a\<rparr>,
      v_trace = DerivationRecord_Ref r, v_record = r\<rparr>"
    using assms(1,2) r
    by (simp add: ProjectPosition_def Explained_Fold_eq foldR_position FromDerivation_def last_map Value_Confidence_def [abs_def])
  ultimately show ?thesis using NewDerivation_value_wf [OF r] by (simp add: Value_Confidence_def)
qed

section \<open>Properties\<close>

text \<open>C12: a position is the last thing FDOS was told. On a well-formed stream \<open>ProjectPosition\<close>
  answers \<open>ErrNoFacts\<close> exactly when no visible, unretracted observation of the holding exists;
  otherwise the quantity is the last such observation's, the trace has one input per observation
  consumed, each naming the observation's fact, and the confidence is that of the least
  trustworthy observation.\<close>

theorem project_position_spec:
  assumes "wf_stream s"
  shows "(relevant s account instrument a = [] \<longrightarrow>
      ProjectPosition A s account instrument a = Inl [ErrNoFacts]) \<and>
    (relevant s account instrument a \<noteq> [] \<longrightarrow>
      (\<exists>v obs. ProjectPosition A s account instrument a = Inr v \<and> wf_value v \<and>
        po_Account (v_value v) = account \<and> po_Instrument (v_value v) = instrument \<and>
        po_AsOf (v_value v) = a \<and>
        holding_of (last (relevant s account instrument a)) =
          Some \<lparr>ho_Account = account, ho_Instrument = instrument, ho_Quantity = po_Quantity (v_value v)\<rparr> \<and>
        list_all2 observation_of (relevant s account instrument a) obs \<and>
        dr_inputs (v_record v) = map (\<lambda>v. Ref_hash (v_trace v)) obs \<and>
        Value_Confidence v = Weakest (map (\<lambda>f. pv_confidence (ev_provenance (f_envelope f)))
          (relevant s account instrument a))))"
proof -
  let ?R = "relevant s account instrument a"
  have "list_all wf_fact (VisibleAt s a)" using VisibleAt_wf [OF assms] by (auto simp: list_all_iff)
  then obtain vs where vs: "observe_loop (retracted_refs s a) account instrument (VisibleAt s a) = Inr vs"
    "list_all2 observation_of ?R vs"
    using observe_loop_spec unfolding relevant_def by blast
  have empty: "?R = [] \<longleftrightarrow> vs = []" using list_all2_lengthD [OF vs(2)] by auto
  have hs: "map holding_of ?R = map (\<lambda>v. Some (v_value v)) vs" and
    cs: "map (\<lambda>f. pv_confidence (ev_provenance (f_envelope f))) ?R = map Value_Confidence vs" and
    wf: "list_all wf_value vs"
    using vs(2) by (induction rule: list_all2_induct) (simp_all add: observation_of_def)
  have last: "holding_of (last ?R) = Some (v_value (last vs))" if "?R \<noteq> []"
    using that hs empty by (metis last_map)
  have fields: "ho_Account h = account \<and> ho_Instrument h = instrument"
    if "f \<in> set ?R" "holding_of f = Some h" for f h
    using that by (auto simp: relevant_def)
  have "\<exists>v. ProjectPosition A s account instrument a = Inr v \<and> wf_value v \<and>
        po_Account (v_value v) = account \<and> po_Instrument (v_value v) = instrument \<and>
        po_AsOf (v_value v) = a \<and>
        holding_of (last ?R) =
          Some \<lparr>ho_Account = account, ho_Instrument = instrument, ho_Quantity = po_Quantity (v_value v)\<rparr> \<and>
        dr_inputs (v_record v) = map (\<lambda>v. Ref_hash (v_trace v)) vs \<and>
        Value_Confidence v = Weakest (map (\<lambda>f. pv_confidence (ev_provenance (f_envelope f))) ?R)"
    if ne: "?R \<noteq> []"
  proof -
    have "v_value (last vs) = \<lparr>ho_Account = account, ho_Instrument = instrument, ho_Quantity = ho_Quantity (v_value (last vs))\<rparr>"
      using fields [of "last ?R" "v_value (last vs)"] last [OF ne] ne by simp
    then show ?thesis
      using position_of_observations [OF vs(1) _ wf, of A] ne empty last [OF ne] by (auto simp: cs)
  qed
  moreover have "ProjectPosition A s account instrument a = Inl [ErrNoFacts]" if "?R = []"
    using that empty vs(1) by (simp add: ProjectPosition_def)
  ultimately show ?thesis using vs(2) by blast
qed

definition sample_account :: ID where
  "sample_account = \<lparr>id_kind = KindAccount, id_value = ''acc''\<rparr>"

definition sample_instrument :: ID where
  "sample_instrument = \<lparr>id_kind = KindInstrument, id_value = ''ins''\<rparr>"

definition sample_holding :: "int \<Rightarrow> int Payload" where
  "sample_holding q = HoldingObservedP \<lparr>ho_Account = sample_account, ho_Instrument = sample_instrument,
     ho_Quantity = \<lparr>q_amount = q, q_unit = ''share''\<rparr>\<rparr>"

definition sample_stream :: "int Stream" where
  "sample_stream = \<lparr>st_name = ''l'', st_facts =
     [sample_fact ''l'' 1 3 4 (sample_holding 100), sample_fact ''l'' 2 3 6 (sample_holding 150)]\<rparr>"

lemma sample_stream_wf: "wf_stream sample_stream"
  by (simp add: sample_stream_def wf_stream_def wf_fact_def sample_fact_def sample_envelope_wf
      FactKind_Valid_def less_Suc_eq)

lemmas position_eval =
  relevant_def retracted_refs_def Corrections_def as_correction_def holding_of_def VisibleAt_def
  Fact_Visible_iff Contains_def IsOpen_def instant_defs visible_key_def sample_defs
  sample_stream_def sample_holding_def

lemma sample_relevant:
  "relevant sample_stream sample_account sample_instrument \<lparr>ao_effective = Instant 9, ao_knowledge = Instant 9\<rparr> =
     [sample_fact ''l'' 1 3 4 (sample_holding 100), sample_fact ''l'' 2 3 6 (sample_holding 150)]"
  by (simp add: position_eval List.map_filter_def)

theorem project_position_spec_witness:
  "\<exists>v. ProjectPosition int_apd sample_stream sample_account sample_instrument
       \<lparr>ao_effective = Instant 9, ao_knowledge = Instant 9\<rparr> = Inr v \<and>
     q_amount (po_Quantity (v_value v)) = 150 \<and> length (dr_inputs (v_record v)) = 2"
proof -
  obtain v obs where "ProjectPosition int_apd sample_stream sample_account sample_instrument
       \<lparr>ao_effective = Instant 9, ao_knowledge = Instant 9\<rparr> = Inr v"
    "holding_of (sample_fact ''l'' 2 3 6 (sample_holding 150)) = Some \<lparr>ho_Account = sample_account,
       ho_Instrument = sample_instrument, ho_Quantity = po_Quantity (v_value v)\<rparr>"
    "list_all2 observation_of [sample_fact ''l'' 1 3 4 (sample_holding 100),
       sample_fact ''l'' 2 3 6 (sample_holding 150)] obs"
    "dr_inputs (v_record v) = map (\<lambda>v. Ref_hash (v_trace v)) obs"
    using project_position_spec [OF sample_stream_wf, of sample_account sample_instrument
        "\<lparr>ao_effective = Instant 9, ao_knowledge = Instant 9\<rparr>" int_apd]
    unfolding sample_relevant by auto
  moreover from this(2) have "po_Quantity (v_value v) = \<lparr>q_amount = 150, q_unit = ''share''\<rparr>"
    by (simp add: holding_of_def sample_fact_def sample_holding_def)
  ultimately show ?thesis using list_all2_lengthD by fastforce
qed

section \<open>Retraction\<close>

lemma relevant_sorted:
  "relevant s acc ins a = sort_key visible_key (filter (\<lambda>f. Fact_Visible f a \<and>
     f_ref f \<notin> set (retracted_refs s a) \<and>
     (\<exists>h. holding_of f = Some h \<and> ho_Account h = acc \<and> ho_Instrument h = ins)) (st_facts s))"
  by (simp add: relevant_def VisibleAt_def filter_sort conj_commute)

lemma set_retracted_refs:
  "set (retracted_refs s a) = {fc_Corrects c |f c. f \<in> set (st_facts s) \<and> Fact_Visible f a \<and>
     f_payload f = FactCorrectedP c \<and> fc_Kind c = CorrectionKindRetracted}"
  by (auto simp: retracted_refs_def set_Corrections)

text \<open>A retraction removes exactly what it names, and only from when it is known. Appending a
  retraction of a reference to a stream leaves every answer at an earlier knowledge time as it
  was; at a coordinate where the retraction is visible, the observations that decide a position
  are the earlier ones without the retracted fact.\<close>

theorem retraction_effect:
  assumes "Stream_Append s e k (Some (FactCorrectedP c)) = Inr (s', r)"
    and "fc_Kind c = CorrectionKindRetracted"
  shows "(ao_knowledge a < knowledge (ev_coordinates e) \<longrightarrow>
      ProjectPosition A s' account instrument a = ProjectPosition A s account instrument a) \<and>
    (Coordinates_Visible (ev_coordinates e) a \<longrightarrow>
      relevant s' account instrument a =
        filter (\<lambda>f. f_ref f \<noteq> fc_Corrects c) (relevant s account instrument a))"
proof -
  let ?f = "\<lparr>f_ref = r, f_envelope = e, f_kind = k, f_payload = FactCorrectedP c\<rparr>"
  have s': "st_facts s' = st_facts s @ [?f]" using assms(1) by (auto simp: Stream_Append_Inr_iff)
  have "ProjectPosition A s' account instrument a = ProjectPosition A s account instrument a"
    if "ao_knowledge a < knowledge (ev_coordinates e)"
    unfolding ProjectPosition_def retracted_refs_def
    by (simp add: VisibleAt_later_knowledge [OF assms(1) that] Corrections_later_knowledge [OF assms(1) that])
  moreover have "relevant s' account instrument a =
      filter (\<lambda>f. f_ref f \<noteq> fc_Corrects c) (relevant s account instrument a)"
    if "Coordinates_Visible (ev_coordinates e) a"
  proof -
    have "set (retracted_refs s' a) = insert (fc_Corrects c) (set (retracted_refs s a))"
    proof -
      have "Fact_Visible ?f a" using that by (simp add: Fact_Visible_def)
      then have "fc_Corrects c \<in> set (retracted_refs s' a)"
        unfolding set_retracted_refs s' using assms(2) by force
      then show ?thesis unfolding set_retracted_refs s' by auto
    qed
    then show ?thesis
      by (simp add: relevant_sorted s' holding_of_def filter_sort) (metis (no_types, lifting))
  qed
  ultimately show ?thesis by blast
qed

theorem retraction_effect_witness:
  "\<exists>s' r. Stream_Append sample_stream (sample_envelope 3 8) KindObservation (Some (FactCorrectedP
       \<lparr>fc_Corrects = \<lparr>fr_Stream = ''l'', fr_Sequence = 2\<rparr>, fc_Kind = CorrectionKindRetracted,
        fc_Reason = []\<rparr>)) = Inr (s', r) \<and>
     relevant s' sample_account sample_instrument \<lparr>ao_effective = Instant 9, ao_knowledge = Instant 9\<rparr> =
       [sample_fact ''l'' 1 3 4 (sample_holding 100)]"
proof -
  let ?c = "\<lparr>fc_Corrects = \<lparr>fr_Stream = ''l'', fr_Sequence = 2\<rparr>, fc_Kind = CorrectionKindRetracted,
        fc_Reason = []\<rparr>"
  let ?a = "\<lparr>ao_effective = Instant 9, ao_knowledge = Instant 9\<rparr>"
  obtain s' r where ap: "Stream_Append sample_stream (sample_envelope 3 8) KindObservation
      (Some (FactCorrectedP ?c)) = Inr (s', r)"
    by (simp add: Stream_Append_def NewFact_def sample_defs Provenance_IsZero_def FactKind_Valid_def Let_def)
  have "Coordinates_Visible (ev_coordinates (sample_envelope 3 8)) ?a"
    by (simp add: Coordinates_Visible_iff Contains_def IsOpen_def sample_defs instant_defs)
  then have "relevant s' sample_account sample_instrument ?a =
      filter (\<lambda>f. f_ref f \<noteq> fc_Corrects ?c) (relevant sample_stream sample_account sample_instrument ?a)"
    using retraction_effect [OF ap, of ?a int_apd sample_account sample_instrument] by simp
  then show ?thesis using ap unfolding sample_relevant by (auto simp: sample_fact_def)
qed

end
