(* ===== verification/Ledger_Resolve.thy ===== *)
theory Ledger_Resolve
  imports Ledger_Position
begin

text \<open>
  \<^verbatim>\<open>src/libs/ledger/domain/resolve.go\<close> and \<^verbatim>\<open>unresolved.go\<close>: which recorded mint answers a claim,
  the derivation of an observed holding from a claimed one, the payload of a new mint, and the
  claims that wait for one. Functions that canonicalise claims take the Unicode tables first.
\<close>

definition ErrUnresolved :: sentinel where
  "ErrUnresolved = ''ledger: claim does not resolve to a minted identity''"

declare ErrUnresolved_def [sentinel_defs]

definition observationMethod :: Method where
  "observationMethod =
     (case mustMethod ''ledger.DeriveHoldingObserved'' ''1'' of
        Inl _ \<Rightarrow> \<lparr>me_name = [], me_version = []\<rparr> | Inr m \<Rightarrow> m)"

definition mintMethod :: Method where
  "mintMethod =
     (case mustMethod ''ledger.MintFor'' ''1'' of
        Inl _ \<Rightarrow> \<lparr>me_name = [], me_version = []\<rparr> | Inr m \<Rightarrow> m)"

definition resolves :: "unicode \<Rightarrow> EntityMinted \<Rightarrow> Claim \<Rightarrow> Ruleset \<Rightarrow> bool" where
  "resolves uc minted claim rules \<longleftrightarrow>
     CanonicalPreimage uc rules (em_BornFrom minted) = CanonicalPreimage uc rules claim"

fun resolve_loop :: "unicode \<Rightarrow> Claim \<Rightarrow> Ruleset \<Rightarrow> 'd Fact list \<Rightarrow> (ID \<times> FactRef) result" where
  "resolve_loop uc claim rules [] = Inl [ErrUnresolved]"
| "resolve_loop uc claim rules (f # fs) =
     (case f_payload f of
        EntityMintedP minted \<Rightarrow>
          if resolves uc minted claim rules then Inr (em_Entity minted, f_ref f)
          else resolve_loop uc claim rules fs
      | _ \<Rightarrow> resolve_loop uc claim rules fs)"

definition resolveWithTrace ::
  "unicode \<Rightarrow> 'd Stream \<Rightarrow> Claim \<Rightarrow> Ruleset \<Rightarrow> AsOf \<Rightarrow> (ID \<times> FactRef) result" where
  "resolveWithTrace uc stream claim rules asOf = resolve_loop uc claim rules (VisibleAt stream asOf)"

definition Resolve :: "unicode \<Rightarrow> 'd Stream \<Rightarrow> Claim \<Rightarrow> Ruleset \<Rightarrow> AsOf \<Rightarrow> ID result" where
  "Resolve uc stream claim rules asOf =
     bindR (resolveWithTrace uc stream claim rules asOf) (\<lambda>(i, _). Inr i)"

definition DeriveHoldingObserved ::
  "unicode \<Rightarrow> 'd Stream \<Rightarrow> 'd Fact \<Rightarrow> Ruleset \<Rightarrow> AsOf \<Rightarrow> 'd HoldingObserved Value result" where
  "DeriveHoldingObserved uc stream claimedFact rules asOf =
     (case f_payload claimedFact of
        HoldingClaimedP claimed \<Rightarrow>
          bindR (resolveWithTrace uc stream (hc_Account claimed) rules asOf) (\<lambda>(account, accountRef).
          bindR (resolveWithTrace uc stream (hc_Instrument claimed) rules asOf) (\<lambda>(instrument, instrumentRef).
            FromDerivation
              \<lparr>ho_Account = account, ho_Instrument = instrument, ho_Quantity = hc_Quantity claimed\<rparr>
              observationMethod
              [FactRef_String (f_ref claimedFact), FactRef_String accountRef, FactRef_String instrumentRef]
              [\<lparr>pa_Name = ''account_claim'', pa_Value = Claim_String (hc_Account claimed)\<rparr>,
               \<lparr>pa_Name = ''instrument_claim'', pa_Value = Claim_String (hc_Instrument claimed)\<rparr>,
               \<lparr>pa_Name = ''as_of'', pa_Value = AsOf_String asOf\<rparr>,
               \<lparr>pa_Name = ''canonicalisation'', pa_Value = rs_version rules\<rparr>]
              []
              (pv_confidence (ev_provenance (f_envelope claimedFact)))))
      | _ \<Rightarrow> Inl [ErrEmptyType])"

definition MintFor ::
  "unicode \<Rightarrow> Kind \<Rightarrow> Claim \<Rightarrow> Ruleset \<Rightarrow> string list \<Rightarrow> Confidence \<Rightarrow> EntityMinted Value result" where
  "MintFor uc kind claim rules answers confidence =
     (if Claim_IsZero claim then Inl [ErrEmptyType]
      else bindR (DeriveFromClaim uc kind (Ruleset_Fold rules claim)) (\<lambda>id.
        FromDerivation \<lparr>em_Entity = id, em_BornFrom = claim\<rparr> mintMethod answers
          [\<lparr>pa_Name = ''claim'', pa_Value = Claim_String claim\<rparr>,
           \<lparr>pa_Name = ''kind'', pa_Value = Kind_String kind\<rparr>,
           \<lparr>pa_Name = ''seed'', pa_Value = CanonicalSeed uc rules claim\<rparr>,
           \<lparr>pa_Name = ''canonicalisation'', pa_Value = rs_version rules\<rparr>]
          [] confidence))"

record UnresolvedClaim =
  un_Fact :: FactRef
  un_Claim :: Claim

definition errorIs :: "'a result \<Rightarrow> sentinel \<Rightarrow> bool" where
  "errorIs r s = (case r of Inl e \<Rightarrow> errors_Is e s | Inr _ \<Rightarrow> False)"

definition unresolved_of :: "unicode \<Rightarrow> 'd Stream \<Rightarrow> Ruleset \<Rightarrow> AsOf \<Rightarrow> 'd Fact \<Rightarrow> UnresolvedClaim list" where
  "unresolved_of uc stream rules asOf f =
     (case f_payload f of
        HoldingClaimedP claimed \<Rightarrow>
          map (\<lambda>c. \<lparr>un_Fact = f_ref f, un_Claim = c\<rparr>)
            (filter (\<lambda>c. errorIs (Resolve uc stream c rules asOf) ErrUnresolved)
              [hc_Account claimed, hc_Instrument claimed])
      | _ \<Rightarrow> [])"

definition Unresolved :: "unicode \<Rightarrow> 'd Stream \<Rightarrow> Ruleset \<Rightarrow> AsOf \<Rightarrow> UnresolvedClaim list" where
  "Unresolved uc stream rules asOf =
     concat (map (unresolved_of uc stream rules asOf) (VisibleAt stream asOf))"

section \<open>Which mint answers\<close>

lemma observationMethod_named: "me_name observationMethod \<noteq> []"
  by (simp add: observationMethod_def mustMethod_def NewMethod_def ascii_eval)

lemma mintMethod_named: "me_name mintMethod \<noteq> []"
  by (simp add: mintMethod_def mustMethod_def NewMethod_def ascii_eval)

text \<open>The mint facts that answer a claim, in the order resolution looks at them.\<close>

definition answers_claim :: "unicode \<Rightarrow> Claim \<Rightarrow> Ruleset \<Rightarrow> 'd Fact \<Rightarrow> bool" where
  "answers_claim uc claim rules f \<longleftrightarrow>
     (\<exists>m. f_payload f = EntityMintedP m \<and> resolves uc m claim rules)"

definition minted_of :: "'d Fact \<Rightarrow> ID" where
  "minted_of f = (case f_payload f of EntityMintedP m \<Rightarrow> em_Entity m | _ \<Rightarrow> zeroID)"

lemma resolve_loop_eq:
  "resolve_loop uc c rs fs =
     (case find (answers_claim uc c rs) fs of
        None \<Rightarrow> Inl [ErrUnresolved] | Some f \<Rightarrow> Inr (minted_of f, f_ref f))"
  by (induction fs) (auto simp: answers_claim_def minted_of_def split: Payload.splits)

lemma resolveWithTrace_eq:
  "resolveWithTrace uc s c rs a =
     (case find (answers_claim uc c rs) (VisibleAt s a) of
        None \<Rightarrow> Inl [ErrUnresolved] | Some f \<Rightarrow> Inr (minted_of f, f_ref f))"
  by (simp add: resolveWithTrace_def resolve_loop_eq)

lemma resolveWithTrace_Inl: "resolveWithTrace uc s c rs a = Inl e \<Longrightarrow> e = [ErrUnresolved]"
  by (auto simp: resolveWithTrace_eq split: option.splits)

lemma Resolve_eq:
  "Resolve uc s c rs a =
     (case find (answers_claim uc c rs) (VisibleAt s a) of
        None \<Rightarrow> Inl [ErrUnresolved] | Some f \<Rightarrow> Inr (minted_of f))"
  by (simp add: Resolve_def resolveWithTrace_eq split: option.splits)

lemma find_Some_in: "find P xs = Some x \<Longrightarrow> x \<in> set xs \<and> P x"
  by (auto simp: find_Some_iff)

lemma Resolve_Inl: "Resolve uc s c rs a = Inl e \<Longrightarrow> e = [ErrUnresolved]"
  by (auto simp: Resolve_eq split: option.splits)

lemma Resolve_Inr:
  "Resolve uc s c rs a = Inr i \<Longrightarrow>
   \<exists>f. find (answers_claim uc c rs) (VisibleAt s a) = Some f \<and> minted_of f = i"
  by (auto simp: Resolve_eq split: option.splits)

lemma Resolve_Inl_iff:
  "Resolve uc s c rs a = Inl [ErrUnresolved] \<longleftrightarrow>
     (\<forall>f \<in> set (st_facts s). Fact_Visible f a \<longrightarrow> \<not> answers_claim uc c rs f)"
proof (cases "find (answers_claim uc c rs) (VisibleAt s a)")
  case None
  then have "\<forall>f \<in> set (VisibleAt s a). \<not> answers_claim uc c rs f" by (auto simp: find_None_iff)
  then show ?thesis by (auto simp: Resolve_eq None set_VisibleAt)
next
  case (Some f)
  with find_Some_in [OF Some] show ?thesis by (auto simp: Resolve_eq set_VisibleAt)
qed

lemma errorIs_Resolve: "errorIs (Resolve uc s c rs a) ErrUnresolved \<longleftrightarrow> Resolve uc s c rs a = Inl [ErrUnresolved]"
  using Resolve_Inl by (auto simp: errorIs_def errors_Is_def split: sum.splits)

lemma resolveWithTrace_later:
  assumes "Stream_Append s e k p = Inr (s', r)" "ao_knowledge a < knowledge (ev_coordinates e)"
  shows "resolveWithTrace uc s' c rs a = resolveWithTrace uc s c rs a"
  by (simp add: resolveWithTrace_def VisibleAt_later_knowledge [OF assms])

lemma Resolve_later:
  assumes "Stream_Append s e k p = Inr (s', r)" "ao_knowledge a < knowledge (ev_coordinates e)"
  shows "Resolve uc s' c rs a = Resolve uc s c rs a"
  by (simp add: Resolve_def resolveWithTrace_later [OF assms])

lemma answers_same_preimage:
  "CanonicalPreimage uc rs c = CanonicalPreimage uc rs c' \<Longrightarrow> answers_claim uc c rs = answers_claim uc c' rs"
  by (auto simp: answers_claim_def resolves_def)

lemma find_sort_key_first:
  fixes k :: "'a \<Rightarrow> 'b::linorder"
  assumes "find P (sort_key k xs) = Some x" "y \<in> set xs" "P y"
  shows "k x \<le> k y"
proof -
  obtain i where i: "i < length (sort_key k xs)" "sort_key k xs ! i = x" "\<forall>j<i. \<not> P (sort_key k xs ! j)"
    using assms(1) by (auto simp: find_Some_iff)
  obtain j where j: "j < length (sort_key k xs)" "sort_key k xs ! j = y"
    using assms(2) by (metis in_set_conv_nth set_sort)
  have "i \<le> j" using i(3) j assms(3) by (metis not_le)
  then have "map k (sort_key k xs) ! i \<le> map k (sort_key k xs) ! j"
    using j(1) by (intro sorted_nth_mono) simp_all
  with i j \<open>i \<le> j\<close> show ?thesis by simp
qed

lemma MintFor_Inr_iff:
  "MintFor uc k c rs ans conf = Inr v \<longleftrightarrow>
     cl_scheme c \<noteq> [] \<and> em_BornFrom (v_value v) = c \<and>
     DeriveFromClaim uc k (Ruleset_Fold rs c) = Inr (em_Entity (v_value v)) \<and>
     NewDerivation mintMethod ans
       [\<lparr>pa_Name = ''claim'', pa_Value = Claim_String c\<rparr>,
        \<lparr>pa_Name = ''kind'', pa_Value = Kind_String k\<rparr>,
        \<lparr>pa_Name = ''seed'', pa_Value = CanonicalSeed uc rs c\<rparr>,
        \<lparr>pa_Name = ''canonicalisation'', pa_Value = rs_version rs\<rparr>] [] conf = Inr (v_record v) \<and>
     v_trace v = DerivationRecord_Ref (v_record v)"
  by (cases "v_value v") (auto simp: MintFor_def Claim_IsZero_def FromDerivation_Inr_iff)

lemma DeriveHoldingObserved_ok_iff:
  assumes "Confidence_Valid (pv_confidence (ev_provenance (f_envelope f)))" "f_payload f = HoldingClaimedP h"
  shows "is_ok (DeriveHoldingObserved uc s f rs a) \<longleftrightarrow>
    is_ok (resolveWithTrace uc s (hc_Account h) rs a) \<and> is_ok (resolveWithTrace uc s (hc_Instrument h) rs a)"
proof -
  have "is_ok (FromDerivation x observationMethod ins ps [] (pv_confidence (ev_provenance (f_envelope f))))"
    for x :: "'a HoldingObserved" and ins ps
    using NewDerivation_total [OF observationMethod_named assms(1), of ins ps "[]"]
    by (auto simp: FromDerivation_def)
  then show ?thesis
    by (cases "resolveWithTrace uc s (hc_Account h) rs a"; cases "resolveWithTrace uc s (hc_Instrument h) rs a")
       (auto simp: DeriveHoldingObserved_def assms(2))
qed

lemma resolveWithTrace_ok_iff:
  "is_ok (resolveWithTrace uc s c rs a) \<longleftrightarrow> Resolve uc s c rs a \<noteq> Inl [ErrUnresolved]"
  by (simp add: resolveWithTrace_eq Resolve_eq split: option.splits)

lemma Unresolved_iff:
  "u \<in> set (Unresolved uc s rs a) \<longleftrightarrow>
     (\<exists>f h. f \<in> set (VisibleAt s a) \<and> f_payload f = HoldingClaimedP h \<and> un_Fact u = f_ref f \<and>
        (un_Claim u = hc_Account h \<or> un_Claim u = hc_Instrument h) \<and>
        Resolve uc s (un_Claim u) rs a = Inl [ErrUnresolved])"
proof -
  have "u \<in> set (unresolved_of uc s rs a f) \<longleftrightarrow> (\<exists>h. f_payload f = HoldingClaimedP h \<and> un_Fact u = f_ref f \<and>
        (un_Claim u = hc_Account h \<or> un_Claim u = hc_Instrument h) \<and>
        Resolve uc s (un_Claim u) rs a = Inl [ErrUnresolved])" for f
    by (cases u; cases "f_payload f") (auto simp: unresolved_of_def errorIs_Resolve)
  then show ?thesis by (auto simp: Unresolved_def)
qed

lemma wf_stream_ref_inj:
  assumes "wf_stream s" "f \<in> set (st_facts s)" "g \<in> set (st_facts s)" "f_ref f = f_ref g"
  shows "f = g"
  using wf_stream_distinct_seq [OF assms(1)] assms(2-4) by (simp add: distinct_map inj_on_def)

lemma appended_mint_resolves:
  assumes "st_facts s' = st_facts s @ [f]" "f_payload f = EntityMintedP m" "em_BornFrom m = c" "Fact_Visible f a"
    and "Resolve uc s c rs a = Inl [ErrUnresolved]" "CanonicalPreimage uc rs c' = CanonicalPreimage uc rs c"
  shows "Resolve uc s' c' rs a = Inr (em_Entity m)"
proof -
  have ans: "answers_claim uc c' rs f" using assms(2,3,6) by (simp add: answers_claim_def resolves_def)
  have only: "\<not> answers_claim uc c' rs g" if "g \<in> set (st_facts s)" "Fact_Visible g a" for g
    using that assms(5) unfolding Resolve_Inl_iff answers_same_preimage [OF assms(6)] by blast
  obtain i where i: "Resolve uc s' c' rs a = Inr i"
    using Resolve_Inl_iff [of uc s' c' rs a] Resolve_Inl [of uc s' c' rs a] assms(4) ans assms(1)
    by (cases "Resolve uc s' c' rs a") auto
  then obtain g where g: "g \<in> set (st_facts s')" "Fact_Visible g a" "answers_claim uc c' rs g" "minted_of g = i"
    using Resolve_Inr [OF i] find_Some_in by (metis (no_types, lifting) mem_Collect_eq set_VisibleAt)
  then have "g = f" using only assms(1) by auto
  with g(4) i show ?thesis by (simp add: minted_of_def assms(2))
qed

section \<open>Properties\<close>

text \<open>C26: resolution reads the first matching mint. \<open>Resolve\<close> answers with the entity of a visible
  mint whose birth claim has the claim's canonical pre-image, and no visible matching mint comes
  before it in (effective from, knowledge, sequence) order; it fails, with \<open>ErrUnresolved\<close>,
  exactly when no visible mint matches.\<close>

theorem resolve_first_mint:
  "(Resolve uc s c rs a = Inr i \<longrightarrow>
     (\<exists>f \<in> set (st_facts s). Fact_Visible f a \<and> answers_claim uc c rs f \<and> minted_of f = i \<and>
        (\<forall>g \<in> set (st_facts s). Fact_Visible g a \<and> answers_claim uc c rs g \<longrightarrow>
           visible_key f \<le> visible_key g))) \<and>
   (Resolve uc s c rs a = Inl e \<longleftrightarrow> e = [ErrUnresolved] \<and>
     (\<forall>f \<in> set (st_facts s). Fact_Visible f a \<longrightarrow> \<not> answers_claim uc c rs f))"
proof -
  have "\<exists>f \<in> set (st_facts s). Fact_Visible f a \<and> answers_claim uc c rs f \<and> minted_of f = i \<and>
        (\<forall>g \<in> set (st_facts s). Fact_Visible g a \<and> answers_claim uc c rs g \<longrightarrow> visible_key f \<le> visible_key g)"
    if res: "Resolve uc s c rs a = Inr i"
  proof -
    obtain f where f: "find (answers_claim uc c rs) (VisibleAt s a) = Some f" "minted_of f = i"
      using Resolve_Inr [OF res] by blast
    then have "f \<in> set (VisibleAt s a)" "answers_claim uc c rs f" by (simp_all add: find_Some_in)
    moreover have "visible_key f \<le> visible_key g"
      if "g \<in> set (st_facts s)" "Fact_Visible g a" "answers_claim uc c rs g" for g
      using find_sort_key_first [OF f(1) [unfolded VisibleAt_def], of g] that by simp
    ultimately show ?thesis using f(2) by (auto simp: set_VisibleAt)
  qed
  moreover have "Resolve uc s c rs a = Inl e \<longleftrightarrow> e = [ErrUnresolved] \<and>
     (\<forall>f \<in> set (st_facts s). Fact_Visible f a \<longrightarrow> \<not> answers_claim uc c rs f)"
    using Resolve_Inl [of uc s c rs a e] Resolve_Inl_iff [of uc s c rs a] by blast
  ultimately show ?thesis by blast
qed

text \<open>What is minted resolves. When nothing visible answers a claim and the mint that \<open>MintFor\<close>
  builds for it is appended, then at every coordinate that sees the new fact, and at which
  nothing answered before, the claim, and every claim with the same canonical pre-image, resolves
  to the minted entity.\<close>

theorem mint_then_resolve:
  assumes "MintFor uc k c rs ans conf = Inr v"
    and "Stream_Append s e kd (Some (EntityMintedP (v_value v))) = Inr (s', r)"
    and "Coordinates_Visible (ev_coordinates e) a"
    and "Resolve uc s c rs a = Inl err"
    and "CanonicalPreimage uc rs c' = CanonicalPreimage uc rs c"
  shows "Resolve uc s' c' rs a = Inr (em_Entity (v_value v)) \<and>
    DeriveFromClaim uc k (Ruleset_Fold rs c) = Inr (em_Entity (v_value v))"
proof -
  have "em_BornFrom (v_value v) = c" "DeriveFromClaim uc k (Ruleset_Fold rs c) = Inr (em_Entity (v_value v))"
    using assms(1) by (simp_all add: MintFor_Inr_iff)
  moreover have "st_facts s' = st_facts s @ [\<lparr>f_ref = r, f_envelope = e, f_kind = kd, f_payload = EntityMintedP (v_value v)\<rparr>]"
    using assms(2) by (auto simp: Stream_Append_Inr_iff)
  moreover have "Resolve uc s c rs a = Inl [ErrUnresolved]" using assms(4) Resolve_Inl by blast
  ultimately show ?thesis
    using appended_mint_resolves [of s' s _ "v_value v" c a uc rs c'] assms(3,5) by (simp add: Fact_Visible_def)
qed

text \<open>A holding is observed exactly as far as its claims resolve. \<open>DeriveHoldingObserved\<close> on a
  claim fact with a valid confidence succeeds exactly when both claims resolve; the observation
  has the resolved identities and the claimed quantity, and its derivation names the claim fact
  and the two mint facts, at the claim's confidence. Otherwise the error is \<open>ErrUnresolved\<close>, or
  \<open>ErrEmptyType\<close> for a fact that is no claim.\<close>

theorem derive_holding_spec:
  assumes "Confidence_Valid (pv_confidence (ev_provenance (f_envelope f)))"
  shows "(\<forall>h. f_payload f = HoldingClaimedP h \<longrightarrow>
      (case (resolveWithTrace uc s (hc_Account h) rs a, resolveWithTrace uc s (hc_Instrument h) rs a) of
         (Inr (acc, aref), Inr (ins, iref)) \<Rightarrow>
           (\<exists>v. DeriveHoldingObserved uc s f rs a = Inr v \<and> wf_value v \<and>
              v_value v = \<lparr>ho_Account = acc, ho_Instrument = ins, ho_Quantity = hc_Quantity h\<rparr> \<and>
              dr_inputs (v_record v) =
                [FactRef_String (f_ref f), FactRef_String aref, FactRef_String iref] \<and>
              Value_Confidence v = pv_confidence (ev_provenance (f_envelope f)))
       | _ \<Rightarrow> DeriveHoldingObserved uc s f rs a = Inl [ErrUnresolved])) \<and>
    ((\<nexists>h. f_payload f = HoldingClaimedP h) \<longrightarrow> DeriveHoldingObserved uc s f rs a = Inl [ErrEmptyType])"
proof -
  have "\<exists>v. FromDerivation x observationMethod ins ps [] (pv_confidence (ev_provenance (f_envelope f))) = Inr v \<and>
      wf_value v \<and> v_value v = x \<and> dr_inputs (v_record v) = ins \<and>
      Value_Confidence v = pv_confidence (ev_provenance (f_envelope f))"
    for x :: "'a HoldingObserved" and ins ps
  proof -
    obtain r where r: "NewDerivation observationMethod ins ps [] (pv_confidence (ev_provenance (f_envelope f))) = Inr r"
      using NewDerivation_total [OF observationMethod_named assms] by blast
    then have "dr_inputs r = ins" "dr_confidence r = pv_confidence (ev_provenance (f_envelope f))"
      by (simp_all add: NewDerivation_Inr_iff)
    with r show ?thesis by (simp add: FromDerivation_def NewDerivation_value_wf Value_Confidence_def)
  qed
  then show ?thesis
    by (auto simp: DeriveHoldingObserved_def dest: resolveWithTrace_Inl split: sum.splits Payload.splits)
qed

text \<open>C27: the waiting list is exact. A claim is listed as unresolved for a fact exactly when the
  fact is a visible holding claim naming it and no visible mint answers it; on a well-formed
  stream a visible claim fact is absent from the list exactly when \<open>DeriveHoldingObserved\<close>
  succeeds on it.\<close>

theorem unresolved_exact:
  "(\<lparr>un_Fact = r, un_Claim = c\<rparr> \<in> set (Unresolved uc s rs a) \<longleftrightarrow>
     (\<exists>f h. f \<in> set (st_facts s) \<and> Fact_Visible f a \<and> f_ref f = r \<and> f_payload f = HoldingClaimedP h \<and>
        (c = hc_Account h \<or> c = hc_Instrument h) \<and>
        (\<forall>g \<in> set (st_facts s). Fact_Visible g a \<longrightarrow> \<not> answers_claim uc c rs g))) \<and>
   (wf_stream s \<and> f \<in> set (VisibleAt s a) \<and> f_payload f = HoldingClaimedP h \<longrightarrow>
     ((\<forall>u \<in> set (Unresolved uc s rs a). un_Fact u \<noteq> f_ref f) \<longleftrightarrow>
      is_ok (DeriveHoldingObserved uc s f rs a)))"
proof -
  have "(\<forall>u \<in> set (Unresolved uc s rs a). un_Fact u \<noteq> f_ref f) \<longleftrightarrow>
      is_ok (DeriveHoldingObserved uc s f rs a)"
    if wf: "wf_stream s" and f: "f \<in> set (VisibleAt s a)" and h: "f_payload f = HoldingClaimedP h"
  proof -
    have "Confidence_Valid (pv_confidence (ev_provenance (f_envelope f)))"
      using wf_fact_confidence VisibleAt_wf [OF wf f] by blast
    note ok = DeriveHoldingObserved_ok_iff [OF this h, unfolded resolveWithTrace_ok_iff]
    have "\<exists>u \<in> set (Unresolved uc s rs a). un_Fact u = f_ref f"
      if "Resolve uc s c rs a = Inl [ErrUnresolved]" "c = hc_Account h \<or> c = hc_Instrument h" for c
      using that f h by (intro bexI [of _ "\<lparr>un_Fact = f_ref f, un_Claim = c\<rparr>"]) (auto simp: Unresolved_iff)
    moreover have "g = f" if "g \<in> set (VisibleAt s a)" "f_ref g = f_ref f" for g
      using wf_stream_ref_inj [OF wf] that f by (auto simp: set_VisibleAt)
    ultimately show ?thesis unfolding ok using h by (fastforce simp: Unresolved_iff)
  qed
  moreover have "\<lparr>un_Fact = r, un_Claim = c\<rparr> \<in> set (Unresolved uc s rs a) \<longleftrightarrow>
     (\<exists>f h. f \<in> set (st_facts s) \<and> Fact_Visible f a \<and> f_ref f = r \<and> f_payload f = HoldingClaimedP h \<and>
        (c = hc_Account h \<or> c = hc_Instrument h) \<and>
        (\<forall>g \<in> set (st_facts s). Fact_Visible g a \<longrightarrow> \<not> answers_claim uc c rs g))"
    unfolding Unresolved_iff Resolve_Inl_iff set_VisibleAt by auto
  ultimately show ?thesis by blast
qed

lemma find_filter: "find P xs = (case filter P xs of [] \<Rightarrow> None | x # _ \<Rightarrow> Some x)"
  by (induction xs) auto

lemma find_sort_key_irrelevant:
  "\<not> P y \<Longrightarrow> find P (sort_key k (filter Q (xs @ [y]))) = find P (sort_key k (filter Q xs))"
  by (simp add: find_filter filter_sort)

text \<open>Only mints decide resolution. Appending a fact that is not a mint, a retraction of the
  answering mint included, changes the resolution of no claim at any coordinate.\<close>

theorem resolve_ignores_corrections:
  assumes "Stream_Append s e k (Some (FactCorrectedP c)) = Inr (s', r)"
  shows "Resolve uc s' claim rs a = Resolve uc s claim rs a"
proof -
  let ?f = "\<lparr>f_ref = r, f_envelope = e, f_kind = k, f_payload = FactCorrectedP c\<rparr>"
  have s': "st_facts s' = st_facts s @ [?f]" using assms by (auto simp: Stream_Append_Inr_iff)
  have "\<not> answers_claim uc claim rs ?f" by (simp add: answers_claim_def)
  then show ?thesis
    unfolding Resolve_eq VisibleAt_def s' by (subst find_sort_key_irrelevant) simp_all
qed

text \<open>Two mints of one identity. A mint whose effective interval begins at an instant leaves
  the claim unresolved at every earlier effective time, where \<open>MintFor\<close> builds a second mint of
  the very same entity: the stream can come to hold two mints of one identifier.\<close>

theorem earlier_effective_mint_duplicates:
  assumes "MintFor uc k c rs ans conf = Inr v"
    and "Stream_Append s e kd (Some (EntityMintedP (v_value v))) = Inr (s', r)"
    and "Resolve uc s c rs a = Inl [ErrUnresolved]"
    and "ao_effective a < iv_from (effective (ev_coordinates e))"
  shows "Resolve uc s' c rs a = Inl [ErrUnresolved] \<and>
    (\<forall>ans' v'. MintFor uc k c rs ans' conf = Inr v' \<longrightarrow> em_Entity (v_value v') = em_Entity (v_value v))"
proof -
  let ?f = "\<lparr>f_ref = r, f_envelope = e, f_kind = kd, f_payload = EntityMintedP (v_value v)\<rparr>"
  have s': "st_facts s' = st_facts s @ [?f]" using assms(2) by (auto simp: Stream_Append_Inr_iff)
  have "\<not> Fact_Visible ?f a" using assms(4) by (simp add: Fact_Visible_iff Contains_def)
  then have "Resolve uc s' c rs a = Inl [ErrUnresolved]"
    using assms(3) unfolding Resolve_Inl_iff s' by auto
  with assms(1) show ?thesis by (auto simp: MintFor_Inr_iff)
qed

section \<open>Witnesses\<close>

definition sample_claim :: Claim where
  "sample_claim = \<lparr>cl_scheme = ''iban'', cl_value = ''x''\<rparr>"

definition sample_entity :: ID where
  "sample_entity = \<lparr>id_kind = KindAccount, id_value = ''i''\<rparr>"

definition sample_claimed :: "int Payload" where
  "sample_claimed = HoldingClaimedP \<lparr>hc_Account = sample_claim, hc_Instrument = sample_claim,
     hc_Quantity = \<lparr>q_amount = 7, q_unit = ''share''\<rparr>\<rparr>"

definition sample_asof :: AsOf where
  "sample_asof = \<lparr>ao_effective = Instant 9, ao_knowledge = Instant 9\<rparr>"

definition minted_stream :: "int Stream" where
  "minted_stream = \<lparr>st_name = ''l'', st_facts =
     [sample_fact ''l'' 1 3 4 sample_payload, sample_fact ''l'' 2 3 6 sample_claimed]\<rparr>"

definition waiting_stream :: "int Stream" where
  "waiting_stream = \<lparr>st_name = ''l'', st_facts = [sample_fact ''l'' 1 3 4 sample_claimed]\<rparr>"

lemmas resolve_eval =
  VisibleAt_def Fact_Visible_iff Contains_def IsOpen_def instant_defs visible_key_def
  sample_provenance_def sample_envelope_def sample_fact_def sample_payload_def sample_claimed_def
  sample_claim_def sample_asof_def

lemma sample_wf_claim: "wf_claim unicode_ascii sample_claim"
  by (simp add: sample_claim_def claim_eval ascii_eval)

lemma minted_stream_wf: "wf_stream minted_stream"
  by (simp add: minted_stream_def wf_stream_def wf_fact_def sample_fact_def sample_envelope_wf
      FactKind_Valid_def less_Suc_eq)

lemma waiting_stream_wf: "wf_stream waiting_stream"
  by (simp add: waiting_stream_def wf_stream_def wf_fact_def sample_fact_def sample_envelope_wf
      FactKind_Valid_def less_Suc_eq)

lemma minted_visible:
  "VisibleAt minted_stream sample_asof =
     [sample_fact ''l'' 1 3 4 sample_payload, sample_fact ''l'' 2 3 6 sample_claimed]"
  by (simp add: minted_stream_def resolve_eval)

lemma waiting_visible: "VisibleAt waiting_stream sample_asof = [sample_fact ''l'' 1 3 4 sample_claimed]"
  by (simp add: waiting_stream_def resolve_eval)

lemma minted_resolves:
  "resolveWithTrace uc minted_stream sample_claim rs sample_asof =
     Inr (sample_entity, \<lparr>fr_Stream = ''l'', fr_Sequence = 1\<rparr>)"
  by (simp add: resolveWithTrace_def minted_visible sample_fact_def sample_payload_def resolves_def
      sample_claim_def sample_entity_def)

theorem resolve_first_mint_witness:
  "\<exists>f \<in> set (st_facts minted_stream). Fact_Visible f sample_asof \<and> minted_of f = sample_entity"
proof -
  have "Resolve unicode_ascii minted_stream sample_claim shipped_ruleset sample_asof = Inr sample_entity"
    by (simp add: Resolve_def minted_resolves)
  then show ?thesis
    using resolve_first_mint [of unicode_ascii minted_stream sample_claim shipped_ruleset sample_asof sample_entity]
    by blast
qed

lemma sample_mint:
  "\<exists>v. MintFor unicode_ascii KindAccount sample_claim shipped_ruleset [] ConfidenceDerived = Inr v"
proof -
  obtain i where i: "DeriveFromClaim unicode_ascii KindAccount (Ruleset_Fold shipped_ruleset sample_claim) = Inr i"
    using DeriveFromClaim_wf [OF wf_claim_Fold [OF sample_wf_claim], of KindAccount shipped_ruleset]
    by (auto simp: Kind_Valid_def KindInstrument_def KindLedgerStream_def KindAccount_def)
  have "Confidence_Valid ConfidenceDerived" by (simp add: Confidence_Valid_def enum_defs)
  from NewDerivation_total [OF mintMethod_named this] i show ?thesis
    unfolding MintFor_def FromDerivation_def by (auto simp: Claim_IsZero_def sample_claim_def)
qed

lemma waiting_unresolved:
  "Resolve unicode_ascii waiting_stream sample_claim shipped_ruleset sample_asof = Inl [ErrUnresolved]"
  by (simp add: Resolve_def resolveWithTrace_def waiting_visible sample_fact_def sample_claimed_def)

theorem mint_then_resolve_witness:
  "\<exists>v s' r. MintFor unicode_ascii KindAccount sample_claim shipped_ruleset [] ConfidenceDerived = Inr v \<and>
     Stream_Append waiting_stream (sample_envelope 3 6) KindObservation
       (Some (EntityMintedP (v_value v))) = Inr (s', r) \<and>
     Resolve unicode_ascii s' sample_claim shipped_ruleset sample_asof = Inr (em_Entity (v_value v))"
proof -
  obtain v where v: "MintFor unicode_ascii KindAccount sample_claim shipped_ruleset [] ConfidenceDerived = Inr v"
    using sample_mint by blast
  obtain s' r where ap: "Stream_Append waiting_stream (sample_envelope 3 6) KindObservation
       (Some (EntityMintedP (v_value v))) = Inr (s', r)"
    by (simp add: Stream_Append_def NewFact_def sample_defs Provenance_IsZero_def FactKind_Valid_def Let_def)
  have "Coordinates_Visible (ev_coordinates (sample_envelope 3 6)) sample_asof"
    by (simp add: Coordinates_Visible_iff resolve_eval)
  then show ?thesis using mint_then_resolve [OF v ap _ waiting_unresolved] v ap by blast
qed

theorem derive_holding_spec_witness:
  "\<exists>v. DeriveHoldingObserved unicode_ascii minted_stream (sample_fact ''l'' 2 3 6 sample_claimed)
       shipped_ruleset sample_asof = Inr v \<and>
     ho_Account (v_value v) = sample_entity \<and> q_amount (ho_Quantity (v_value v)) = 7"
proof -
  have "Confidence_Valid (pv_confidence (ev_provenance (f_envelope (sample_fact ''l'' 2 3 6 sample_claimed))))"
    by (simp add: sample_defs Confidence_Valid_def enum_defs)
  from derive_holding_spec [OF this, of unicode_ascii minted_stream shipped_ruleset sample_asof] show ?thesis
    by (auto simp: sample_fact_def sample_claimed_def minted_resolves)
qed

theorem unresolved_exact_witness:
  "(\<forall>u \<in> set (Unresolved unicode_ascii minted_stream shipped_ruleset sample_asof). un_Fact u \<noteq> \<lparr>fr_Stream = ''l'', fr_Sequence = 2\<rparr>) \<longleftrightarrow>
   is_ok (DeriveHoldingObserved unicode_ascii minted_stream (sample_fact ''l'' 2 3 6 sample_claimed)
       shipped_ruleset sample_asof)"
  using unresolved_exact [of _ _ unicode_ascii minted_stream shipped_ruleset sample_asof "sample_fact ''l'' 2 3 6 sample_claimed"]
    minted_stream_wf minted_visible
  by (auto simp: sample_fact_def sample_claimed_def)

theorem resolve_ignores_corrections_witness:
  "\<exists>s' r. Stream_Append minted_stream (sample_envelope 3 8) KindObservation (Some (FactCorrectedP
       \<lparr>fc_Corrects = \<lparr>fr_Stream = ''l'', fr_Sequence = 1\<rparr>, fc_Kind = CorrectionKindRetracted,
        fc_Reason = []\<rparr>)) = Inr (s', r) \<and>
     Resolve unicode_ascii s' sample_claim shipped_ruleset sample_asof = Inr sample_entity"
proof -
  obtain s' r where ap: "Stream_Append minted_stream (sample_envelope 3 8) KindObservation (Some (FactCorrectedP
       \<lparr>fc_Corrects = \<lparr>fr_Stream = ''l'', fr_Sequence = 1\<rparr>, fc_Kind = CorrectionKindRetracted,
        fc_Reason = []\<rparr>)) = Inr (s', r)"
    by (simp add: Stream_Append_def NewFact_def sample_defs Provenance_IsZero_def FactKind_Valid_def Let_def)
  have "Resolve unicode_ascii s' sample_claim shipped_ruleset sample_asof =
      Resolve unicode_ascii minted_stream sample_claim shipped_ruleset sample_asof"
    by (rule resolve_ignores_corrections [OF ap])
  then have "Resolve unicode_ascii s' sample_claim shipped_ruleset sample_asof = Inr sample_entity"
    by (simp add: Resolve_def [of _ minted_stream] minted_resolves)
  with ap show ?thesis by blast
qed

text \<open>The confidence of an observed holding is the claim's alone. A holding derived through a
  disputed mint is recorded as asserted: the mint's confidence does not enter.\<close>

theorem derived_holding_ignores_mint_confidence:
  "\<exists>s m f v. f \<in> set (VisibleAt s sample_asof) \<and> m \<in> set (VisibleAt s sample_asof) \<and>
     pv_confidence (ev_provenance (f_envelope m)) = ConfidenceDisputed \<and>
     DeriveHoldingObserved uc s f rs sample_asof = Inr (v :: int HoldingObserved Value) \<and>
     FactRef_String (f_ref m) \<in> set (dr_inputs (v_record v)) \<and> Value_Confidence v = ConfidenceAsserted"
proof -
  define m where "m = (sample_fact ''l'' 1 3 4 (sample_payload :: int Payload))\<lparr>f_envelope := (sample_envelope 3 4)
      \<lparr>ev_provenance := sample_provenance\<lparr>pv_confidence := ConfidenceDisputed\<rparr>\<rparr>\<rparr>"
  define f where "f = sample_fact ''l'' 2 3 6 sample_claimed"
  define s where "s = \<lparr>st_name = ''l'', st_facts = [m, f]\<rparr>"
  define mref where "mref = FactRef_String (f_ref m)"
  have vis: "VisibleAt s sample_asof = [m, f]" by (simp add: s_def m_def f_def resolve_eval)
  have fp: "f_payload f = HoldingClaimedP \<lparr>hc_Account = sample_claim, hc_Instrument = sample_claim,
      hc_Quantity = \<lparr>q_amount = 7, q_unit = ''share''\<rparr>\<rparr>"
    and fc: "pv_confidence (ev_provenance (f_envelope f)) = ConfidenceAsserted"
    and mc: "pv_confidence (ev_provenance (f_envelope m)) = ConfidenceDisputed"
    by (simp_all add: f_def m_def sample_defs sample_claimed_def)
  have res: "resolveWithTrace uc s sample_claim rs sample_asof = Inr (sample_entity, f_ref m)"
    unfolding resolveWithTrace_def vis
    by (simp add: m_def sample_fact_def sample_payload_def resolves_def sample_claim_def sample_entity_def)
  have "Confidence_Valid ConfidenceAsserted" by (simp add: Confidence_Valid_def enum_defs)
  from NewDerivation_total [OF observationMethod_named this] obtain r where
    r: "NewDerivation observationMethod [FactRef_String (f_ref f), mref, mref]
      [\<lparr>pa_Name = ''account_claim'', pa_Value = Claim_String sample_claim\<rparr>,
       \<lparr>pa_Name = ''instrument_claim'', pa_Value = Claim_String sample_claim\<rparr>,
       \<lparr>pa_Name = ''as_of'', pa_Value = AsOf_String sample_asof\<rparr>,
       \<lparr>pa_Name = ''canonicalisation'', pa_Value = rs_version rs\<rparr>] [] ConfidenceAsserted = Inr r"
    by blast
  then have rec: "dr_inputs r = [FactRef_String (f_ref f), mref, mref]" "dr_confidence r = ConfidenceAsserted"
    by (simp_all add: NewDerivation_Inr_iff)
  let ?v = "\<lparr>v_value = \<lparr>ho_Account = sample_entity, ho_Instrument = sample_entity,
      ho_Quantity = \<lparr>q_amount = 7, q_unit = ''share''\<rparr>\<rparr>, v_trace = DerivationRecord_Ref r, v_record = r\<rparr>"
  have "DeriveHoldingObserved uc s f rs sample_asof = Inr ?v"
    using r by (simp add: DeriveHoldingObserved_def fp res fc FromDerivation_def mref_def)
  then show ?thesis
    using vis mc rec
    by (intro exI [of _ s] exI [of _ m] exI [of _ f] exI [of _ ?v]) (simp add: Value_Confidence_def mref_def)
qed

theorem earlier_effective_mint_duplicates_witness:
  "\<exists>v s' r. MintFor unicode_ascii KindAccount sample_claim shipped_ruleset [] ConfidenceDerived = Inr v \<and>
     Stream_Append waiting_stream (sample_envelope 100 6) KindOccurrence
       (Some (EntityMintedP (v_value v))) = Inr (s', r) \<and>
     Resolve unicode_ascii s' sample_claim shipped_ruleset sample_asof = Inl [ErrUnresolved]"
proof -
  obtain v where v: "MintFor unicode_ascii KindAccount sample_claim shipped_ruleset [] ConfidenceDerived = Inr v"
    using sample_mint by blast
  obtain s' r where ap: "Stream_Append waiting_stream (sample_envelope 100 6) KindOccurrence
       (Some (EntityMintedP (v_value v))) = Inr (s', r)"
    by (simp add: Stream_Append_def NewFact_def sample_defs Provenance_IsZero_def FactKind_Valid_def Let_def)
  have "ao_effective sample_asof < iv_from (effective (ev_coordinates (sample_envelope 100 6)))"
    by (simp add: sample_asof_def sample_defs instant_defs)
  with earlier_effective_mint_duplicates [OF v ap waiting_unresolved] v ap show ?thesis by blast
qed

end
