(* ===== verification/Ledger_App.thy ===== *)
theory Ledger_App
  imports Ledger_Resolve
begin

text \<open>
  \<^verbatim>\<open>src/libs/ledger/app\<close>: the ports (\<^verbatim>\<open>ports.go\<close>) and the use cases (\<^verbatim>\<open>usecases.go\<close>) of the ledger.

  A Go interface value is a record of operations. \<open>Store\<close> is the store port and \<open>Region\<close> the
  store that \<^verbatim>\<open>Serialise\<close> passes to its function; \<open>Clock\<close> is the clock port. The operations act on
  the store's state \<open>'s\<close> and the clock's state \<open>'k\<close>, which the use cases thread in the order of
  the calls; a panic inside a call is the error \<open>[Panic]\<close>. \<^verbatim>\<open>context.Context\<close> carries no value
  the code reads and is left out.

  The locale \<open>store_contract\<close> states what the application relies on of a store, in the words of
  the port's comments: \<^verbatim>\<open>Load\<close> answers with the stream or \<open>ErrStreamNotFound\<close> (a store may refuse the
  empty name as \<^verbatim>\<open>NewStream\<close> does), \<^verbatim>\<open>Append\<close> extends the
  stream held by the store or changes nothing, \<^verbatim>\<open>Serialise\<close> runs the function on that state. The
  laws of \<^verbatim>\<open>Append\<close> are for the facts the store can hold in its state, \<open>storable\<close>: all for the
  in-memory store, the ones its encoding can carry for the durable one. What
  the use cases guarantee is proved once inside it; the stores interpret it.
\<close>

section \<open>Ports\<close>

definition ErrStreamNotFound :: sentinel where
  "ErrStreamNotFound = ''app: stream not found''"
definition ErrStaleRead :: sentinel where
  "ErrStaleRead = ''app: the stream changed since it was read''"
definition ErrNonMonotonicKnowledge :: sentinel where
  "ErrNonMonotonicKnowledge = ''app: knowledge time is not after the stream's last''"
definition ErrNestedSerialise :: sentinel where
  "ErrNestedSerialise = ''app: already inside a serialised region''"
definition ErrAlreadyMinted :: sentinel where
  "ErrAlreadyMinted = ''app: claim already resolves to a minted identity''"

declare ErrStreamNotFound_def [sentinel_defs] ErrStaleRead_def [sentinel_defs]
  ErrNonMonotonicKnowledge_def [sentinel_defs] ErrNestedSerialise_def [sentinel_defs]
  ErrAlreadyMinted_def [sentinel_defs]

record Expectation =
  ex_length :: int
  ex_checked :: bool

definition Any :: Expectation where
  "Any = \<lparr>ex_length = 0, ex_checked = False\<rparr>"

definition AtLength :: "int \<Rightarrow> Expectation" where
  "AtLength n = \<lparr>ex_length = n, ex_checked = True\<rparr>"

definition Expectation_Length :: "Expectation \<Rightarrow> int \<times> bool" where
  "Expectation_Length e = (ex_length e, ex_checked e)"

definition Expectation_String :: "Expectation \<Rightarrow> string" where
  "Expectation_String e =
     (if \<not> ex_checked e then ''any'' else ''at length '' @ dec_int (ex_length e))"

record 'k Clock =
  ck_Now :: "'k \<Rightarrow> Instant result \<times> 'k"

record ('d, 's) Region =
  rg_Load :: "'s \<Rightarrow> string \<Rightarrow> 'd Stream result"
  rg_Append :: "'s \<Rightarrow> string \<Rightarrow> Expectation \<Rightarrow> Envelope \<Rightarrow> FactKind \<Rightarrow> 'd Payload option \<Rightarrow>
    's \<times> FactRef result"
  rg_Serialise :: "string \<Rightarrow> FactRef result"

type_synonym ('d, 's, 'k) region_fn =
  "('d, 's) Region \<Rightarrow> 's \<times> 'k \<Rightarrow> ('s \<times> 'k) \<times> FactRef result"

record ('d, 's, 'k) Store =
  so_Load :: "'s \<Rightarrow> string \<Rightarrow> 'd Stream result"
  so_Append :: "'s \<Rightarrow> string \<Rightarrow> Expectation \<Rightarrow> Envelope \<Rightarrow> FactKind \<Rightarrow> 'd Payload option \<Rightarrow>
    's \<times> FactRef result"
  so_Serialise :: "string \<Rightarrow> ('d, 's, 'k) region_fn \<Rightarrow> 's \<times> 'k \<Rightarrow> ('s \<times> 'k) \<times> FactRef result"

section \<open>The ledger and its commands\<close>

record ('d, 's, 'k) Ledger =
  lg_store :: "('d, 's, 'k) Store"
  lg_clock :: "'k Clock"
  lg_rules :: Ruleset

definition NewLedger ::
  "('d, 's, 'k) Store option \<Rightarrow> 'k Clock option \<Rightarrow> Ruleset \<Rightarrow> ('d, 's, 'k) Ledger result" where
  "NewLedger store clock rules =
     (case (store, clock) of
        (Some st, Some ck) \<Rightarrow>
          if Ruleset_IsZero rules then Inl []
          else Inr \<lparr>lg_store = st, lg_clock = ck, lg_rules = rules\<rparr>
      | _ \<Rightarrow> Inl [])"

record 'd ObserveHoldingCommand =
  oh_Stream :: string
  oh_Account :: ID
  oh_Instrument :: ID
  oh_Quantity :: "'d Quantity"
  oh_Effective :: Interval
  oh_Source :: Source
  oh_CollectedAt :: Instant
  oh_Interpreter :: Interpreter
  oh_Confidence :: Confidence
  oh_References :: "ReferenceBinding list"

record CorrectFactCommand =
  cf_Stream :: string
  cf_Corrects :: FactRef
  cf_Kind :: CorrectionKind
  cf_Reason :: string
  cf_Source :: Source
  cf_CollectedAt :: Instant
  cf_Interpreter :: Interpreter
  cf_Confidence :: Confidence

record ProjectPositionQuery =
  pq_Stream :: string
  pq_Account :: ID
  pq_Instrument :: ID
  pq_AsOf :: AsOf

record 'd AcceptHoldingClaimCommand =
  ac_Stream :: string
  ac_Account :: Claim
  ac_Instrument :: Claim
  ac_Quantity :: "'d Quantity"
  ac_Effective :: Interval
  ac_Source :: Source
  ac_CollectedAt :: Instant
  ac_Interpreter :: Interpreter
  ac_Confidence :: Confidence
  ac_References :: "ReferenceBinding list"

record UnresolvedClaimsQuery =
  uq_Stream :: string
  uq_AsOf :: AsOf

record MintIdentityCommand =
  mi_Stream :: string
  mi_Kind :: Kind
  mi_Claim :: Claim
  mi_Answers :: FactRef
  mi_Effective :: Interval
  mi_Source :: Source
  mi_CollectedAt :: Instant
  mi_Interpreter :: Interpreter
  mi_Confidence :: Confidence
  mi_References :: "ReferenceBinding list"

record ObserveClaimedHoldingCommand =
  oc_Stream :: string
  oc_Claim :: FactRef
  oc_AsOf :: AsOf
  oc_Source :: Source
  oc_CollectedAt :: Instant
  oc_Interpreter :: Interpreter

section \<open>Use cases\<close>

text \<open>The last step of every writer: build the envelope or fail, then append through the region.\<close>

definition commit ::
  "('d, 's) Region \<Rightarrow> 's \<times> 'k \<Rightarrow> string \<Rightarrow> Expectation \<Rightarrow> FactKind \<Rightarrow> (Envelope \<times> 'd Payload) result \<Rightarrow>
   ('s \<times> 'k) \<times> FactRef result" where
  "commit rg st name expect kind built =
     (case built of
        Inl e \<Rightarrow> (st, Inl e)
      | Inr (envelope, payload) \<Rightarrow>
          (case rg_Append rg (fst st) name expect envelope kind (Some payload) of
             (s', r) \<Rightarrow> ((s', snd st), r)))"

definition observe_region ::
  "('d, 's, 'k) Ledger \<Rightarrow> 'd ObserveHoldingCommand \<Rightarrow> ('d, 's, 'k) region_fn" where
  "observe_region l cmd rg = (\<lambda>(s, k).
       case ck_Now (lg_clock l) k of (now, k') \<Rightarrow>
         commit rg (s, k') (oh_Stream cmd) Any KindObservation
           (bindR now (\<lambda>now.
            bindR (Assign (oh_Effective cmd) now) (\<lambda>coordinates.
            bindR (Observed (oh_Source cmd) (oh_CollectedAt cmd) (oh_Interpreter cmd) (oh_Confidence cmd)) (\<lambda>prov.
            bindR (NewEnvelope coordinates prov (oh_References cmd)) (\<lambda>envelope.
              Inr (envelope, HoldingObservedP \<lparr>ho_Account = oh_Account cmd,
                ho_Instrument = oh_Instrument cmd, ho_Quantity = oh_Quantity cmd\<rparr>)))))))"

definition ObserveHolding ::
  "('d, 's, 'k) Ledger \<Rightarrow> 'd ObserveHoldingCommand \<Rightarrow> 's \<times> 'k \<Rightarrow> ('s \<times> 'k) \<times> FactRef result" where
  "ObserveHolding l cmd st = so_Serialise (lg_store l) (oh_Stream cmd) (observe_region l cmd) st"

definition correct_region ::
  "('d, 's, 'k) Ledger \<Rightarrow> CorrectFactCommand \<Rightarrow> ('d, 's, 'k) region_fn" where
  "correct_region l cmd rg = (\<lambda>(s, k).
       case rg_Load rg s (cf_Stream cmd) of
         Inl e \<Rightarrow> ((s, k), Inl e)
       | Inr stream \<Rightarrow>
       (case Stream_Get stream (cf_Corrects cmd) of
         Inl e \<Rightarrow> ((s, k), Inl e)
       | Inr corrected \<Rightarrow>
         if \<not> CorrectionKind_Valid (cf_Kind cmd) then ((s, k), Inl [Ledger_ErrUnknownKind])
         else case ck_Now (lg_clock l) k of (now, k') \<Rightarrow>
           commit rg (s, k') (cf_Stream cmd) (AtLength (int (Stream_Len stream))) KindObservation
             (bindR now (\<lambda>now.
              bindR (Assign (effective (ev_coordinates (f_envelope corrected))) now) (\<lambda>coordinates.
              bindR (Observed (cf_Source cmd) (cf_CollectedAt cmd) (cf_Interpreter cmd) (cf_Confidence cmd)) (\<lambda>prov.
              bindR (NewEnvelope coordinates prov []) (\<lambda>envelope.
                Inr (envelope, FactCorrectedP \<lparr>fc_Corrects = cf_Corrects cmd, fc_Kind = cf_Kind cmd,
                  fc_Reason = cf_Reason cmd\<rparr>))))))))"

definition CorrectFact ::
  "('d, 's, 'k) Ledger \<Rightarrow> CorrectFactCommand \<Rightarrow> 's \<times> 'k \<Rightarrow> ('s \<times> 'k) \<times> FactRef result" where
  "CorrectFact l cmd st = so_Serialise (lg_store l) (cf_Stream cmd) (correct_region l cmd) st"

definition Ledger_ProjectPosition ::
  "'d apd \<Rightarrow> ('d, 's, 'k) Ledger \<Rightarrow> ProjectPositionQuery \<Rightarrow> 's \<Rightarrow> 'd Position Value result" where
  "Ledger_ProjectPosition A l q s =
     bindR (so_Load (lg_store l) s (pq_Stream q)) (\<lambda>stream.
       ProjectPosition A stream (pq_Account q) (pq_Instrument q) (pq_AsOf q))"

definition accept_region ::
  "('d, 's, 'k) Ledger \<Rightarrow> 'd AcceptHoldingClaimCommand \<Rightarrow> ('d, 's, 'k) region_fn" where
  "accept_region l cmd rg = (\<lambda>(s, k).
     case ck_Now (lg_clock l) k of (now, k') \<Rightarrow>
       commit rg (s, k') (ac_Stream cmd) Any KindObservation
         (bindR now (\<lambda>now.
          bindR (Assign (ac_Effective cmd) now) (\<lambda>coordinates.
          bindR (Observed (ac_Source cmd) (ac_CollectedAt cmd) (ac_Interpreter cmd) (ac_Confidence cmd)) (\<lambda>prov.
          bindR (NewEnvelope coordinates prov (ac_References cmd)) (\<lambda>envelope.
            Inr (envelope, HoldingClaimedP \<lparr>hc_Account = ac_Account cmd,
              hc_Instrument = ac_Instrument cmd, hc_Quantity = ac_Quantity cmd\<rparr>)))))))"

definition AcceptHoldingClaim ::
  "('d, 's, 'k) Ledger \<Rightarrow> 'd AcceptHoldingClaimCommand \<Rightarrow> 's \<times> 'k \<Rightarrow> ('s \<times> 'k) \<times> FactRef result" where
  "AcceptHoldingClaim l cmd st =
     (case CheckContentAddress (ac_Source cmd) of
        Inl e \<Rightarrow> (st, Inl e)
      | Inr _ \<Rightarrow>
        if Claim_IsZero (ac_Account cmd) \<or> Claim_IsZero (ac_Instrument cmd)
        then (st, Inl [ErrIncompleteEnvelope])
        else so_Serialise (lg_store l) (ac_Stream cmd) (accept_region l cmd) st)"

definition UnresolvedClaims ::
  "unicode \<Rightarrow> ('d, 's, 'k) Ledger \<Rightarrow> UnresolvedClaimsQuery \<Rightarrow> 's \<Rightarrow> UnresolvedClaim list result" where
  "UnresolvedClaims uc l q s =
     bindR (so_Load (lg_store l) s (uq_Stream q)) (\<lambda>stream.
       Inr (Unresolved uc stream (lg_rules l) (uq_AsOf q)))"

definition app_load :: "('d, 's) Region \<Rightarrow> 's \<Rightarrow> string \<Rightarrow> 'd Stream result" where
  "app_load rg s name =
     (case rg_Load rg s name of
        Inr stream \<Rightarrow> Inr stream
      | Inl e \<Rightarrow> if \<not> errors_Is e ErrStreamNotFound then Inl e else NewStream name)"

definition mint_answers :: "MintIdentityCommand \<Rightarrow> string list" where
  "mint_answers cmd = (if fr_Stream (mi_Answers cmd) \<noteq> [] then [FactRef_String (mi_Answers cmd)] else [])"

definition mint_region ::
  "unicode \<Rightarrow> ('d, 's, 'k) Ledger \<Rightarrow> MintIdentityCommand \<Rightarrow> ('d, 's, 'k) region_fn" where
  "mint_region uc l cmd rg = (\<lambda>(s, k).
     case app_load rg s (mi_Stream cmd) of
       Inl e \<Rightarrow> ((s, k), Inl e)
     | Inr stream \<Rightarrow>
     (case ck_Now (lg_clock l) k of (now, k') \<Rightarrow>
       commit rg (s, k') (mi_Stream cmd) (AtLength (int (Stream_Len stream))) KindOccurrence
         (bindR now (\<lambda>now.
          bindR (NewAsOf (iv_from (mi_Effective cmd)) now) (\<lambda>asOf.
          bindR (case Resolve uc stream (mi_Claim cmd) (lg_rules l) asOf of
                   Inr existing \<Rightarrow> Inl [ErrAlreadyMinted]
                 | Inl e \<Rightarrow> if \<not> errors_Is e ErrUnresolved then Inl e else Inr ()) (\<lambda>_.
          bindR (MintFor uc (mi_Kind cmd) (mi_Claim cmd) (lg_rules l) (mint_answers cmd)
                   (mi_Confidence cmd)) (\<lambda>minted.
          bindR (Assign (mi_Effective cmd) now) (\<lambda>coordinates.
          bindR (Derived (mi_Source cmd) (mi_CollectedAt cmd) (mi_Interpreter cmd) (v_trace minted)
                   (mi_Confidence cmd)) (\<lambda>prov.
          bindR (NewEnvelope coordinates prov (mi_References cmd)) (\<lambda>envelope.
            Inr (envelope, EntityMintedP (v_value minted))))))))))))"

definition MintIdentity ::
  "unicode \<Rightarrow> ('d, 's, 'k) Ledger \<Rightarrow> MintIdentityCommand \<Rightarrow> 's \<times> 'k \<Rightarrow> ('s \<times> 'k) \<times> FactRef result" where
  "MintIdentity uc l cmd st =
     (case CheckContentAddress (mi_Source cmd) of
        Inl e \<Rightarrow> (st, Inl e)
      | Inr _ \<Rightarrow>
        if \<not> Kind_Valid (mi_Kind cmd) then (st, Inl [Identity_ErrUnknownKind])
        else if Claim_IsZero (mi_Claim cmd) then (st, Inl [ErrIncompleteEnvelope])
        else so_Serialise (lg_store l) (mi_Stream cmd) (mint_region uc l cmd) st)"

definition claimed_region ::
  "unicode \<Rightarrow> ('d, 's, 'k) Ledger \<Rightarrow> ObserveClaimedHoldingCommand \<Rightarrow> ('d, 's, 'k) region_fn" where
  "claimed_region uc l cmd rg = (\<lambda>(s, k).
       case rg_Load rg s (oc_Stream cmd) of
         Inl e \<Rightarrow> ((s, k), Inl e)
       | Inr stream \<Rightarrow>
       (case Stream_Get stream (oc_Claim cmd) of
         Inl e \<Rightarrow> ((s, k), Inl e)
       | Inr claimed \<Rightarrow>
       (case DeriveHoldingObserved uc stream claimed (lg_rules l) (oc_AsOf cmd) of
         Inl e \<Rightarrow> ((s, k), Inl e)
       | Inr observed \<Rightarrow>
         (case ck_Now (lg_clock l) k of (now, k') \<Rightarrow>
           commit rg (s, k') (oc_Stream cmd) (AtLength (int (Stream_Len stream))) KindObservation
             (bindR now (\<lambda>now.
              bindR (Assign (effective (ev_coordinates (f_envelope claimed))) now) (\<lambda>coordinates.
              bindR (Derived (oc_Source cmd) (oc_CollectedAt cmd) (oc_Interpreter cmd) (v_trace observed)
                       (dr_confidence (v_record observed))) (\<lambda>prov.
              bindR (NewEnvelope coordinates prov (ev_references (f_envelope claimed))) (\<lambda>envelope.
                Inr (envelope, HoldingObservedP (v_value observed)))))))))))"

definition ObserveClaimedHolding ::
  "unicode \<Rightarrow> ('d, 's, 'k) Ledger \<Rightarrow> ObserveClaimedHoldingCommand \<Rightarrow> 's \<times> 'k \<Rightarrow> ('s \<times> 'k) \<times> FactRef result" where
  "ObserveClaimedHolding uc l cmd st = so_Serialise (lg_store l) (oc_Stream cmd) (claimed_region uc l cmd) st"

section \<open>Commands as data\<close>

datatype 'd Command =
  ObserveHoldingC "'d ObserveHoldingCommand"
| CorrectFactC CorrectFactCommand
| AcceptHoldingClaimC "'d AcceptHoldingClaimCommand"
| MintIdentityC MintIdentityCommand
| ObserveClaimedHoldingC ObserveClaimedHoldingCommand

fun run :: "unicode \<Rightarrow> ('d, 's, 'k) Ledger \<Rightarrow> 'd Command \<Rightarrow> 's \<times> 'k \<Rightarrow> ('s \<times> 'k) \<times> FactRef result" where
  "run uc l (ObserveHoldingC cmd) st = ObserveHolding l cmd st"
| "run uc l (CorrectFactC cmd) st = CorrectFact l cmd st"
| "run uc l (AcceptHoldingClaimC cmd) st = AcceptHoldingClaim l cmd st"
| "run uc l (MintIdentityC cmd) st = MintIdentity uc l cmd st"
| "run uc l (ObserveClaimedHoldingC cmd) st = ObserveClaimedHolding uc l cmd st"

text \<open>
  An \<open>Interval\<close> has no exported fields: a caller's is the zero value or one \<open>NewInterval\<close> built.
\<close>

definition interval_value :: "Interval \<Rightarrow> bool" where
  "interval_value iv \<longleftrightarrow> wf_interval iv \<or> iv = \<lparr>iv_from = zeroInstant, iv_to = zeroInstant\<rparr>"

fun command_ok :: "'d Command \<Rightarrow> bool" where
  "command_ok (ObserveHoldingC cmd) = interval_value (oh_Effective cmd)"
| "command_ok (CorrectFactC cmd) = True"
| "command_ok (AcceptHoldingClaimC cmd) = interval_value (ac_Effective cmd)"
| "command_ok (MintIdentityC cmd) = interval_value (mi_Effective cmd)"
| "command_ok (ObserveClaimedHoldingC cmd) = True"

section \<open>The envelopes the writers build\<close>

definition envelope_for ::
  "Interval \<Rightarrow> Instant result \<Rightarrow> Provenance result \<Rightarrow> ReferenceBinding list \<Rightarrow> Envelope result" where
  "envelope_for eff now prov refs =
     bindR now (\<lambda>now. bindR (Assign eff now) (\<lambda>c. bindR prov (\<lambda>p. NewEnvelope c p refs)))"

lemma envelope_for_Inr_iff:
  "envelope_for eff now prov refs = Inr e \<longleftrightarrow>
     (\<exists>t p. now = Inr t \<and> prov = Inr p \<and> iv_from eff \<noteq> zeroInstant \<and> t \<noteq> zeroInstant \<and>
        \<not> Provenance_IsZero p \<and>
        e = \<lparr>ev_coordinates = \<lparr>effective = eff, knowledge = t\<rparr>, ev_provenance = p, ev_references = refs\<rparr>)"
  by (auto simp: envelope_for_def Assign_Inr_iff NewEnvelope_Inr_iff)

lemma envelope_for_wf:
  assumes "envelope_for eff now prov refs = Inr e" "interval_value eff" "\<forall>p. prov = Inr p \<longrightarrow> wf_provenance p"
  shows "wf_envelope e"
  using assms by (auto simp: envelope_for_Inr_iff wf_envelope_def interval_value_def)

definition with_payload :: "'d Payload \<Rightarrow> Envelope result \<Rightarrow> (Envelope \<times> 'd Payload) result" where
  "with_payload p env = bindR env (\<lambda>e. Inr (e, p))"

lemma with_payload_Inr_iff: "with_payload p env = Inr (e, q) \<longleftrightarrow> env = Inr e \<and> q = p"
  by (auto simp: with_payload_def)

definition observe_built :: "'d ObserveHoldingCommand \<Rightarrow> Instant result \<Rightarrow> (Envelope \<times> 'd Payload) result" where
  "observe_built cmd now = with_payload
     (HoldingObservedP \<lparr>ho_Account = oh_Account cmd, ho_Instrument = oh_Instrument cmd, ho_Quantity = oh_Quantity cmd\<rparr>)
     (envelope_for (oh_Effective cmd) now
       (Observed (oh_Source cmd) (oh_CollectedAt cmd) (oh_Interpreter cmd) (oh_Confidence cmd)) (oh_References cmd))"

definition accept_built :: "'d AcceptHoldingClaimCommand \<Rightarrow> Instant result \<Rightarrow> (Envelope \<times> 'd Payload) result" where
  "accept_built cmd now = with_payload
     (HoldingClaimedP \<lparr>hc_Account = ac_Account cmd, hc_Instrument = ac_Instrument cmd, hc_Quantity = ac_Quantity cmd\<rparr>)
     (envelope_for (ac_Effective cmd) now
       (Observed (ac_Source cmd) (ac_CollectedAt cmd) (ac_Interpreter cmd) (ac_Confidence cmd)) (ac_References cmd))"

definition correct_built ::
  "CorrectFactCommand \<Rightarrow> 'd Fact \<Rightarrow> Instant result \<Rightarrow> (Envelope \<times> 'd Payload) result" where
  "correct_built cmd corrected now = with_payload
     (FactCorrectedP \<lparr>fc_Corrects = cf_Corrects cmd, fc_Kind = cf_Kind cmd, fc_Reason = cf_Reason cmd\<rparr>)
     (envelope_for (effective (ev_coordinates (f_envelope corrected))) now
       (Observed (cf_Source cmd) (cf_CollectedAt cmd) (cf_Interpreter cmd) (cf_Confidence cmd)) [])"

definition claimed_built ::
  "ObserveClaimedHoldingCommand \<Rightarrow> 'd Fact \<Rightarrow> 'd HoldingObserved Value \<Rightarrow> Instant result \<Rightarrow>
   (Envelope \<times> 'd Payload) result" where
  "claimed_built cmd claimed observed now = with_payload (HoldingObservedP (v_value observed))
     (envelope_for (effective (ev_coordinates (f_envelope claimed))) now
       (Derived (oc_Source cmd) (oc_CollectedAt cmd) (oc_Interpreter cmd) (v_trace observed)
         (dr_confidence (v_record observed))) (ev_references (f_envelope claimed)))"

definition mint_built ::
  "unicode \<Rightarrow> Ruleset \<Rightarrow> MintIdentityCommand \<Rightarrow> 'd Stream \<Rightarrow> Instant result \<Rightarrow> (Envelope \<times> 'd Payload) result" where
  "mint_built uc rules cmd stream now =
     bindR now (\<lambda>t. bindR (NewAsOf (iv_from (mi_Effective cmd)) t) (\<lambda>asOf.
       case Resolve uc stream (mi_Claim cmd) rules asOf of
         Inr _ \<Rightarrow> Inl [ErrAlreadyMinted]
       | Inl _ \<Rightarrow> bindR (MintFor uc (mi_Kind cmd) (mi_Claim cmd) rules (mint_answers cmd) (mi_Confidence cmd)) (\<lambda>minted.
           with_payload (EntityMintedP (v_value minted))
             (envelope_for (mi_Effective cmd) (Inr t)
               (Derived (mi_Source cmd) (mi_CollectedAt cmd) (mi_Interpreter cmd) (v_trace minted) (mi_Confidence cmd))
               (mi_References cmd)))))"

lemmas built_defs = observe_built_def accept_built_def correct_built_def claimed_built_def with_payload_def
  envelope_for_def bindR_assoc

lemma mint_built_eq:
  "mint_built uc rules cmd stream now =
     bindR now (\<lambda>now.
     bindR (NewAsOf (iv_from (mi_Effective cmd)) now) (\<lambda>asOf.
     bindR (case Resolve uc stream (mi_Claim cmd) rules asOf of
              Inr existing \<Rightarrow> Inl [ErrAlreadyMinted]
            | Inl e \<Rightarrow> if \<not> errors_Is e ErrUnresolved then Inl e else Inr ()) (\<lambda>_.
     bindR (MintFor uc (mi_Kind cmd) (mi_Claim cmd) rules
              (mint_answers cmd) (mi_Confidence cmd)) (\<lambda>minted.
     bindR (Assign (mi_Effective cmd) now) (\<lambda>coordinates.
     bindR (Derived (mi_Source cmd) (mi_CollectedAt cmd) (mi_Interpreter cmd) (v_trace minted)
              (mi_Confidence cmd)) (\<lambda>prov.
     bindR (NewEnvelope coordinates prov (mi_References cmd)) (\<lambda>envelope.
       Inr (envelope, EntityMintedP (v_value minted)))))))))"
proof -
  have "errors_Is e ErrUnresolved" if "Resolve uc stream (mi_Claim cmd) rules a = Inl e" for a e
    using Resolve_Inl [OF that] by (simp add: errors_Is_def)
  then show ?thesis
    unfolding mint_built_def
    by (intro arg_cong2 [where f = bindR] refl ext) (auto simp: with_payload_def envelope_for_def bindR_assoc split: sum.splits)
qed

lemma observe_built_wf:
  "observe_built cmd now = Inr (e, p) \<Longrightarrow> interval_value (oh_Effective cmd) \<Longrightarrow> wf_envelope e"
  unfolding observe_built_def with_payload_Inr_iff by (erule conjE, erule envelope_for_wf) (auto dest: Observed_wf)

lemma accept_built_wf:
  "accept_built cmd now = Inr (e, p) \<Longrightarrow> interval_value (ac_Effective cmd) \<Longrightarrow> wf_envelope e"
  unfolding accept_built_def with_payload_Inr_iff by (erule conjE, erule envelope_for_wf) (auto dest: Observed_wf)

lemma wf_fact_interval: "wf_fact f \<Longrightarrow> interval_value (effective (ev_coordinates (f_envelope f)))"
  by (simp add: wf_fact_def wf_envelope_def interval_value_def)

lemma correct_built_wf: "correct_built cmd f now = Inr (e, p) \<Longrightarrow> wf_fact f \<Longrightarrow> wf_envelope e"
  unfolding correct_built_def with_payload_Inr_iff
  by (erule conjE, erule envelope_for_wf) (auto dest: Observed_wf wf_fact_interval)

lemma claimed_built_wf: "claimed_built cmd f v now = Inr (e, p) \<Longrightarrow> wf_fact f \<Longrightarrow> wf_envelope e"
  unfolding claimed_built_def with_payload_Inr_iff
  by (erule conjE, erule envelope_for_wf) (auto dest: Derived_wf wf_fact_interval)

lemma mint_built_Inr:
  assumes "mint_built uc rules cmd stream now = Inr (e, p)"
  shows "\<exists>t minted. now = Inr t \<and>
    Resolve uc stream (mi_Claim cmd) rules \<lparr>ao_effective = iv_from (mi_Effective cmd), ao_knowledge = t\<rparr> = Inl [ErrUnresolved] \<and>
    MintFor uc (mi_Kind cmd) (mi_Claim cmd) rules (mint_answers cmd) (mi_Confidence cmd) = Inr minted \<and>
    p = EntityMintedP (v_value minted) \<and>
    envelope_for (mi_Effective cmd) (Inr t)
      (Derived (mi_Source cmd) (mi_CollectedAt cmd) (mi_Interpreter cmd) (v_trace minted) (mi_Confidence cmd))
      (mi_References cmd) = Inr e"
proof -
  from assms obtain t where t: "now = Inr t"
    and b: "(case Resolve uc stream (mi_Claim cmd) rules \<lparr>ao_effective = iv_from (mi_Effective cmd), ao_knowledge = t\<rparr> of
         Inr _ \<Rightarrow> Inl [ErrAlreadyMinted]
       | Inl _ \<Rightarrow> bindR (MintFor uc (mi_Kind cmd) (mi_Claim cmd) rules (mint_answers cmd) (mi_Confidence cmd)) (\<lambda>minted.
           with_payload (EntityMintedP (v_value minted))
             (envelope_for (mi_Effective cmd) (Inr t)
               (Derived (mi_Source cmd) (mi_CollectedAt cmd) (mi_Interpreter cmd) (v_trace minted) (mi_Confidence cmd))
               (mi_References cmd)))) = Inr (e, p)"
    by (auto simp: mint_built_def NewAsOf_Inr_iff)
  then show ?thesis
    by (cases "Resolve uc stream (mi_Claim cmd) rules \<lparr>ao_effective = iv_from (mi_Effective cmd), ao_knowledge = t\<rparr>")
       (auto simp: with_payload_Inr_iff dest: Resolve_Inl)
qed

lemma mint_built_wf:
  "mint_built uc rules cmd stream now = Inr (e, p) \<Longrightarrow> interval_value (mi_Effective cmd) \<Longrightarrow> wf_envelope e"
  by (drule mint_built_Inr) (auto dest: Derived_wf elim!: envelope_for_wf)

section \<open>The use cases cut at their calls\<close>

text \<open>
  Every command is, in this order: checks that need no stream (\<open>command_guard\<close>), then inside the
  region a decision on the stream it loads (\<open>command_plan\<close>: what to expect of the stream, the kind of
  the fact and how to build it at the clock's reading), a reading of the clock and the append.
\<close>

fun command_stream :: "'d Command \<Rightarrow> string" where
  "command_stream (ObserveHoldingC cmd) = oh_Stream cmd"
| "command_stream (CorrectFactC cmd) = cf_Stream cmd"
| "command_stream (AcceptHoldingClaimC cmd) = ac_Stream cmd"
| "command_stream (MintIdentityC cmd) = mi_Stream cmd"
| "command_stream (ObserveClaimedHoldingC cmd) = oc_Stream cmd"

fun command_guard :: "'d Command \<Rightarrow> unit result" where
  "command_guard (AcceptHoldingClaimC cmd) =
     bindR (CheckContentAddress (ac_Source cmd)) (\<lambda>_.
       if Claim_IsZero (ac_Account cmd) \<or> Claim_IsZero (ac_Instrument cmd) then Inl [ErrIncompleteEnvelope] else Inr ())"
| "command_guard (MintIdentityC cmd) =
     bindR (CheckContentAddress (mi_Source cmd)) (\<lambda>_.
       if \<not> Kind_Valid (mi_Kind cmd) then Inl [Identity_ErrUnknownKind]
       else if Claim_IsZero (mi_Claim cmd) then Inl [ErrIncompleteEnvelope] else Inr ())"
| "command_guard _ = Inr ()"

type_synonym 'd plan = "Expectation \<times> FactKind \<times> (Instant result \<Rightarrow> (Envelope \<times> 'd Payload) result)"

fun command_plan :: "unicode \<Rightarrow> Ruleset \<Rightarrow> 'd Command \<Rightarrow> 'd Stream result \<Rightarrow> 'd plan result" where
  "command_plan uc rules (ObserveHoldingC cmd) loaded = Inr (Any, KindObservation, observe_built cmd)"
| "command_plan uc rules (AcceptHoldingClaimC cmd) loaded = Inr (Any, KindObservation, accept_built cmd)"
| "command_plan uc rules (CorrectFactC cmd) loaded =
     bindR loaded (\<lambda>stream. bindR (Stream_Get stream (cf_Corrects cmd)) (\<lambda>corrected.
       if \<not> CorrectionKind_Valid (cf_Kind cmd) then Inl [Ledger_ErrUnknownKind]
       else Inr (AtLength (int (Stream_Len stream)), KindObservation, correct_built cmd corrected)))"
| "command_plan uc rules (MintIdentityC cmd) loaded =
     bindR (case loaded of Inr stream \<Rightarrow> Inr stream
            | Inl e \<Rightarrow> if \<not> errors_Is e ErrStreamNotFound then Inl e else NewStream (mi_Stream cmd)) (\<lambda>stream.
       Inr (AtLength (int (Stream_Len stream)), KindOccurrence, mint_built uc rules cmd stream))"
| "command_plan uc rules (ObserveClaimedHoldingC cmd) loaded =
     bindR loaded (\<lambda>stream. bindR (Stream_Get stream (oc_Claim cmd)) (\<lambda>claimed.
       bindR (DeriveHoldingObserved uc stream claimed rules (oc_AsOf cmd)) (\<lambda>observed.
         Inr (AtLength (int (Stream_Len stream)), KindObservation, claimed_built cmd claimed observed))))"

fun command_region :: "unicode \<Rightarrow> ('d, 's, 'k) Ledger \<Rightarrow> 'd Command \<Rightarrow> ('d, 's, 'k) region_fn" where
  "command_region uc l (ObserveHoldingC cmd) = observe_region l cmd"
| "command_region uc l (CorrectFactC cmd) = correct_region l cmd"
| "command_region uc l (AcceptHoldingClaimC cmd) = accept_region l cmd"
| "command_region uc l (MintIdentityC cmd) = mint_region uc l cmd"
| "command_region uc l (ObserveClaimedHoldingC cmd) = claimed_region uc l cmd"

lemma run_guarded:
  "run uc l c st = (case command_guard c of
      Inl e \<Rightarrow> (st, Inl e)
    | Inr _ \<Rightarrow> so_Serialise (lg_store l) (command_stream c) (command_region uc l c) st)"
  by (cases c)
     (auto simp: ObserveHolding_def CorrectFact_def AcceptHoldingClaim_def MintIdentity_def ObserveClaimedHolding_def
       split: sum.splits)

lemma region_planned:
  "command_region uc l c rg (s, k) =
     (case command_plan uc (lg_rules l) c (rg_Load rg s (command_stream c)) of
        Inl e \<Rightarrow> ((s, k), Inl e)
      | Inr (ex, kd, built) \<Rightarrow>
        (case ck_Now (lg_clock l) k of (now, k') \<Rightarrow> commit rg (s, k') (command_stream c) ex kd (built now)))"
proof (cases c)
  case (ObserveHoldingC cmd)
  then show ?thesis by (simp add: observe_region_def built_defs)
next
  case (AcceptHoldingClaimC cmd)
  then show ?thesis by (simp add: accept_region_def built_defs)
next
  case (CorrectFactC cmd)
  then show ?thesis
    by (cases "rg_Load rg s (cf_Stream cmd)") (auto simp: correct_region_def built_defs split: sum.splits prod.splits)
next
  case (MintIdentityC cmd)
  then show ?thesis
    by (cases "rg_Load rg s (mi_Stream cmd)")
       (auto simp: mint_region_def app_load_def mint_built_eq split: sum.splits prod.splits)
next
  case (ObserveClaimedHoldingC cmd)
  then show ?thesis
    by (cases "rg_Load rg s (oc_Stream cmd)") (auto simp: claimed_region_def built_defs split: sum.splits prod.splits)
qed

section \<open>What a store promises\<close>

text \<open>
  The abstract effect of \<^verbatim>\<open>Append\<close> on the stream a store holds under a name: created when absent,
  refused with \<open>ErrStaleRead\<close> when the expectation fails and with \<open>ErrNonMonotonicKnowledge\<close>
  when knowledge time would not advance, and otherwise extended by \<open>Stream_Append\<close>.
\<close>

definition append_spec ::
  "'d Stream option \<Rightarrow> string \<Rightarrow> Expectation \<Rightarrow> Envelope \<Rightarrow> FactKind \<Rightarrow> 'd Payload option \<Rightarrow>
   ('d Stream \<times> FactRef) result" where
  "append_spec cur name expect envelope kind payload =
     bindR (case cur of None \<Rightarrow> NewStream name | Some st \<Rightarrow> Inr st) (\<lambda>st.
       if ex_checked expect \<and> int (Stream_Len st) \<noteq> ex_length expect then Inl [ErrStaleRead]
       else if st_facts st \<noteq> [] \<and>
         \<not> fact_knowledge (last (st_facts st)) < knowledge (ev_coordinates envelope)
       then Inl [ErrNonMonotonicKnowledge]
       else Stream_Append st envelope kind payload)"

text \<open>
  The good states of a named stream: named as it is filed, every fact well-formed and numbered
  by its position, knowledge time strictly increasing along the stream.
\<close>

definition good_stream :: "string \<Rightarrow> 'd Stream \<Rightarrow> bool" where
  "good_stream n st \<longleftrightarrow>
     st_name st = n \<and> n \<noteq> [] \<and> list_all wf_fact (st_facts st) \<and>
     (\<forall>i < length (st_facts st). f_ref (st_facts st ! i) = \<lparr>fr_Stream = n, fr_Sequence = word_of_nat (i + 1)\<rparr>) \<and>
     sorted_wrt (<) (map fact_knowledge (st_facts st))"

definition good_view :: "(string \<Rightarrow> 'd Stream option) \<Rightarrow> bool" where
  "good_view v \<longleftrightarrow> (\<forall>n st. v n = Some st \<longrightarrow> good_stream n st)"

lemma good_stream_wf: "good_stream n st \<Longrightarrow> length (st_facts st) < 2 ^ 63 \<Longrightarrow> wf_stream st"
  by (simp add: good_stream_def wf_stream_def)

lemma append_spec_Inr:
  assumes "append_spec cur n ex e k p = Inr (st', r)"
  shows "\<exists>st. (cur = Some st \<or> cur = None \<and> NewStream n = Inr st) \<and> Stream_Append st e k p = Inr (st', r) \<and>
    (ex_checked ex \<longrightarrow> int (Stream_Len st) = ex_length ex) \<and>
    (st_facts st = [] \<or> fact_knowledge (last (st_facts st)) < knowledge (ev_coordinates e))"
  using assms by (auto simp: append_spec_def split: option.splits if_splits)

lemma sorted_wrt_last_less:
  fixes xs :: "'a::order list"
  assumes "sorted_wrt (<) xs" "x \<in> set xs" "last xs < y"
  shows "x < y"
proof (cases "x = last xs")
  case False
  have "xs \<noteq> []" using assms(2) by auto
  then have "x \<in> set (butlast xs)" using assms(2) False by (metis append_butlast_last_id in_set_butlast_appendI rotate1.simps(2) set_ConsD set_rotate1)
  moreover have "sorted_wrt (<) (butlast xs @ [last xs])" using assms(1) \<open>xs \<noteq> []\<close> by simp
  ultimately have "x < last xs" by (simp add: sorted_wrt_append)
  with assms(3) show ?thesis by simp
qed (use assms(3) in simp)

lemma knowledge_before:
  assumes "sorted_wrt (<) (map fact_knowledge fs)" "fs = [] \<or> fact_knowledge (last fs) < t" "g \<in> set fs"
  shows "fact_knowledge g < t"
proof -
  have "fs \<noteq> []" using assms(3) by auto
  then have "last (map fact_knowledge fs) < t" using assms(2) by (simp add: last_map)
  then show ?thesis using sorted_wrt_last_less [OF assms(1), of "fact_knowledge g"] assms(3) by simp
qed

lemma append_spec_good:
  assumes "append_spec cur n ex e k p = Inr (st', r)" "\<forall>st. cur = Some st \<longrightarrow> good_stream n st" "wf_envelope e"
  shows "good_stream n st'"
proof -
  obtain st where st: "cur = Some st \<or> cur = None \<and> NewStream n = Inr st" "Stream_Append st e k p = Inr (st', r)"
    and mono: "st_facts st = [] \<or> fact_knowledge (last (st_facts st)) < knowledge (ev_coordinates e)"
    using append_spec_Inr [OF assms(1)] by blast
  have good: "good_stream n st"
    using st(1) assms(2) by (auto simp: NewStream_Inr_iff good_stream_def)
  obtain q where q: "p = Some q" "st' = \<lparr>st_name = st_name st, st_facts = st_facts st @
        [\<lparr>f_ref = r, f_envelope = e, f_kind = k, f_payload = q\<rparr>]\<rparr>"
      "r = \<lparr>fr_Stream = st_name st, fr_Sequence = word_of_nat (length (st_facts st) + 1)\<rparr>" "FactKind_Valid k"
    using st(2) by (auto simp: Stream_Append_Inr_iff)
  have "fact_knowledge f < knowledge (ev_coordinates e)" if "f \<in> set (st_facts st)" for f
    using knowledge_before [OF _ mono that] good by (simp add: good_stream_def)
  then show ?thesis
    using good q assms(3)
    by (auto simp: good_stream_def wf_fact_def sorted_wrt_append nth_append less_Suc_eq)
qed

text \<open>One step of the ledger as its readers see it: nothing, or one stream longer by one fact.\<close>

definition view_step ::
  "(string \<Rightarrow> 'd Stream option) \<Rightarrow> (string \<Rightarrow> 'd Stream option) \<Rightarrow> FactRef result \<Rightarrow> bool" where
  "view_step v v' res =
     (case res of
        Inl _ \<Rightarrow> v' = v
      | Inr r \<Rightarrow> \<exists>n st f. v' = v(n \<mapsto> st) \<and> f_ref f = r \<and>
          st_facts st = (case v n of None \<Rightarrow> [] | Some st0 \<Rightarrow> st_facts st0) @ [f] \<and>
          (\<forall>st0. v n = Some st0 \<longrightarrow> st_name st = st_name st0))"

lemma append_spec_step:
  "append_spec (v n) n ex e k p = Inr (st, r) \<Longrightarrow> view_step v (v(n \<mapsto> st)) (Inr r)"
  unfolding view_step_def
  by (drule append_spec_Inr) (fastforce simp: Stream_Append_Inr_iff NewStream_Inr_iff split: option.splits)

lemma append_spec_mono:
  assumes "append_spec cur n ex e k p = Inr (st', r)" "\<forall>st. cur = Some st \<longrightarrow> good_stream n st"
  shows "\<exists>st f. st_facts st' = st_facts st @ [f] \<and> f_envelope f = e \<and> f_ref f = r \<and> p = Some (f_payload f) \<and> f_kind f = k \<and>
    (cur = Some st \<or> cur = None \<and> st_facts st = []) \<and> st_name st' = n \<and>
    (\<forall>g \<in> set (st_facts st). fact_knowledge g < knowledge (ev_coordinates e))"
proof -
  obtain st where st: "cur = Some st \<or> cur = None \<and> NewStream n = Inr st" "Stream_Append st e k p = Inr (st', r)"
    and mono: "st_facts st = [] \<or> fact_knowledge (last (st_facts st)) < knowledge (ev_coordinates e)"
    using append_spec_Inr [OF assms(1)] by blast
  have good: "sorted_wrt (<) (map fact_knowledge (st_facts st))" "st_name st = n"
    using st(1) assms(2) by (auto simp: NewStream_Inr_iff good_stream_def)
  have "fact_knowledge g < knowledge (ev_coordinates e)" if "g \<in> set (st_facts st)" for g
    by (rule knowledge_before [OF good(1) mono that])
  moreover obtain q where "p = Some q"
    "st' = \<lparr>st_name = st_name st, st_facts = st_facts st @ [\<lparr>f_ref = r, f_envelope = e, f_kind = k, f_payload = q\<rparr>]\<rparr>"
    using st(2) by (auto simp: Stream_Append_Inr_iff)
  moreover have "cur = Some st \<or> cur = None \<and> st_facts st = []"
    using st(1) by (metis NewStream_Inr_iff Stream.select_convs(2))
  ultimately show ?thesis
    using good(2)
    by (intro exI [of _ st] exI [of _ "\<lparr>f_ref = r, f_envelope = e, f_kind = k, f_payload = q\<rparr>"])
       auto
qed

locale store_contract =
  fixes store :: "('d, 's, 'k) Store"
    and region :: "('d, 's) Region"
    and inv :: "'s \<Rightarrow> bool"
    and view :: "'s \<Rightarrow> string \<Rightarrow> 'd Stream option"
    and storable :: "'s \<Rightarrow> string \<Rightarrow> Envelope \<Rightarrow> 'd Payload \<Rightarrow> bool"
    and absent :: "string \<Rightarrow> go_error"
  assumes absent_error: "absent n = [ErrStreamNotFound] \<or> n = [] \<and> absent n = [ErrEmptyType]"
    and load:
      "inv s \<Longrightarrow> so_Load store s n = (case view s n of None \<Rightarrow> Inl (absent n) | Some st \<Rightarrow> Inr st)"
    and region_load:
      "inv s \<Longrightarrow> rg_Load region s n = (case view s n of None \<Rightarrow> Inl (absent n) | Some st \<Rightarrow> Inr st)"
    and append_accepts:
      "inv s \<Longrightarrow> storable s n e p \<Longrightarrow> append_spec (view s n) n ex e kd (Some p) = Inr (st, r) \<Longrightarrow>
       \<exists>s'. rg_Append region s n ex e kd (Some p) = (s', Inr r) \<and> inv s' \<and> view s' = (view s)(n \<mapsto> st)"
    and append_refuses:
      "inv s \<Longrightarrow> storable s n e p \<Longrightarrow> append_spec (view s n) n ex e kd (Some p) = Inl err \<Longrightarrow>
       \<exists>s'. rg_Append region s n ex e kd (Some p) = (s', Inl err) \<and> inv s' \<and> view s' = view s"
    and serialise_runs:
      "inv s \<Longrightarrow> fn region (s, k) = ((s1, k1), res) \<Longrightarrow> inv s1 \<Longrightarrow>
       \<exists>s2. so_Serialise store n fn (s, k) = ((s2, k1), res) \<and> inv s2 \<and>
         (view s2 = view s1 \<or> \<not> is_ok res \<and> view s2 = view s)"
begin

text \<open>What a writer's region does, once its envelope and payload are built or refused.\<close>

definition outcome ::
  "'s \<Rightarrow> string \<Rightarrow> Expectation \<Rightarrow> FactKind \<Rightarrow> (Envelope \<times> 'd Payload) result \<Rightarrow> ('d Stream \<times> FactRef) result" where
  "outcome s n ex kd built = bindR built (\<lambda>(e, p). append_spec (view s n) n ex e kd (Some p))"

definition performs ::
  "'s \<Rightarrow> string \<Rightarrow> ('d Stream \<times> FactRef) result \<Rightarrow> 's \<Rightarrow> FactRef result \<Rightarrow> bool" where
  "performs s n out s' res \<longleftrightarrow> inv s' \<and>
     (case out of Inl err \<Rightarrow> res = Inl err \<and> view s' = view s
      | Inr (st, r) \<Rightarrow> res = Inr r \<and> view s' = (view s)(n \<mapsto> st))"

lemma commit_performs:
  assumes "inv s" "\<forall>e p. built = Inr (e, p) \<longrightarrow> storable s n e p"
  shows "\<exists>s' res. commit region (s, k :: 'k) n ex kd built = ((s', k), res) \<and>
    performs s n (outcome s n ex kd built) s' res"
proof (cases built)
  case (Inl e)
  then show ?thesis using assms(1) by (simp add: commit_def outcome_def performs_def)
next
  case (Inr b)
  obtain e p where b: "b = (e, p)" by (cases b)
  with Inr assms(2) have st: "storable s n e p" by simp
  show ?thesis
  proof (cases "append_spec (view s n) n ex e kd (Some p)")
    case (Inl err)
    with append_refuses [OF assms(1) st] show ?thesis
      by (fastforce simp: commit_def outcome_def performs_def Inr b)
  next
    case (Inr x)
    obtain st r where x: "x = (st, r)" by (cases x)
    with append_accepts [OF assms(1) st] Inr show ?thesis
      using \<open>built = Inr b\<close> by (fastforce simp: commit_def outcome_def performs_def b)
  qed
qed

lemma serialise_performs:
  assumes "inv s" "fn region (s, k) = ((s1, k1), res)" "performs s n out s1 res"
  shows "\<exists>s2. so_Serialise store m fn (s, k) = ((s2, k1), res) \<and> performs s n out s2 res"
proof -
  have "inv s1" using assms(3) by (simp add: performs_def)
  from serialise_runs [of s fn k s1 k1 res m, OF assms(1,2) this] obtain s2 where
    s2: "so_Serialise store m fn (s, k) = ((s2, k1), res)" "inv s2"
      "view s2 = view s1 \<or> \<not> is_ok res \<and> view s2 = view s" by blast
  have "performs s n out s2 res"
    using assms(3) s2(2,3) by (auto simp: performs_def split: sum.splits)
  with s2(1) show ?thesis by blast
qed

lemma serialise_commit:
  assumes "inv s" "fn region (s, k) = commit region (s, k1) n ex kd built"
    and "\<forall>e p. built = Inr (e, p) \<longrightarrow> storable s n e p"
  shows "\<exists>s2 res. so_Serialise store m fn (s, k) = ((s2, k1), res) \<and>
    performs s n (outcome s n ex kd built) s2 res"
proof -
  obtain s1 res where "commit region (s, k1) n ex kd built = ((s1, k1), res)"
    "performs s n (outcome s n ex kd built) s1 res"
    using commit_performs [OF assms(1,3), of k1 ex kd] by blast
  then show ?thesis using serialise_performs [of s fn k s1 k1 res n _ m] assms(1,2) by metis
qed

lemma serialise_fails:
  assumes "inv s" "fn region (s, k) = ((s, k1), Inl e)"
  shows "\<exists>s2. so_Serialise store m fn (s, k) = ((s2, k1), Inl e) \<and> inv s2 \<and> view s2 = view s"
  using serialise_performs [of s fn k s k1 "Inl e" m "Inl e" m] assms by (auto simp: performs_def)

lemma performs_good:
  assumes "performs s n (outcome s n ex kd built) s' res" "good_view (view s)"
    and "\<forall>e p. built = Inr (e, p) \<longrightarrow> wf_envelope e"
  shows "good_view (view s')"
proof (cases "outcome s n ex kd built")
  case (Inl err)
  then show ?thesis using assms(1,2) by (simp add: performs_def)
next
  case (Inr x)
  obtain st r where x: "x = (st, r)" by (cases x)
  from Inr x obtain e p where "built = Inr (e, p)" "append_spec (view s n) n ex e kd (Some p) = Inr (st, r)"
    by (auto simp: outcome_def)
  then have "good_stream n st"
    using append_spec_good [of "view s n" n ex e kd "Some p" st r] assms(2,3) by (auto simp: good_view_def)
  then show ?thesis using assms(1,2) Inr x by (auto simp: performs_def good_view_def)
qed

text \<open>Each use case performs its append, or refuses and changes nothing.\<close>

lemma ObserveHolding_performs:
  assumes "lg_store l = store" "inv s" "ck_Now (lg_clock l) k = (now, k')"
    and "\<forall>e p. observe_built cmd now = Inr (e, p) \<longrightarrow> storable s (oh_Stream cmd) e p"
  shows "\<exists>s' res. ObserveHolding l cmd (s, k) = ((s', k'), res) \<and>
    performs s (oh_Stream cmd) (outcome s (oh_Stream cmd) Any KindObservation (observe_built cmd now)) s' res"
  unfolding ObserveHolding_def assms(1)
  by (rule serialise_commit [OF assms(2) _ assms(4)]) (simp add: assms(3) observe_region_def built_defs)

lemma AcceptHoldingClaim_performs:
  assumes "lg_store l = store" "inv s" "ck_Now (lg_clock l) k = (now, k')"
    and "\<forall>e p. accept_built cmd now = Inr (e, p) \<longrightarrow> storable s (ac_Stream cmd) e p"
    and "CheckContentAddress (ac_Source cmd) = Inr ()" "\<not> Claim_IsZero (ac_Account cmd)"
    and "\<not> Claim_IsZero (ac_Instrument cmd)"
  shows "\<exists>s' res. AcceptHoldingClaim l cmd (s, k) = ((s', k'), res) \<and>
    performs s (ac_Stream cmd) (outcome s (ac_Stream cmd) Any KindObservation (accept_built cmd now)) s' res"
proof -
  have "\<exists>s' res. so_Serialise store (ac_Stream cmd) (accept_region l cmd) (s, k) = ((s', k'), res) \<and>
    performs s (ac_Stream cmd) (outcome s (ac_Stream cmd) Any KindObservation (accept_built cmd now)) s' res"
    by (rule serialise_commit [OF assms(2) _ assms(4)]) (simp add: assms(3) accept_region_def built_defs)
  then show ?thesis using assms(1,5-7) by (simp add: AcceptHoldingClaim_def)
qed

lemma AcceptHoldingClaim_refuses:
  assumes "\<not> (CheckContentAddress (ac_Source cmd) = Inr () \<and> \<not> Claim_IsZero (ac_Account cmd) \<and>
    \<not> Claim_IsZero (ac_Instrument cmd))"
  shows "\<exists>e. AcceptHoldingClaim l cmd st = (st, Inl e)"
  using assms by (auto simp: AcceptHoldingClaim_def split: sum.splits)

lemma app_load_view:
  "inv s \<Longrightarrow> app_load region s n = (case view s n of None \<Rightarrow> NewStream n | Some st \<Rightarrow> Inr st)"
  using absent_error [of n]
  by (auto simp: app_load_def region_load errors_Is_def NewStream_def sentinel_defs split: option.split)

lemma MintIdentity_performs:
  assumes "lg_store l = store" "inv s" "ck_Now (lg_clock l) k = (now, k')"
    and "\<forall>e p. mint_built uc (lg_rules l) cmd stream now = Inr (e, p) \<longrightarrow> storable s (mi_Stream cmd) e p"
    and "CheckContentAddress (mi_Source cmd) = Inr ()" "Kind_Valid (mi_Kind cmd)" "\<not> Claim_IsZero (mi_Claim cmd)"
    and "(case view s (mi_Stream cmd) of None \<Rightarrow> NewStream (mi_Stream cmd) | Some st \<Rightarrow> Inr st) = Inr stream"
  shows "\<exists>s' res. MintIdentity uc l cmd (s, k) = ((s', k'), res) \<and>
    performs s (mi_Stream cmd) (outcome s (mi_Stream cmd) (AtLength (int (Stream_Len stream))) KindOccurrence
      (mint_built uc (lg_rules l) cmd stream now)) s' res"
proof -
  have "\<exists>s' res. so_Serialise store (mi_Stream cmd) (mint_region uc l cmd) (s, k) = ((s', k'), res) \<and>
    performs s (mi_Stream cmd) (outcome s (mi_Stream cmd) (AtLength (int (Stream_Len stream))) KindOccurrence
      (mint_built uc (lg_rules l) cmd stream now)) s' res"
    by (rule serialise_commit [OF assms(2) _ assms(4)])
       (simp add: assms(2,3,8) mint_region_def app_load_view mint_built_eq)
  then show ?thesis using assms(1,5-7) by (simp add: MintIdentity_def)
qed

lemma MintIdentity_refuses:
  assumes "lg_store l = store" "inv s"
    and "\<not> (CheckContentAddress (mi_Source cmd) = Inr () \<and> Kind_Valid (mi_Kind cmd) \<and>
      \<not> Claim_IsZero (mi_Claim cmd) \<and>
      is_ok (case view s (mi_Stream cmd) of None \<Rightarrow> NewStream (mi_Stream cmd) | Some st \<Rightarrow> Inr st))"
  shows "\<exists>s' err. MintIdentity uc l cmd (s, k) = ((s', k), Inl err) \<and> inv s' \<and> view s' = view s"
proof (cases "case view s (mi_Stream cmd) of None \<Rightarrow> NewStream (mi_Stream cmd) | Some st \<Rightarrow> Inr st")
  case (Inl e)
  have "\<exists>s'. so_Serialise store (mi_Stream cmd) (mint_region uc l cmd) (s, k) = ((s', k), Inl e) \<and>
      inv s' \<and> view s' = view s"
    by (rule serialise_fails [OF assms(2)]) (simp add: mint_region_def app_load_view assms(2) Inl)
  then show ?thesis using assms(1,2) by (auto simp: MintIdentity_def split: sum.splits)
next
  case (Inr st)
  then show ?thesis using assms by (auto simp: MintIdentity_def split: sum.splits)
qed

lemma CorrectFact_performs:
  assumes "lg_store l = store" "inv s" "ck_Now (lg_clock l) k = (now, k')"
    and "\<forall>e p. correct_built cmd corrected now = Inr (e, p) \<longrightarrow> storable s (cf_Stream cmd) e p"
    and "view s (cf_Stream cmd) = Some stream" "Stream_Get stream (cf_Corrects cmd) = Inr corrected"
    and "CorrectionKind_Valid (cf_Kind cmd)"
  shows "\<exists>s' res. CorrectFact l cmd (s, k) = ((s', k'), res) \<and>
    performs s (cf_Stream cmd) (outcome s (cf_Stream cmd) (AtLength (int (Stream_Len stream))) KindObservation
      (correct_built cmd corrected now)) s' res"
  unfolding CorrectFact_def assms(1)
  by (rule serialise_commit [OF assms(2) _ assms(4)]) (simp add: assms correct_region_def region_load built_defs)

lemma CorrectFact_refuses:
  assumes "lg_store l = store" "inv s"
    and "\<nexists>stream corrected. view s (cf_Stream cmd) = Some stream \<and>
      Stream_Get stream (cf_Corrects cmd) = Inr corrected \<and> CorrectionKind_Valid (cf_Kind cmd)"
  shows "\<exists>s' err. CorrectFact l cmd (s, k) = ((s', k), Inl err) \<and> inv s' \<and> view s' = view s"
proof -
  have "\<exists>e. correct_region l cmd region (s, k) = ((s, k), Inl e)"
    using assms(2,3) by (cases "view s (cf_Stream cmd)") (auto simp: correct_region_def region_load split: sum.splits)
  then show ?thesis
    unfolding CorrectFact_def assms(1) using serialise_fails [OF assms(2), of "correct_region l cmd" k k] by blast
qed

lemma ObserveClaimedHolding_performs:
  assumes "lg_store l = store" "inv s" "ck_Now (lg_clock l) k = (now, k')"
    and "\<forall>e p. claimed_built cmd claimed observed now = Inr (e, p) \<longrightarrow> storable s (oc_Stream cmd) e p"
    and "view s (oc_Stream cmd) = Some stream" "Stream_Get stream (oc_Claim cmd) = Inr claimed"
    and "DeriveHoldingObserved uc stream claimed (lg_rules l) (oc_AsOf cmd) = Inr observed"
  shows "\<exists>s' res. ObserveClaimedHolding uc l cmd (s, k) = ((s', k'), res) \<and>
    performs s (oc_Stream cmd) (outcome s (oc_Stream cmd) (AtLength (int (Stream_Len stream))) KindObservation
      (claimed_built cmd claimed observed now)) s' res"
  unfolding ObserveClaimedHolding_def assms(1)
  by (rule serialise_commit [OF assms(2) _ assms(4)]) (simp add: assms claimed_region_def region_load built_defs)

lemma ObserveClaimedHolding_refuses:
  assumes "lg_store l = store" "inv s"
    and "\<nexists>stream claimed observed. view s (oc_Stream cmd) = Some stream \<and>
      Stream_Get stream (oc_Claim cmd) = Inr claimed \<and>
      DeriveHoldingObserved uc stream claimed (lg_rules l) (oc_AsOf cmd) = Inr observed"
  shows "\<exists>s' err. ObserveClaimedHolding uc l cmd (s, k) = ((s', k), Inl err) \<and> inv s' \<and> view s' = view s"
proof -
  have "\<exists>e. claimed_region uc l cmd region (s, k) = ((s, k), Inl e)"
    using assms(2,3) by (cases "view s (oc_Stream cmd)") (auto simp: claimed_region_def region_load split: sum.splits)
  then show ?thesis
    unfolding ObserveClaimedHolding_def assms(1)
    using serialise_fails [OF assms(2), of "claimed_region uc l cmd" k k] by blast
qed

lemma performs_step:
  assumes "performs s n (outcome s n ex kd built) s' res"
  shows "inv s' \<and> view_step (view s) (view s') res"
proof (cases "outcome s n ex kd built")
  case (Inl err)
  then show ?thesis using assms by (simp add: performs_def view_step_def)
next
  case (Inr x)
  obtain st r where x: "x = (st, r)" by (cases x)
  from Inr x obtain e p where "append_spec (view s n) n ex e kd (Some p) = Inr (st, r)"
    by (auto simp: outcome_def)
  then show ?thesis using assms Inr x append_spec_step [of "view s"] by (simp add: performs_def)
qed

lemma unchanged_step: "view s' = view s \<Longrightarrow> view_step (view s) (view s') (Inl e)"
  by (simp add: view_step_def)

text \<open>A successful writer appended the fact it built, after every fact of the stream.\<close>

lemma performs_Inr:
  assumes "performs s n (outcome s n ex kd built) s' (Inr r)" "good_view (view s)"
  shows "\<exists>e p st st' f. built = Inr (e, p) \<and> view s' = (view s)(n \<mapsto> st') \<and>
    st_facts st' = st_facts st @ [f] \<and> f_envelope f = e \<and> f_ref f = r \<and> f_payload f = p \<and> f_kind f = kd \<and>
    (view s n = Some st \<or> view s n = None \<and> st_facts st = []) \<and> st_name st' = n \<and>
    (\<forall>g \<in> set (st_facts st). fact_knowledge g < knowledge (ev_coordinates e))"
proof -
  from assms(1) obtain st' where st': "outcome s n ex kd built = Inr (st', r)" "view s' = (view s)(n \<mapsto> st')"
    by (auto simp: performs_def split: sum.splits)
  then obtain e p where b: "built = Inr (e, p)" "append_spec (view s n) n ex e kd (Some p) = Inr (st', r)"
    by (auto simp: outcome_def)
  from append_spec_mono [OF b(2)] assms(2) obtain st f where
    "st_facts st' = st_facts st @ [f]" "f_envelope f = e" "f_ref f = r" "Some p = Some (f_payload f)" "f_kind f = kd"
    "view s n = Some st \<or> view s n = None \<and> st_facts st = []" "st_name st' = n"
    "\<forall>g \<in> set (st_facts st). fact_knowledge g < knowledge (ev_coordinates e)"
    by (auto simp: good_view_def)
  with b(1) st'(2) show ?thesis by blast
qed

lemma outcome_accepts:
  assumes "built = Inr (e, p)" "\<not> Provenance_IsZero (ev_provenance e)" "FactKind_Valid kd"
    and "(case view s n of None \<Rightarrow> NewStream n | Some st \<Rightarrow> Inr st) = Inr st"
    and "ex_checked ex \<longrightarrow> int (Stream_Len st) = ex_length ex"
    and "st_facts st = [] \<or> fact_knowledge (last (st_facts st)) < knowledge (ev_coordinates e)"
  shows "\<exists>st' r. outcome s n ex kd built = Inr (st', r)"
  using assms by (auto simp: outcome_def append_spec_def Stream_Append_def NewFact_def Let_def)

lemma performs_accepts:
  assumes "performs s n (outcome s n ex kd built) s' res" "outcome s n ex kd built = Inr (st', r)"
  shows "res = Inr r"
  using assms by (simp add: performs_def)

lemma Resolve_facts_eq: "st_facts s1 = st_facts s2 \<Longrightarrow> Resolve uc s1 c rs a = Resolve uc s2 c rs a"
  by (simp add: Resolve_eq VisibleAt_def)

lemma MintIdentity_Inr:
  assumes "lg_store l = store" "inv s" "good_view (view s)" "\<And>n e p. storable s n e p"
    and "wf_interval (mi_Effective cmd)" "MintIdentity uc l cmd (s, k) = ((s', k'), Inr r)"
  shows "\<exists>t i st' f. fst (ck_Now (lg_clock l) k) = Inr t \<and> view s' = (view s)(mi_Stream cmd \<mapsto> st') \<and>
    DeriveFromClaim uc (mi_Kind cmd) (Ruleset_Fold (lg_rules l) (mi_Claim cmd)) = Inr i \<and>
    st_facts st' = (case view s (mi_Stream cmd) of None \<Rightarrow> [] | Some st \<Rightarrow> st_facts st) @ [f] \<and>
    f_ref f = r \<and> f_kind f = KindOccurrence \<and>
    f_payload f = EntityMintedP \<lparr>em_Entity = i, em_BornFrom = mi_Claim cmd\<rparr> \<and>
    pv_derivation (ev_provenance (f_envelope f)) \<noteq> None \<and> fact_knowledge f = t \<and>
    (\<forall>c'. CanonicalPreimage uc (lg_rules l) c' = CanonicalPreimage uc (lg_rules l) (mi_Claim cmd) \<longrightarrow>
       Resolve uc st' c' (lg_rules l) \<lparr>ao_effective = iv_from (mi_Effective cmd), ao_knowledge = t\<rparr> = Inr i)"
proof -
  let ?cur = "case view s (mi_Stream cmd) of None \<Rightarrow> NewStream (mi_Stream cmd) | Some st \<Rightarrow> Inr st"
  obtain now k1 where now: "ck_Now (lg_clock l) k = (now, k1)" by (cases "ck_Now (lg_clock l) k")
  have ok: "CheckContentAddress (mi_Source cmd) = Inr ()" "Kind_Valid (mi_Kind cmd)" "\<not> Claim_IsZero (mi_Claim cmd)"
    "is_ok ?cur"
    using MintIdentity_refuses [OF assms(1,2), of cmd uc k] assms(6) by force+
  then obtain stream where stream: "?cur = Inr stream" by (auto simp: is_ok_iff)
  from MintIdentity_performs [OF assms(1,2) now _ ok(1-3) stream, of uc] assms(4,6)
  have perf: "performs s (mi_Stream cmd) (outcome s (mi_Stream cmd) (AtLength (int (Stream_Len stream))) KindOccurrence
      (mint_built uc (lg_rules l) cmd stream now)) s' (Inr r)" by auto
  from performs_Inr [OF perf assms(3)] obtain e p st st' f where
    b: "mint_built uc (lg_rules l) cmd stream now = Inr (e, p)" and v: "view s' = (view s)(mi_Stream cmd \<mapsto> st')" and
    f: "st_facts st' = st_facts st @ [f]" "f_envelope f = e" "f_ref f = r" "f_payload f = p" "f_kind f = KindOccurrence" and
    st: "view s (mi_Stream cmd) = Some st \<or> view s (mi_Stream cmd) = None \<and> st_facts st = []" by blast
  from mint_built_Inr [OF b] obtain t minted where t: "now = Inr t" and
    un: "Resolve uc stream (mi_Claim cmd) (lg_rules l) \<lparr>ao_effective = iv_from (mi_Effective cmd), ao_knowledge = t\<rparr> = Inl [ErrUnresolved]" and
    m: "MintFor uc (mi_Kind cmd) (mi_Claim cmd) (lg_rules l) (mint_answers cmd) (mi_Confidence cmd) = Inr minted" and
    p: "p = EntityMintedP (v_value minted)" and
    e: "envelope_for (mi_Effective cmd) (Inr t) (Derived (mi_Source cmd) (mi_CollectedAt cmd) (mi_Interpreter cmd)
      (v_trace minted) (mi_Confidence cmd)) (mi_References cmd) = Inr e" by blast
  have id: "DeriveFromClaim uc (mi_Kind cmd) (Ruleset_Fold (lg_rules l) (mi_Claim cmd)) = Inr (em_Entity (v_value minted))"
    and born: "em_BornFrom (v_value minted) = mi_Claim cmd" using m by (simp_all add: MintFor_Inr_iff)
  have facts: "st_facts stream = st_facts st" using st stream by (auto simp: NewStream_Inr_iff)
  have env: "effective (ev_coordinates e) = mi_Effective cmd" "knowledge (ev_coordinates e) = t"
    "pv_derivation (ev_provenance e) \<noteq> None"
    using e by (auto simp: envelope_for_Inr_iff Derived_Inr_iff)
  have vis: "Fact_Visible f \<lparr>ao_effective = iv_from (mi_Effective cmd), ao_knowledge = t\<rparr>"
    using env wf_interval_contains_from [OF assms(5)] by (simp add: Fact_Visible_iff f(2))
  have un': "Resolve uc st (mi_Claim cmd) (lg_rules l) \<lparr>ao_effective = iv_from (mi_Effective cmd), ao_knowledge = t\<rparr> =
      Inl [ErrUnresolved]" using un Resolve_facts_eq [OF facts] by simp
  have "Resolve uc st' c' (lg_rules l) \<lparr>ao_effective = iv_from (mi_Effective cmd), ao_knowledge = t\<rparr> =
      Inr (em_Entity (v_value minted))"
    if "CanonicalPreimage uc (lg_rules l) c' = CanonicalPreimage uc (lg_rules l) (mi_Claim cmd)" for c'
    by (rule appended_mint_resolves [OF f(1) _ born vis un' that]) (simp add: f(4) p)
  moreover have "v_value minted = \<lparr>em_Entity = em_Entity (v_value minted), em_BornFrom = mi_Claim cmd\<rparr>"
    using born by simp
  ultimately show ?thesis
    using t now v id f env p st by (intro exI [of _ t] exI [of _ "em_Entity (v_value minted)"] exI [of _ st'] exI [of _ f]) auto
qed

lemma AcceptHoldingClaim_admits:
  assumes "lg_store l = store" "inv s" "\<forall>e p. accept_built cmd (Inr t) = Inr (e, p) \<longrightarrow> storable s (ac_Stream cmd) e p"
    and "CheckContentAddress (ac_Source cmd) = Inr ()" "\<not> Claim_IsZero (ac_Account cmd)"
    and "\<not> Claim_IsZero (ac_Instrument cmd)" "ck_Now (lg_clock l) k = (Inr t, k')" "t \<noteq> zeroInstant"
    and "iv_from (ac_Effective cmd) \<noteq> zeroInstant" "ac_Stream cmd \<noteq> []"
    and "Observed (ac_Source cmd) (ac_CollectedAt cmd) (ac_Interpreter cmd) (ac_Confidence cmd) = Inr prov"
    and "\<forall>st. view s (ac_Stream cmd) = Some st \<and> st_facts st \<noteq> [] \<longrightarrow> fact_knowledge (last (st_facts st)) < t"
  shows "\<exists>s' st' f. AcceptHoldingClaim l cmd (s, k) = ((s', k'), Inr (f_ref f)) \<and>
    view s' = (view s)(ac_Stream cmd \<mapsto> st') \<and>
    st_facts st' = (case view s (ac_Stream cmd) of None \<Rightarrow> [] | Some st \<Rightarrow> st_facts st) @ [f] \<and>
    f_payload f = HoldingClaimedP \<lparr>hc_Account = ac_Account cmd, hc_Instrument = ac_Instrument cmd,
      hc_Quantity = ac_Quantity cmd\<rparr> \<and>
    f_kind f = KindObservation \<and> ev_coordinates (f_envelope f) = \<lparr>effective = ac_Effective cmd, knowledge = t\<rparr> \<and>
    ev_provenance (f_envelope f) = prov"
proof -
  let ?p = "HoldingClaimedP \<lparr>hc_Account = ac_Account cmd, hc_Instrument = ac_Instrument cmd, hc_Quantity = ac_Quantity cmd\<rparr>"
  let ?e = "\<lparr>ev_coordinates = \<lparr>effective = ac_Effective cmd, knowledge = t\<rparr>, ev_provenance = prov,
      ev_references = ac_References cmd\<rparr>"
  have "\<not> Provenance_IsZero prov" using assms(11) Observed_wf wf_provenance_nonzero by blast
  then have built: "accept_built cmd (Inr t) = Inr (?e, ?p)"
    unfolding accept_built_def with_payload_Inr_iff using assms(8,9,11) by (auto simp: envelope_for_Inr_iff)
  obtain st0 where st0: "(case view s (ac_Stream cmd) of None \<Rightarrow> NewStream (ac_Stream cmd) | Some st \<Rightarrow> Inr st) = Inr st0"
    using assms(10) by (cases "view s (ac_Stream cmd)") (simp_all add: NewStream_def)
  have facts: "st_facts st0 = (case view s (ac_Stream cmd) of None \<Rightarrow> [] | Some st \<Rightarrow> st_facts st)"
    using st0 by (cases "view s (ac_Stream cmd)") (auto simp: NewStream_Inr_iff)
  have mono: "\<not> (st_facts st0 \<noteq> [] \<and> \<not> fact_knowledge (last (st_facts st0)) < t)"
    using facts assms(12) by (cases "view s (ac_Stream cmd)") auto
  obtain st' r where ap: "Stream_Append st0 ?e KindObservation (Some ?p) = Inr (st', r)"
    using \<open>\<not> Provenance_IsZero prov\<close> by (simp add: Stream_Append_def NewFact_def FactKind_Valid_def Let_def)
  then have "append_spec (view s (ac_Stream cmd)) (ac_Stream cmd) Any ?e KindObservation (Some ?p) = Inr (st', r)"
    using st0 mono by (simp add: append_spec_def Any_def)
  then have out: "outcome s (ac_Stream cmd) Any KindObservation (accept_built cmd (Inr t)) = Inr (st', r)"
    by (simp add: outcome_def built)
  from AcceptHoldingClaim_performs [OF assms(1,2,7) _ assms(4-6)] assms(3) out obtain s' where
    "AcceptHoldingClaim l cmd (s, k) = ((s', k'), Inr r)" "view s' = (view s)(ac_Stream cmd \<mapsto> st')"
    by (auto simp: performs_def)
  with ap facts show ?thesis
    by (intro exI [of _ s'] exI [of _ st'] exI [of _ "\<lparr>f_ref = r, f_envelope = ?e, f_kind = KindObservation, f_payload = ?p\<rparr>"])
       (auto simp: Stream_Append_Inr_iff)
qed

lemma CorrectFact_Inr:
  assumes "lg_store l = store" "inv s" "good_view (view s)" "\<And>n e p. storable s n e p"
    and "CorrectFact l cmd (s, k) = ((s', k'), Inr r)"
  shows "\<exists>st st' corrected f. view s (cf_Stream cmd) = Some st \<and> Stream_Get st (cf_Corrects cmd) = Inr corrected \<and>
    view s' = (view s)(cf_Stream cmd \<mapsto> st') \<and> st_facts st' = st_facts st @ [f] \<and> f_ref f = r \<and>
    f_payload f = FactCorrectedP \<lparr>fc_Corrects = cf_Corrects cmd, fc_Kind = cf_Kind cmd, fc_Reason = cf_Reason cmd\<rparr> \<and>
    effective (ev_coordinates (f_envelope f)) = effective (ev_coordinates (f_envelope corrected)) \<and>
    (\<forall>g \<in> set (st_facts st). fact_knowledge g < fact_knowledge f)"
proof -
  obtain now k1 where now: "ck_Now (lg_clock l) k = (now, k1)" by (cases "ck_Now (lg_clock l) k")
  obtain st corrected where v: "view s (cf_Stream cmd) = Some st"
    "Stream_Get st (cf_Corrects cmd) = Inr corrected" "CorrectionKind_Valid (cf_Kind cmd)"
    using CorrectFact_refuses [OF assms(1,2), of cmd k] assms(5) by force
  from CorrectFact_performs [OF assms(1,2) now _ v] assms(4,5)
  have perf: "performs s (cf_Stream cmd) (outcome s (cf_Stream cmd) (AtLength (int (Stream_Len st))) KindObservation
      (correct_built cmd corrected now)) s' (Inr r)" by auto
  from performs_Inr [OF perf assms(3)] v(1) obtain e p st' f where
    b: "correct_built cmd corrected now = Inr (e, p)" and w: "view s' = (view s)(cf_Stream cmd \<mapsto> st')" and
    f: "st_facts st' = st_facts st @ [f]" "f_envelope f = e" "f_ref f = r" "f_payload f = p"
      "\<forall>g \<in> set (st_facts st). fact_knowledge g < knowledge (ev_coordinates e)" by auto
  have "p = FactCorrectedP \<lparr>fc_Corrects = cf_Corrects cmd, fc_Kind = cf_Kind cmd, fc_Reason = cf_Reason cmd\<rparr>"
    "effective (ev_coordinates e) = effective (ev_coordinates (f_envelope corrected))"
    using b by (auto simp: correct_built_def with_payload_Inr_iff envelope_for_Inr_iff)
  with v w f show ?thesis by (intro exI [of _ st] exI [of _ st'] exI [of _ corrected] exI [of _ f]) simp
qed

lemma ObserveClaimedHolding_Inr:
  assumes "lg_store l = store" "inv s" "good_view (view s)" "\<And>n e p. storable s n e p"
    and "ObserveClaimedHolding uc l cmd (s, k) = ((s', k'), Inr r)"
  shows "\<exists>st st' claimed v f. view s (oc_Stream cmd) = Some st \<and> Stream_Get st (oc_Claim cmd) = Inr claimed \<and>
    DeriveHoldingObserved uc st claimed (lg_rules l) (oc_AsOf cmd) = Inr v \<and>
    view s' = (view s)(oc_Stream cmd \<mapsto> st') \<and> st_facts st' = st_facts st @ [f] \<and> f_ref f = r \<and>
    f_payload f = HoldingObservedP (v_value v) \<and>
    pv_derivation (ev_provenance (f_envelope f)) = Some (v_trace v) \<and>
    pv_confidence (ev_provenance (f_envelope f)) = dr_confidence (v_record v) \<and>
    effective (ev_coordinates (f_envelope f)) = effective (ev_coordinates (f_envelope claimed)) \<and>
    ev_references (f_envelope f) = ev_references (f_envelope claimed)"
proof -
  obtain now k1 where now: "ck_Now (lg_clock l) k = (now, k1)" by (cases "ck_Now (lg_clock l) k")
  obtain st claimed v where d: "view s (oc_Stream cmd) = Some st" "Stream_Get st (oc_Claim cmd) = Inr claimed"
    "DeriveHoldingObserved uc st claimed (lg_rules l) (oc_AsOf cmd) = Inr v"
    using ObserveClaimedHolding_refuses [OF assms(1,2), of cmd uc k] assms(5) by force
  from ObserveClaimedHolding_performs [OF assms(1,2) now _ d] assms(4,5)
  have perf: "performs s (oc_Stream cmd) (outcome s (oc_Stream cmd) (AtLength (int (Stream_Len st))) KindObservation
      (claimed_built cmd claimed v now)) s' (Inr r)" by auto
  from performs_Inr [OF perf assms(3)] d(1) obtain e p st' f where
    b: "claimed_built cmd claimed v now = Inr (e, p)" and w: "view s' = (view s)(oc_Stream cmd \<mapsto> st')" and
    f: "st_facts st' = st_facts st @ [f]" "f_envelope f = e" "f_ref f = r" "f_payload f = p" by auto
  have "p = HoldingObservedP (v_value v)" "effective (ev_coordinates e) = effective (ev_coordinates (f_envelope claimed))"
    "pv_derivation (ev_provenance e) = Some (v_trace v)" "pv_confidence (ev_provenance e) = dr_confidence (v_record v)"
    "ev_references e = ev_references (f_envelope claimed)"
    using b by (auto simp: claimed_built_def with_payload_Inr_iff envelope_for_Inr_iff Derived_Inr_iff)
  with d w f show ?thesis
    by (intro exI [of _ st] exI [of _ st'] exI [of _ claimed] exI [of _ v] exI [of _ f]) simp
qed

lemma MintIdentity_known:
  assumes "lg_store l = store" "inv s" "\<And>n e p. storable s n e p" "view s (mi_Stream cmd) = Some st"
    and "CheckContentAddress (mi_Source cmd) = Inr ()" "Kind_Valid (mi_Kind cmd)" "\<not> Claim_IsZero (mi_Claim cmd)"
    and "ck_Now (lg_clock l) k = (Inr t, k')" "t \<noteq> zeroInstant" "iv_from (mi_Effective cmd) \<noteq> zeroInstant"
    and "Resolve uc st (mi_Claim cmd) (lg_rules l) \<lparr>ao_effective = iv_from (mi_Effective cmd), ao_knowledge = t\<rparr> = Inr i"
  shows "\<exists>s'. MintIdentity uc l cmd (s, k) = ((s', k'), Inl [ErrAlreadyMinted]) \<and> view s' = view s"
proof -
  have "(case view s (mi_Stream cmd) of None \<Rightarrow> NewStream (mi_Stream cmd) | Some st \<Rightarrow> Inr st) = Inr st"
    using assms(4) by simp
  from MintIdentity_performs [OF assms(1,2,8) _ assms(5-7) this, of uc] assms(3) obtain s' res where
    "MintIdentity uc l cmd (s, k) = ((s', k'), res)"
    "performs s (mi_Stream cmd) (outcome s (mi_Stream cmd) (AtLength (int (Stream_Len st))) KindOccurrence
      (mint_built uc (lg_rules l) cmd st (Inr t))) s' res" by blast
  moreover have "mint_built uc (lg_rules l) cmd st (Inr t) = Inl [ErrAlreadyMinted]"
    using assms(9-11) by (simp add: mint_built_def NewAsOf_def Instant_IsZero_iff)
  ultimately show ?thesis by (simp add: outcome_def performs_def)
qed

end

section \<open>Stores that can hold every fact\<close>

locale total_store = store_contract store region inv view storable absent
  for store :: "('d, 's, 'k) Store" and region :: "('d, 's) Region" and inv :: "'s \<Rightarrow> bool"
    and view :: "'s \<Rightarrow> string \<Rightarrow> 'd Stream option" and storable :: "'s \<Rightarrow> string \<Rightarrow> Envelope \<Rightarrow> 'd Payload \<Rightarrow> bool"
    and absent :: "string \<Rightarrow> go_error" +
  assumes storable_all: "storable s n e p"
begin

text \<open>Every command, whatever it holds, is one step; from good states with well-made commands it
  leads to good states.\<close>

definition sound_step :: "bool \<Rightarrow> 's \<Rightarrow> ('s \<times> 'k) \<times> FactRef result \<Rightarrow> bool" where
  "sound_step ok s out \<longleftrightarrow> inv (fst (fst out)) \<and> view_step (view s) (view (fst (fst out))) (snd out) \<and>
     (ok \<and> good_view (view s) \<longrightarrow> good_view (view (fst (fst out))))"

lemma sound_same: "inv s' \<Longrightarrow> view s' = view s \<Longrightarrow> sound_step ok s ((s', k), Inl e)"
  by (simp add: sound_step_def view_step_def)

lemma sound_performs:
  assumes "performs s n (outcome s n ex kd built) s' res"
    and "ok \<Longrightarrow> good_view (view s) \<Longrightarrow> \<forall>e p. built = Inr (e, p) \<longrightarrow> wf_envelope e"
  shows "sound_step ok s ((s', k), res)"
  using performs_step [OF assms(1)] performs_good [OF assms(1)] assms(2) by (auto simp: sound_step_def)

lemma good_view_get:
  assumes "good_view (view s)" "view s n = Some stream" "Stream_Get stream r = Inr f"
    and "length (st_facts stream) < 2 ^ 63"
  shows "wf_fact f"
  using assms by (auto simp: Stream_Get_Inr_iff good_view_def good_stream_def list_all_iff)

lemma ObserveHolding_sound:
  assumes "lg_store l = store" "inv s"
  shows "sound_step (interval_value (oh_Effective cmd)) s (ObserveHolding l cmd (s, k))"
proof -
  obtain now k' where now: "ck_Now (lg_clock l) k = (now, k')" by (cases "ck_Now (lg_clock l) k")
  obtain s' res where r: "ObserveHolding l cmd (s, k) = ((s', k'), res)"
    "performs s (oh_Stream cmd) (outcome s (oh_Stream cmd) Any KindObservation (observe_built cmd now)) s' res"
    using ObserveHolding_performs [OF assms now] storable_all by blast
  show ?thesis unfolding r(1) by (rule sound_performs [OF r(2)]) (auto dest: observe_built_wf)
qed

lemma AcceptHoldingClaim_sound:
  assumes "lg_store l = store" "inv s"
  shows "sound_step (interval_value (ac_Effective cmd)) s (AcceptHoldingClaim l cmd (s, k))"
proof (cases "CheckContentAddress (ac_Source cmd) = Inr () \<and> \<not> Claim_IsZero (ac_Account cmd) \<and>
    \<not> Claim_IsZero (ac_Instrument cmd)")
  case True
  obtain now k' where now: "ck_Now (lg_clock l) k = (now, k')" by (cases "ck_Now (lg_clock l) k")
  obtain s' res where r: "AcceptHoldingClaim l cmd (s, k) = ((s', k'), res)"
    "performs s (ac_Stream cmd) (outcome s (ac_Stream cmd) Any KindObservation (accept_built cmd now)) s' res"
    using AcceptHoldingClaim_performs [OF assms now] storable_all True by blast
  show ?thesis unfolding r(1) by (rule sound_performs [OF r(2)]) (auto dest: accept_built_wf)
next
  case False
  then obtain e where "AcceptHoldingClaim l cmd (s, k) = ((s, k), Inl e)"
    using AcceptHoldingClaim_refuses by blast
  then show ?thesis using sound_same assms(2) by simp
qed

lemma MintIdentity_sound:
  assumes "lg_store l = store" "inv s"
  shows "sound_step (interval_value (mi_Effective cmd)) s (MintIdentity uc l cmd (s, k))"
proof (cases "CheckContentAddress (mi_Source cmd) = Inr () \<and> Kind_Valid (mi_Kind cmd) \<and>
    \<not> Claim_IsZero (mi_Claim cmd) \<and>
    is_ok (case view s (mi_Stream cmd) of None \<Rightarrow> NewStream (mi_Stream cmd) | Some st \<Rightarrow> Inr st)")
  case True
  obtain now k' where now: "ck_Now (lg_clock l) k = (now, k')" by (cases "ck_Now (lg_clock l) k")
  from True obtain stream where
    st: "(case view s (mi_Stream cmd) of None \<Rightarrow> NewStream (mi_Stream cmd) | Some st \<Rightarrow> Inr st) = Inr stream"
    by (auto simp: is_ok_iff)
  obtain s' res where r: "MintIdentity uc l cmd (s, k) = ((s', k'), res)"
    "performs s (mi_Stream cmd) (outcome s (mi_Stream cmd) (AtLength (int (Stream_Len stream))) KindOccurrence
      (mint_built uc (lg_rules l) cmd stream now)) s' res"
    using MintIdentity_performs [OF assms now] storable_all True st by blast
  show ?thesis unfolding r(1) by (rule sound_performs [OF r(2)]) (auto dest: mint_built_wf)
next
  case False
  then obtain s' e where "MintIdentity uc l cmd (s, k) = ((s', k), Inl e)" "inv s'" "view s' = view s"
    using MintIdentity_refuses [OF assms, of cmd uc k] by blast
  then show ?thesis by (simp add: sound_same)
qed

lemma CorrectFact_sound:
  assumes "lg_store l = store" "inv s" "\<forall>n st. view s n = Some st \<longrightarrow> length (st_facts st) < 2 ^ 63"
  shows "sound_step True s (CorrectFact l cmd (s, k))"
proof (cases "\<exists>stream corrected. view s (cf_Stream cmd) = Some stream \<and>
    Stream_Get stream (cf_Corrects cmd) = Inr corrected \<and> CorrectionKind_Valid (cf_Kind cmd)")
  case True
  obtain now k' where now: "ck_Now (lg_clock l) k = (now, k')" by (cases "ck_Now (lg_clock l) k")
  from True obtain stream corrected where v: "view s (cf_Stream cmd) = Some stream"
    "Stream_Get stream (cf_Corrects cmd) = Inr corrected" "CorrectionKind_Valid (cf_Kind cmd)" by blast
  obtain s' res where r: "CorrectFact l cmd (s, k) = ((s', k'), res)"
    "performs s (cf_Stream cmd) (outcome s (cf_Stream cmd) (AtLength (int (Stream_Len stream))) KindObservation
      (correct_built cmd corrected now)) s' res"
    using CorrectFact_performs [OF assms(1,2) now _ v] storable_all by blast
  have "wf_fact corrected" if "good_view (view s)"
    using good_view_get [OF that v(1,2)] assms(3) v(1) by blast
  then show ?thesis unfolding r(1) by (intro sound_performs [OF r(2)]) (auto dest: correct_built_wf)
next
  case False
  then obtain s' e where "CorrectFact l cmd (s, k) = ((s', k), Inl e)" "inv s'" "view s' = view s"
    using CorrectFact_refuses [OF assms(1,2), of cmd k] by blast
  then show ?thesis by (simp add: sound_same)
qed

lemma ObserveClaimedHolding_sound:
  assumes "lg_store l = store" "inv s" "\<forall>n st. view s n = Some st \<longrightarrow> length (st_facts st) < 2 ^ 63"
  shows "sound_step True s (ObserveClaimedHolding uc l cmd (s, k))"
proof (cases "\<exists>stream claimed observed. view s (oc_Stream cmd) = Some stream \<and>
    Stream_Get stream (oc_Claim cmd) = Inr claimed \<and>
    DeriveHoldingObserved uc stream claimed (lg_rules l) (oc_AsOf cmd) = Inr observed")
  case True
  obtain now k' where now: "ck_Now (lg_clock l) k = (now, k')" by (cases "ck_Now (lg_clock l) k")
  from True obtain stream claimed observed where v: "view s (oc_Stream cmd) = Some stream"
    "Stream_Get stream (oc_Claim cmd) = Inr claimed"
    "DeriveHoldingObserved uc stream claimed (lg_rules l) (oc_AsOf cmd) = Inr observed" by blast
  obtain s' res where r: "ObserveClaimedHolding uc l cmd (s, k) = ((s', k'), res)"
    "performs s (oc_Stream cmd) (outcome s (oc_Stream cmd) (AtLength (int (Stream_Len stream))) KindObservation
      (claimed_built cmd claimed observed now)) s' res"
    using ObserveClaimedHolding_performs [OF assms(1,2) now _ v] storable_all by blast
  have "wf_fact claimed" if "good_view (view s)"
    using good_view_get [OF that v(1,2)] assms(3) v(1) by blast
  then show ?thesis unfolding r(1) by (intro sound_performs [OF r(2)]) (auto dest: claimed_built_wf)
next
  case False
  then obtain s' e where "ObserveClaimedHolding uc l cmd (s, k) = ((s', k), Inl e)" "inv s'" "view s' = view s"
    using ObserveClaimedHolding_refuses [OF assms(1,2), of cmd uc k] by blast
  then show ?thesis by (simp add: sound_same)
qed

lemma run_sound:
  assumes "lg_store l = store" "inv s" "\<forall>n st. view s n = Some st \<longrightarrow> length (st_facts st) < 2 ^ 63"
  shows "sound_step (command_ok c) s (run uc l c (s, k))"
  using assms by (cases c)
    (simp_all add: ObserveHolding_sound AcceptHoldingClaim_sound MintIdentity_sound CorrectFact_sound
      ObserveClaimedHolding_sound)

end

end
