(* ===== verification/Memory_Store.thy ===== *)
theory Memory_Store
  imports Ledger_App
begin

unbundle bit_operations_syntax

text \<open>
  \<^verbatim>\<open>src/libs/ledger/adapters\<close>: the in-memory store (\<^verbatim>\<open>memory/store.go\<close>), the shard a stream's
  write lock lives in (\<^verbatim>\<open>memory/streamlocks.go\<close>) and the clocks (\<^verbatim>\<open>clock/clock.go\<close>).

  The store's state is its map of streams. Each method holds the store's mutex for its whole
  body, so it is one atomic function on that map; \<^verbatim>\<open>Serialise\<close> runs its function on the state with
  the region \<open>memory_scoped\<close>, which refuses to nest. Interleavings of regions are the subject of
  the theory on write locks. The store interprets \<open>total_store\<close>, so every lemma on the use cases
  holds of it.
\<close>

section \<open>The store\<close>

type_synonym 'd MemStore = "string \<Rightarrow> 'd Stream option"

definition NewStore :: "'d MemStore" where
  "NewStore = Map.empty"

definition memory_Load :: "'d MemStore \<Rightarrow> string \<Rightarrow> 'd Stream result" where
  "memory_Load s name =
     (case s name of None \<Rightarrow> Inl [ErrStreamNotFound] | Some stream \<Rightarrow> Inr stream)"

definition memory_Append ::
  "'d MemStore \<Rightarrow> string \<Rightarrow> Expectation \<Rightarrow> Envelope \<Rightarrow> FactKind \<Rightarrow> 'd Payload option \<Rightarrow>
   'd MemStore \<times> FactRef result" where
  "memory_Append s name expect envelope kind payload =
     (case (case s name of None \<Rightarrow> NewStream name | Some stream \<Rightarrow> Inr stream) of
        Inl e \<Rightarrow> (s, Inl e)
      | Inr stream \<Rightarrow>
        (case Expectation_Length expect of (want, checked) \<Rightarrow>
          if checked \<and> int (Stream_Len stream) \<noteq> want then (s, Inl [ErrStaleRead])
          else if Stream_Len stream > 0 \<and>
            (let facts = st_facts stream; lst = fact_knowledge (facts ! (length facts - 1))
             in \<not> After (knowledge (ev_coordinates envelope)) lst)
          then (s, Inl [ErrNonMonotonicKnowledge])
          else case Stream_Append stream envelope kind payload of
            Inl e \<Rightarrow> (s, Inl e)
          | Inr (extended, ref) \<Rightarrow> (s(name \<mapsto> extended), Inr ref)))"

definition memory_scoped :: "('d, 'd MemStore) Region" where
  "memory_scoped = \<lparr>rg_Load = memory_Load, rg_Append = memory_Append,
     rg_Serialise = (\<lambda>_. Inl [ErrNestedSerialise])\<rparr>"

definition memory_Serialise ::
  "string \<Rightarrow> ('d, 'd MemStore, 'k) region_fn \<Rightarrow> 'd MemStore \<times> 'k \<Rightarrow> ('d MemStore \<times> 'k) \<times> FactRef result" where
  "memory_Serialise name fn st = fn memory_scoped st"

definition memory_store :: "('d, 'd MemStore, 'k) Store" where
  "memory_store = \<lparr>so_Load = memory_Load, so_Append = memory_Append, so_Serialise = memory_Serialise\<rparr>"

section \<open>Shards\<close>

definition shards :: u32 where
  "shards = 256"

definition fnv32a :: "string \<Rightarrow> u32" where
  "fnv32a s = foldl (\<lambda>h c. (h XOR word_of_nat (of_char c)) * 16777619) 2166136261 s"

definition shardFor :: "string \<Rightarrow> u32" where
  "shardFor stream = fnv32a stream mod shards"

section \<open>Clocks\<close>

text \<open>The wall clock is the sequence of its readings; \<open>MustAt\<close> panics on the zero time.\<close>

definition System_Now :: "(nat \<Rightarrow> time) \<times> nat \<Rightarrow> Instant result \<times> ((nat \<Rightarrow> time) \<times> nat)" where
  "System_Now k = (case k of (readings, i) \<Rightarrow> (MustAt (readings i), (readings, Suc i)))"

definition Fixed_Now :: "Instant \<Rightarrow> Instant result \<times> Instant" where
  "Fixed_Now t = (Inr t, t)"

record Sequence =
  sq_next :: time
  sq_step :: int

definition NewSequence :: "Instant \<Rightarrow> int \<Rightarrow> Sequence" where
  "NewSequence start step = \<lparr>sq_next = Time start, sq_step = step\<rparr>"

definition Sequence_Now :: "Sequence \<Rightarrow> Instant result \<times> Sequence" where
  "Sequence_Now s = (MustAt (sq_next s), s\<lparr>sq_next := sq_next s + sq_step s\<rparr>)"

definition Sequence_clock :: "Sequence Clock" where
  "Sequence_clock = \<lparr>ck_Now = Sequence_Now\<rparr>"

section \<open>The store keeps its contract\<close>

lemma memory_Append_spec:
  "memory_Append s n ex e k p =
     (case append_spec (s n) n ex e k p of
        Inl err \<Rightarrow> (s, Inl err) | Inr (st, r) \<Rightarrow> (s(n \<mapsto> st), Inr r))"
  unfolding memory_Append_def append_spec_def Expectation_Length_def
  by (cases "case s n of None \<Rightarrow> NewStream n | Some st \<Rightarrow> Inr st")
     (auto simp: Stream_Len_def Let_def last_conv_nth)

interpretation memory: total_store memory_store memory_scoped "\<lambda>_. True" "\<lambda>s. s" "\<lambda>_ _ _ _. True" "\<lambda>_. [ErrStreamNotFound]"
proof unfold_locales
  fix s :: "'a MemStore" and n
  show "so_Load memory_store s n = (case s n of None \<Rightarrow> Inl [ErrStreamNotFound] | Some st \<Rightarrow> Inr st)"
    by (simp add: memory_store_def memory_Load_def)
  show "rg_Load memory_scoped s n = (case s n of None \<Rightarrow> Inl [ErrStreamNotFound] | Some st \<Rightarrow> Inr st)"
    by (simp add: memory_scoped_def memory_Load_def)
next
  fix s :: "'a MemStore" and e p n ex kd st r
  assume "append_spec (s n) n ex e kd (Some p) = Inr (st, r)"
  then show "\<exists>s'. rg_Append memory_scoped s n ex e kd (Some p) = (s', Inr r) \<and> True \<and> s' = s(n \<mapsto> st)"
    by (simp add: memory_scoped_def memory_Append_spec)
next
  fix s :: "'a MemStore" and e p n ex kd err
  assume "append_spec (s n) n ex e kd (Some p) = Inl err"
  then show "\<exists>s'. rg_Append memory_scoped s n ex e kd (Some p) = (s', Inl err) \<and> True \<and> s' = s"
    by (simp add: memory_scoped_def memory_Append_spec)
next
  fix s :: "'a MemStore" and fn :: "('a, 'a MemStore, 'b) region_fn" and k :: 'b and s1 k1 res n
  assume "fn memory_scoped (s, k) = ((s1, k1), res)"
  then show "\<exists>s2. so_Serialise memory_store n fn (s, k) = ((s2, k1), res) \<and> True \<and>
      (s2 = s1 \<or> \<not> is_ok res \<and> s2 = s)"
    by (simp add: memory_store_def memory_Serialise_def)
qed simp_all

section \<open>Reachable ledgers\<close>

text \<open>
  The states a ledger over the in-memory store reaches from the empty store by any sequence of
  commands, successful or refused, while no stream holds \<open>2^63\<close> facts (a Go slice cannot).
\<close>

inductive reachable :: "unicode \<Rightarrow> ('d, 'd MemStore, 'k) Ledger \<Rightarrow> 'k \<Rightarrow> 'd MemStore \<times> 'k \<Rightarrow> bool"
  for uc l k0 where
  init: "reachable uc l k0 (NewStore, k0)"
| step: "reachable uc l k0 st \<Longrightarrow> command_ok c \<Longrightarrow>
    \<forall>n s. fst st n = Some s \<longrightarrow> length (st_facts s) < 2 ^ 63 \<Longrightarrow>
    reachable uc l k0 (fst (run uc l c st))"

inductive_cases reachable_elim: "reachable uc l k0 st"

section \<open>Properties\<close>

text \<open>C4: the ledger's invariant. In every reachable state of a ledger over the in-memory store,
  whatever commands ran and whatever the clock read, each stream is filed under its own
  non-empty name, its facts are well-formed and numbered 1, 2, 3, \<dots> in append order, and
  knowledge time strictly increases along it.\<close>

theorem ledger_invariant:
  assumes "reachable uc l k0 st" "lg_store l = memory_store"
  shows "\<forall>n s. fst st n = Some s \<longrightarrow> good_stream n s"
  using assms(1)
proof induction
  case init
  then show ?case by (simp add: NewStore_def)
next
  case (step st c)
  then have "memory.sound_step (command_ok c) (fst st) (run uc l c (fst st, snd st))"
    using memory.run_sound [OF assms(2)] by blast
  with step show ?case by (simp add: memory.sound_step_def good_view_def)
qed

text \<open>C11: nothing is ever rewritten. Every command on the in-memory store either is refused and
  changes no stream, or extends exactly one stream by exactly one fact, carrying the returned
  reference.\<close>

theorem command_appends_or_nothing:
  assumes "lg_store l = memory_store" "\<forall>n s. fst st n = Some s \<longrightarrow> length (st_facts s) < 2 ^ 63"
  shows "case run uc l c st of ((s', _), res) \<Rightarrow>
    (case res of
       Inl _ \<Rightarrow> s' = fst st
     | Inr r \<Rightarrow> \<exists>n stream f. s' = (fst st)(n \<mapsto> stream) \<and> f_ref f = r \<and>
         st_facts stream = (case fst st n of None \<Rightarrow> [] | Some st0 \<Rightarrow> st_facts st0) @ [f])"
proof -
  have "memory.sound_step (command_ok c) (fst st) (run uc l c (fst st, snd st))"
    by (rule memory.run_sound [OF assms(1) TrueI assms(2)])
  then have step: "view_step (fst st) (fst (fst (run uc l c st))) (snd (run uc l c st))"
    by (simp add: memory.sound_step_def)
  obtain s' k' res where run: "run uc l c st = ((s', k'), res)" by (metis surj_pair)
  show ?thesis
    using step unfolding run view_step_def by (cases res) (simp_all, blast)
qed

text \<open>Admission takes a claim as it stands. With an admissible source, both claims named, a
  stream name, a set effective start and valid provenance, and a clock reading after the stream's
  last knowledge time, \<open>AcceptHoldingClaim\<close> succeeds: the stream gains one observation holding the
  two claims verbatim, effective as stated and known at the clock's reading. Nothing is minted and
  no other stream changes.\<close>

theorem admission_appends_claim:
  assumes "lg_store l = memory_store"
    and "CheckContentAddress (ac_Source cmd) = Inr ()" "\<not> Claim_IsZero (ac_Account cmd)"
    and "\<not> Claim_IsZero (ac_Instrument cmd)" "ck_Now (lg_clock l) k = (Inr t, k')" "t \<noteq> zeroInstant"
    and "iv_from (ac_Effective cmd) \<noteq> zeroInstant" "ac_Stream cmd \<noteq> []"
    and "Observed (ac_Source cmd) (ac_CollectedAt cmd) (ac_Interpreter cmd) (ac_Confidence cmd) = Inr prov"
    and "\<forall>st. s (ac_Stream cmd) = Some st \<and> st_facts st \<noteq> [] \<longrightarrow> fact_knowledge (last (st_facts st)) < t"
  shows "\<exists>st' f. AcceptHoldingClaim l cmd (s, k) = ((s(ac_Stream cmd \<mapsto> st'), k'), Inr (f_ref f)) \<and>
    st_facts st' = (case s (ac_Stream cmd) of None \<Rightarrow> [] | Some st \<Rightarrow> st_facts st) @ [f] \<and>
    f_payload f = HoldingClaimedP \<lparr>hc_Account = ac_Account cmd, hc_Instrument = ac_Instrument cmd,
      hc_Quantity = ac_Quantity cmd\<rparr> \<and>
    f_kind f = KindObservation \<and> ev_coordinates (f_envelope f) = \<lparr>effective = ac_Effective cmd, knowledge = t\<rparr> \<and>
    ev_provenance (f_envelope f) = prov"
  using memory.AcceptHoldingClaim_admits [where l = l and cmd = cmd and s = s and k = k and t = t and k' = k' and prov = prov] assms by auto

text \<open>C15: minting brings an identity into being once. When \<open>MintIdentity\<close> succeeds on a good state,
  the stream gains one occurrence recording the claim verbatim with the identity derived from the
  folded claim, its provenance names a derivation, and from then on the claim, and every claim
  with the same canonical pre-image, resolves to that identity at the mint's own coordinate. When
  the claim already resolves there, the answer is \<open>ErrAlreadyMinted\<close> and nothing changes.\<close>

theorem mint_identity_effect:
  assumes "lg_store l = memory_store" "good_view s" "wf_interval (mi_Effective cmd)"
  shows "(MintIdentity uc l cmd (s, k) = ((s', k'), Inr r) \<longrightarrow>
      (\<exists>t i st' f. fst (ck_Now (lg_clock l) k) = Inr t \<and> s' = s(mi_Stream cmd \<mapsto> st') \<and>
        DeriveFromClaim uc (mi_Kind cmd) (Ruleset_Fold (lg_rules l) (mi_Claim cmd)) = Inr i \<and>
        st_facts st' = (case s (mi_Stream cmd) of None \<Rightarrow> [] | Some st \<Rightarrow> st_facts st) @ [f] \<and>
        f_ref f = r \<and> f_kind f = KindOccurrence \<and>
        f_payload f = EntityMintedP \<lparr>em_Entity = i, em_BornFrom = mi_Claim cmd\<rparr> \<and>
        pv_derivation (ev_provenance (f_envelope f)) \<noteq> None \<and> fact_knowledge f = t \<and>
        (\<forall>c'. CanonicalPreimage uc (lg_rules l) c' = CanonicalPreimage uc (lg_rules l) (mi_Claim cmd) \<longrightarrow>
           Resolve uc st' c' (lg_rules l) \<lparr>ao_effective = iv_from (mi_Effective cmd), ao_knowledge = t\<rparr> = Inr i))) \<and>
    (\<forall>st t i. s (mi_Stream cmd) = Some st \<and> CheckContentAddress (mi_Source cmd) = Inr () \<and>
       Kind_Valid (mi_Kind cmd) \<and> \<not> Claim_IsZero (mi_Claim cmd) \<and>
       fst (ck_Now (lg_clock l) k) = Inr t \<and> t \<noteq> zeroInstant \<and>
       Resolve uc st (mi_Claim cmd) (lg_rules l) \<lparr>ao_effective = iv_from (mi_Effective cmd), ao_knowledge = t\<rparr> = Inr i \<longrightarrow>
       snd (MintIdentity uc l cmd (s, k)) = Inl [ErrAlreadyMinted] \<and> fst (fst (MintIdentity uc l cmd (s, k))) = s)"
proof -
  have "snd (MintIdentity uc l cmd (s, k)) = Inl [ErrAlreadyMinted] \<and> fst (fst (MintIdentity uc l cmd (s, k))) = s"
    if a: "s (mi_Stream cmd) = Some st" "CheckContentAddress (mi_Source cmd) = Inr ()" "Kind_Valid (mi_Kind cmd)"
      "\<not> Claim_IsZero (mi_Claim cmd)" "fst (ck_Now (lg_clock l) k) = Inr t" "t \<noteq> zeroInstant"
      "Resolve uc st (mi_Claim cmd) (lg_rules l) \<lparr>ao_effective = iv_from (mi_Effective cmd), ao_knowledge = t\<rparr> = Inr i"
    for st t i
  proof -
    have "ck_Now (lg_clock l) k = (Inr t, snd (ck_Now (lg_clock l) k))" using a(5) by (metis prod.collapse)
    moreover have "iv_from (mi_Effective cmd) \<noteq> zeroInstant" using assms(3) by (simp add: wf_interval_def)
    ultimately show ?thesis
      using memory.MintIdentity_known [where l = l and cmd = cmd and s = s and k = k and t = t and uc = uc and st = st] assms(1) a by auto
  qed
  then show ?thesis using memory.MintIdentity_Inr [OF assms(1) TrueI assms(2) TrueI assms(3)] by blast
qed

text \<open>C16: a correction is never narrower than what it corrects. When \<open>CorrectFact\<close> succeeds on a good
  state, the correction is known after every fact already in the stream and is visible at every coordinate that sees the corrected fact from the
  correction's knowledge time on; a retraction therefore removes the fact from every position
  asked for there, and leaves every answer at an earlier knowledge time alone.\<close>

theorem correction_covers_fact:
  assumes "lg_store l = memory_store" "good_view s" "CorrectFact l cmd (s, k) = ((s', k'), Inr r)"
  shows "\<exists>st st' corrected f. s (cf_Stream cmd) = Some st \<and> s' = s(cf_Stream cmd \<mapsto> st') \<and>
    Stream_Get st (cf_Corrects cmd) = Inr corrected \<and> st_facts st' = st_facts st @ [f] \<and> f_ref f = r \<and>
    (\<forall>g \<in> set (st_facts st). fact_knowledge g < fact_knowledge f) \<and>
    (\<forall>a. Fact_Visible corrected a \<and> fact_knowledge f \<le> ao_knowledge a \<longrightarrow> Fact_Visible f a) \<and>
    (\<forall>a account instrument. cf_Kind cmd = CorrectionKindRetracted \<and> Fact_Visible f a \<longrightarrow>
       cf_Corrects cmd \<notin> f_ref ` set (relevant st' account instrument a)) \<and>
    (\<forall>a. ao_knowledge a < fact_knowledge f \<longrightarrow> VisibleAt st' a = VisibleAt st a)"
proof -
  from memory.CorrectFact_Inr [OF assms(1) TrueI assms(2) TrueI assms(3)] obtain st st' corrected f where
    v: "s (cf_Stream cmd) = Some st" "Stream_Get st (cf_Corrects cmd) = Inr corrected" "s' = s(cf_Stream cmd \<mapsto> st')" and
    f: "st_facts st' = st_facts st @ [f]" "f_ref f = r"
      "f_payload f = FactCorrectedP \<lparr>fc_Corrects = cf_Corrects cmd, fc_Kind = cf_Kind cmd, fc_Reason = cf_Reason cmd\<rparr>"
      "effective (ev_coordinates (f_envelope f)) = effective (ev_coordinates (f_envelope corrected))"
      "\<forall>g \<in> set (st_facts st). fact_knowledge g < fact_knowledge f" by blast
  have "Fact_Visible f a" if "Fact_Visible corrected a" "fact_knowledge f \<le> ao_knowledge a" for a
    using that by (simp add: Fact_Visible_iff f(4))
  moreover have "cf_Corrects cmd \<notin> f_ref ` set (relevant st' account instrument a)"
    if "cf_Kind cmd = CorrectionKindRetracted" "Fact_Visible f a" for a account instrument
  proof -
    have "cf_Corrects cmd \<in> set (retracted_refs st' a)"
      unfolding set_retracted_refs using that f(1,3) by force
    then show ?thesis by (auto simp: relevant_def)
  qed
  moreover have "VisibleAt st' a = VisibleAt st a" if "ao_knowledge a < fact_knowledge f" for a
  proof -
    have "\<not> Fact_Visible f a" using that by (simp add: Fact_Visible_iff not_le)
    then show ?thesis by (simp add: VisibleAt_def f(1))
  qed
  ultimately show ?thesis
    using v f by (intro exI [of _ st] exI [of _ st'] exI [of _ corrected] exI [of _ f]) blast
qed

text \<open>C20: an observation derived from a claim says so. When \<open>ObserveClaimedHolding\<close> succeeds on a good
  state, the appended observation is what \<open>DeriveHoldingObserved\<close> computed from the claim fact in
  the stream at the coordinate asked for; its provenance carries the trace of that derivation and
  its confidence, and it is in force exactly as long as the claim.\<close>

theorem observation_carries_derivation:
  assumes "lg_store l = memory_store" "good_view s" "ObserveClaimedHolding uc l cmd (s, k) = ((s', k'), Inr r)"
  shows "\<exists>st st' claimed v f. s (oc_Stream cmd) = Some st \<and> s' = s(oc_Stream cmd \<mapsto> st') \<and>
    Stream_Get st (oc_Claim cmd) = Inr claimed \<and> st_facts st' = st_facts st @ [f] \<and> f_ref f = r \<and>
    DeriveHoldingObserved uc st claimed (lg_rules l) (oc_AsOf cmd) = Inr v \<and>
    f_payload f = HoldingObservedP (v_value v) \<and>
    pv_derivation (ev_provenance (f_envelope f)) = Some (v_trace v) \<and>
    pv_confidence (ev_provenance (f_envelope f)) = Value_Confidence v \<and>
    effective (ev_coordinates (f_envelope f)) = effective (ev_coordinates (f_envelope claimed))"
  using memory.ObserveClaimedHolding_Inr [OF assms(1) TrueI assms(2) TrueI assms(3)]
  unfolding Value_Confidence_def by blast

section \<open>Witnesses\<close>

definition sample_ledger :: "(int, int MemStore, Instant) Ledger" where
  "sample_ledger = \<lparr>lg_store = memory_store, lg_clock = \<lparr>ck_Now = Fixed_Now\<rparr>, lg_rules = shipped_ruleset\<rparr>"

definition sample_source :: Source where
  "sample_source = Source (''sha256:'' @ replicate 64 (CHR ''0''))"

definition sample_interval :: Interval where
  "sample_interval = \<lparr>iv_from = Instant 3, iv_to = zeroInstant\<rparr>"

definition sample_accept :: "int AcceptHoldingClaimCommand" where
  "sample_accept = \<lparr>ac_Stream = ''l'', ac_Account = sample_claim, ac_Instrument = sample_claim,
     ac_Quantity = \<lparr>q_amount = 7, q_unit = ''share''\<rparr>, ac_Effective = sample_interval, ac_Source = sample_source,
     ac_CollectedAt = Instant 5, ac_Interpreter = \<lparr>ip_name = ''i'', ip_version = ''1''\<rparr>,
     ac_Confidence = ConfidenceAsserted, ac_References = []\<rparr>"

lemma sample_source_ok: "CheckContentAddress sample_source = Inr ()"
proof -
  have "runes (replicate 64 (CHR ''0'')) = map of_char (replicate 64 (CHR ''0''))"
    by (rule runes_ascii) (simp add: ascii_def list_all_iff)
  then show ?thesis
    by (simp add: CheckContentAddress_def sample_source_def sourceAlgorithm_def is_lower_hex_def TrimPrefix_def list_ex_iff)
qed

lemma sample_accept_admitted:
  "\<exists>st' f. AcceptHoldingClaim sample_ledger sample_accept (NewStore, Instant 7) =
      ((NewStore(''l'' \<mapsto> st'), Instant 7), Inr (f_ref f)) \<and> st_facts st' = [f]"
proof -
  have "Confidence_Valid ConfidenceAsserted" by (simp add: Confidence_Valid_def enum_defs)
  then obtain prov where "Observed sample_source (Instant 5) \<lparr>ip_name = ''i'', ip_version = ''1''\<rparr> ConfidenceAsserted = Inr prov"
    by (simp add: Observed_Inr_iff sample_source_def)
  then show ?thesis
    using memory.AcceptHoldingClaim_admits [where l = sample_ledger and cmd = sample_accept and s = NewStore
        and k = "Instant 7" and t = "Instant 7" and k' = "Instant 7" and prov = prov]
      sample_source_ok
    by (auto simp: sample_ledger_def sample_accept_def Fixed_Now_def NewStore_def Claim_IsZero_def sample_claim_def
        sample_interval_def instant_defs)
qed

theorem ledger_invariant_witness:
  "\<exists>st. fst (fst (run unicode_ascii sample_ledger (AcceptHoldingClaimC sample_accept) (NewStore, Instant 7))) ''l'' = Some st \<and>
     good_stream ''l'' st"
proof -
  obtain st where st: "fst (fst (run unicode_ascii sample_ledger (AcceptHoldingClaimC sample_accept) (NewStore, Instant 7))) ''l'' = Some st"
    using sample_accept_admitted by auto
  have "reachable unicode_ascii sample_ledger (Instant 7)
      (fst (run unicode_ascii sample_ledger (AcceptHoldingClaimC sample_accept) (NewStore, Instant 7)))"
    by (rule reachable.step [OF reachable.init])
       (simp_all add: sample_accept_def sample_interval_def interval_value_def wf_interval_def zeroInstant_def NewStore_def)
  with st ledger_invariant show ?thesis by (fastforce simp: sample_ledger_def)
qed

theorem command_appends_or_nothing_witness:
  "\<exists>n stream f. fst (fst (run unicode_ascii sample_ledger (AcceptHoldingClaimC sample_accept) (NewStore, Instant 7))) =
     NewStore(n \<mapsto> stream) \<and> st_facts stream = [f]"
proof -
  obtain st' and f :: "int Fact" where r: "AcceptHoldingClaim sample_ledger sample_accept (NewStore, Instant 7) =
      ((NewStore(''l'' \<mapsto> st'), Instant 7), Inr (f_ref f))" using sample_accept_admitted by blast
  from command_appends_or_nothing [of sample_ledger "(NewStore, Instant 7)" unicode_ascii "AcceptHoldingClaimC sample_accept"] r
  show ?thesis by (fastforce simp: sample_ledger_def NewStore_def)
qed

theorem admission_appends_claim_witness:
  "\<exists>st' f. AcceptHoldingClaim sample_ledger sample_accept (NewStore, Instant 7) =
      ((NewStore(''l'' \<mapsto> st'), Instant 7), Inr (f_ref f)) \<and> st_facts st' = [f] \<and> fact_knowledge f = Instant 7"
proof -
  have "Confidence_Valid ConfidenceAsserted" by (simp add: Confidence_Valid_def enum_defs)
  then obtain prov where "Observed sample_source (Instant 5) \<lparr>ip_name = ''i'', ip_version = ''1''\<rparr> ConfidenceAsserted = Inr prov"
    by (simp add: Observed_Inr_iff sample_source_def)
  then show ?thesis
    using admission_appends_claim [where l = sample_ledger and cmd = sample_accept and s = NewStore
        and k = "Instant 7" and t = "Instant 7" and k' = "Instant 7" and prov = prov] sample_source_ok
    by (force simp: sample_ledger_def sample_accept_def Fixed_Now_def NewStore_def Claim_IsZero_def sample_claim_def
        sample_interval_def instant_defs)
qed

definition minted_store :: "int MemStore" where
  "minted_store = NewStore(''l'' \<mapsto> minted_stream)"

definition sample_minting :: MintIdentityCommand where
  "sample_minting = \<lparr>mi_Stream = ''l'', mi_Kind = KindAccount, mi_Claim = sample_claim,
     mi_Answers = \<lparr>fr_Stream = [], fr_Sequence = 0\<rparr>, mi_Effective = sample_interval, mi_Source = sample_source,
     mi_CollectedAt = Instant 5, mi_Interpreter = \<lparr>ip_name = ''i'', ip_version = ''1''\<rparr>,
     mi_Confidence = ConfidenceDerived, mi_References = []\<rparr>"

definition sample_retraction :: CorrectFactCommand where
  "sample_retraction = \<lparr>cf_Stream = ''l'', cf_Corrects = \<lparr>fr_Stream = ''l'', fr_Sequence = 1\<rparr>,
     cf_Kind = CorrectionKindRetracted, cf_Reason = [], cf_Source = sample_source, cf_CollectedAt = Instant 5,
     cf_Interpreter = \<lparr>ip_name = ''i'', ip_version = ''1''\<rparr>, cf_Confidence = ConfidenceAsserted\<rparr>"

definition sample_observing :: ObserveClaimedHoldingCommand where
  "sample_observing = \<lparr>oc_Stream = ''l'', oc_Claim = \<lparr>fr_Stream = ''l'', fr_Sequence = 2\<rparr>, oc_AsOf = sample_asof,
     oc_Source = sample_source, oc_CollectedAt = Instant 5, oc_Interpreter = \<lparr>ip_name = ''i'', ip_version = ''1''\<rparr>\<rparr>"

lemma minted_good: "good_view minted_store"
  using minted_stream_wf
  by (auto simp: good_view_def good_stream_def minted_store_def NewStore_def minted_stream_def wf_stream_def
      sample_fact_def sample_envelope_def less_Suc_eq instant_defs)

lemma minted_store_at: "minted_store ''l'' = Some minted_stream"
  by (simp add: minted_store_def)

lemma minted_last: "fact_knowledge (last (st_facts minted_stream)) < Instant 7"
  by (simp add: minted_stream_def sample_fact_def sample_envelope_def instant_defs)

lemma minted_get: "Stream_Get minted_stream \<lparr>fr_Stream = ''l'', fr_Sequence = 1\<rparr> = Inr (sample_fact ''l'' 1 3 4 sample_payload)"
  "Stream_Get minted_stream \<lparr>fr_Stream = ''l'', fr_Sequence = 2\<rparr> = Inr (sample_fact ''l'' 2 3 6 sample_claimed)"
  by (simp_all add: Stream_Get_def minted_stream_def)

theorem mint_identity_effect_witness:
  "snd (MintIdentity unicode_ascii sample_ledger sample_minting (minted_store, Instant 7)) = Inl [ErrAlreadyMinted] \<and>
   fst (fst (MintIdentity unicode_ascii sample_ledger sample_minting (minted_store, Instant 7))) = minted_store"
proof -
  have "Resolve unicode_ascii minted_stream sample_claim shipped_ruleset \<lparr>ao_effective = Instant 3, ao_knowledge = Instant 7\<rparr> =
      Inr sample_entity"
    by (simp add: Resolve_def resolveWithTrace_def minted_stream_def resolve_eval resolves_def sample_entity_def)
  moreover have "wf_interval sample_interval" by (simp add: wf_interval_def sample_interval_def zeroInstant_def)
  moreover have "Kind_Valid KindAccount"
    by (simp add: Kind_Valid_def KindInstrument_def KindLedgerStream_def KindAccount_def)
  ultimately show ?thesis
    using mint_identity_effect [of sample_ledger minted_store sample_minting unicode_ascii "Instant 7"] minted_good sample_source_ok
    by (simp add: sample_ledger_def sample_minting_def minted_store_def Claim_IsZero_def sample_claim_def Fixed_Now_def
        sample_interval_def zeroInstant_def)
qed

lemma sample_observed:
  "\<exists>prov. Observed sample_source (Instant 5) \<lparr>ip_name = ''i'', ip_version = ''1''\<rparr> ConfidenceAsserted = Inr prov \<and>
     \<not> Provenance_IsZero prov"
  by (simp add: Observed_Inr_iff sample_source_def Confidence_Valid_def enum_defs Provenance_IsZero_def)

lemma sample_retraction_succeeds:
  "\<exists>s' r. CorrectFact sample_ledger sample_retraction (minted_store, Instant 7) = ((s', Instant 7), Inr r)"
proof -
  let ?f = "sample_fact ''l'' 1 3 4 sample_payload :: int Fact"
  obtain prov where prov: "Observed sample_source (Instant 5) \<lparr>ip_name = ''i'', ip_version = ''1''\<rparr> ConfidenceAsserted = Inr prov"
    "\<not> Provenance_IsZero prov" using sample_observed by blast
  obtain e and p :: "int Payload" where b: "correct_built sample_retraction ?f (Inr (Instant 7)) = Inr (e, p)"
    "\<not> Provenance_IsZero (ev_provenance e)" "knowledge (ev_coordinates e) = Instant 7"
    using prov by (auto simp: correct_built_def with_payload_Inr_iff envelope_for_Inr_iff sample_retraction_def
        sample_fact_def sample_envelope_def zeroInstant_def)
  obtain s' res where r: "CorrectFact sample_ledger sample_retraction (minted_store, Instant 7) = ((s', Instant 7), res)"
    "memory.performs minted_store ''l'' (memory.outcome minted_store ''l'' (AtLength (int (Stream_Len minted_stream)))
      KindObservation (correct_built sample_retraction ?f (Inr (Instant 7)))) s' res"
    using memory.CorrectFact_performs [where l = sample_ledger and cmd = sample_retraction and s = minted_store
        and k = "Instant 7" and now = "Inr (Instant 7)" and k' = "Instant 7" and stream = minted_stream and corrected = ?f]
      minted_get
    by (auto simp: sample_ledger_def sample_retraction_def Fixed_Now_def minted_store_def CorrectionKind_Valid_def enum_defs)
  obtain st' rf where "memory.outcome minted_store ''l'' (AtLength (int (Stream_Len minted_stream)))
      KindObservation (correct_built sample_retraction ?f (Inr (Instant 7))) = Inr (st', rf)"
    using memory.outcome_accepts [where s = minted_store and n = "''l''" and st = minted_stream and kd = KindObservation
        and ex = "AtLength (int (Stream_Len minted_stream))", OF b(1,2)] b(3)
      minted_store_at minted_last by (auto simp: FactKind_Valid_def AtLength_def)
  with memory.performs_accepts [OF r(2)] r(1) show ?thesis by auto
qed

theorem correction_covers_fact_witness:
  "\<exists>s' st' r. CorrectFact sample_ledger sample_retraction (minted_store, Instant 7) = ((s', Instant 7), Inr r) \<and>
     s' = minted_store(''l'' \<mapsto> st') \<and>
     VisibleAt st' \<lparr>ao_effective = Instant 9, ao_knowledge = Instant 6\<rparr> =
       VisibleAt minted_stream \<lparr>ao_effective = Instant 9, ao_knowledge = Instant 6\<rparr>"
proof -
  obtain s' r where c: "CorrectFact sample_ledger sample_retraction (minted_store, Instant 7) = ((s', Instant 7), Inr r)"
    using sample_retraction_succeeds by blast
  have "lg_store sample_ledger = memory_store" by (simp add: sample_ledger_def)
  from correction_covers_fact [OF this minted_good c] minted_store_at obtain st' and f :: "int Fact" where
    w: "s' = minted_store(''l'' \<mapsto> st')" "\<forall>g \<in> set (st_facts minted_stream). fact_knowledge g < fact_knowledge f"
      "\<forall>a. ao_knowledge a < fact_knowledge f \<longrightarrow> VisibleAt st' a = VisibleAt minted_stream a"
    by (auto simp: sample_retraction_def)
  have "sample_fact ''l'' 2 3 6 sample_claimed \<in> set (st_facts minted_stream)" by (simp add: minted_stream_def)
  then have "Instant 6 < fact_knowledge f" using w(2) by (auto simp: sample_fact_def sample_envelope_def)
  with c w(1,3) show ?thesis by fastforce
qed

lemma sample_observing_succeeds:
  "\<exists>s' r. ObserveClaimedHolding unicode_ascii sample_ledger sample_observing (minted_store, Instant 7) = ((s', Instant 7), Inr r)"
proof -
  let ?f = "sample_fact ''l'' 2 3 6 sample_claimed"
  have "Confidence_Valid (pv_confidence (ev_provenance (f_envelope ?f)))"
    by (simp add: sample_defs Confidence_Valid_def enum_defs)
  from NewDerivation_total [OF observationMethod_named this]
  have "\<exists>v. DeriveHoldingObserved unicode_ascii minted_stream ?f shipped_ruleset sample_asof = Inr v"
    unfolding DeriveHoldingObserved_def FromDerivation_def
    by (simp add: sample_fact_def sample_claimed_def minted_resolves)
  then obtain v where d: "DeriveHoldingObserved unicode_ascii minted_stream ?f shipped_ruleset sample_asof = Inr v"
    by blast
  then have "wf_value v" by (auto simp: DeriveHoldingObserved_def FromDerivation_def NewDerivation_value_wf split: Payload.splits)
  with d have v: "DeriveHoldingObserved unicode_ascii minted_stream ?f shipped_ruleset sample_asof = Inr v"
    "Ref_hash (v_trace v) \<noteq> []" "Confidence_Valid (dr_confidence (v_record v))"
    using wf_value_NewRef [of v] by (auto simp: wf_value_def NewRef_def sha256HexLen_def)
  obtain e and p :: "int Payload" where b: "claimed_built sample_observing ?f v (Inr (Instant 7)) = Inr (e, p)"
    "\<not> Provenance_IsZero (ev_provenance e)" "knowledge (ev_coordinates e) = Instant 7"
    using v(2,3) by (auto simp: claimed_built_def with_payload_Inr_iff envelope_for_Inr_iff sample_observing_def
        sample_fact_def sample_envelope_def zeroInstant_def Derived_Inr_iff sample_source_def Provenance_IsZero_def)
  obtain s' res where r: "ObserveClaimedHolding unicode_ascii sample_ledger sample_observing (minted_store, Instant 7) = ((s', Instant 7), res)"
    "memory.performs minted_store ''l'' (memory.outcome minted_store ''l'' (AtLength (int (Stream_Len minted_stream)))
      KindObservation (claimed_built sample_observing ?f v (Inr (Instant 7)))) s' res"
    using memory.ObserveClaimedHolding_performs [where l = sample_ledger and cmd = sample_observing and s = minted_store
        and k = "Instant 7" and now = "Inr (Instant 7)" and k' = "Instant 7" and stream = minted_stream and claimed = ?f
        and uc = unicode_ascii and observed = v] minted_get v(1)
    by (auto simp: sample_ledger_def sample_observing_def Fixed_Now_def minted_store_def)
  obtain st' rf where "memory.outcome minted_store ''l'' (AtLength (int (Stream_Len minted_stream)))
      KindObservation (claimed_built sample_observing ?f v (Inr (Instant 7))) = Inr (st', rf)"
    using memory.outcome_accepts [where s = minted_store and n = "''l''" and st = minted_stream and kd = KindObservation
        and ex = "AtLength (int (Stream_Len minted_stream))", OF b(1,2)] b(3)
      minted_store_at minted_last by (auto simp: FactKind_Valid_def AtLength_def)
  with memory.performs_accepts [OF r(2)] r(1) show ?thesis by auto
qed

theorem observation_carries_derivation_witness:
  "\<exists>s' r st' f. ObserveClaimedHolding unicode_ascii sample_ledger sample_observing (minted_store, Instant 7) = ((s', Instant 7), Inr r) \<and>
     s' = minted_store(''l'' \<mapsto> st') \<and> st_facts st' = st_facts minted_stream @ [f] \<and>
     pv_derivation (ev_provenance (f_envelope f)) \<noteq> None"
proof -
  obtain s' r where c: "ObserveClaimedHolding unicode_ascii sample_ledger sample_observing (minted_store, Instant 7) = ((s', Instant 7), Inr r)"
    using sample_observing_succeeds by blast
  have "lg_store sample_ledger = memory_store" by (simp add: sample_ledger_def)
  from observation_carries_derivation [OF this minted_good c] minted_store_at show ?thesis
    unfolding c by (auto simp: sample_observing_def)
qed

end
