(* ===== verification/Write_Locks.thy ===== *)
theory Write_Locks
  imports Memory_Store
begin

text \<open>
  \<^verbatim>\<open>src/libs/ledger/adapters/memory/streamlocks.go\<close> under concurrency: writers that share one
  in-memory store and one clock. \<^verbatim>\<open>Serialise\<close> takes the lock of the stream's shard, runs the use
  case's function and releases the lock when it returns; inside, the function loads the stream, reads
  the clock, builds its envelope and appends. Between those atomic actions any other writer may run, so a
  writer is a small program with a phase, and a run is any interleaving of \<open>writer_step\<close>s.

  The writers are the five use cases of \<^verbatim>\<open>usecases.go\<close>. Each is cut at its calls into what it checks
  before its region (\<open>command_guard\<close>), what it decides from the stream it loads (\<open>command_plan\<close>) and
  what it appends; \<open>run_guarded\<close> and \<open>region_planned\<close> of the theory on the use cases prove that the
  pieces put together are the use case. The two admissions load nothing: their plan ignores the loaded stream. The clock hands out
  readings that strictly advance: the comment on \<^verbatim>\<open>streamLocks\<close> says that two appends stamped in the
  same instant are still refused, and those runs are not among the ones modelled here.

  The specification is \<open>serial_step\<close>: the same use cases run whole, one at a time. Every interleaving
  is shown to be such a run.
\<close>

section \<open>Errors of contention\<close>

definition contended :: "go_error \<Rightarrow> bool" where
  "contended e \<longleftrightarrow> errors_Is e ErrStaleRead \<or> errors_Is e ErrNonMonotonicKnowledge"

definition calm :: "'a result \<Rightarrow> bool" where
  "calm r = (case r of Inl e \<Rightarrow> \<not> contended e | Inr _ \<Rightarrow> True)"

lemma calm_simps [simp]:
  "calm (Inr x)"
  "calm (Inl e) \<longleftrightarrow> \<not> contended e"
  "contended [err] \<longleftrightarrow> err = ErrStaleRead \<or> err = ErrNonMonotonicKnowledge"
  by (auto simp: calm_def contended_def errors_Is_def)

lemma calm_bindR [intro!]: "calm m \<Longrightarrow> (\<And>x. m = Inr x \<Longrightarrow> calm (f x)) \<Longrightarrow> calm (bindR m f)"
  by (cases m) (auto simp: calm_def)

lemma calm_kernel:
  "calm (Assign iv t)" "calm (NewEnvelope co pv refs)" "calm (NewAsOf t u)" "calm (Observed s t i c)"
  "calm (Derived s t i d c)" "calm (NewDerivation m ins ps refs c)" "calm (DeriveFromClaim uc kd cl)"
  "calm (CheckContentAddress s)"
  by (simp_all add: Assign_def NewEnvelope_def NewAsOf_def Observed_def Derived_def NewDerivation_def DeriveFromClaim_def
      CheckContentAddress_def Let_def sentinel_defs)

lemma calm_ledger:
  "calm (NewStream n)" "calm (Stream_Get st r)" "calm (Stream_Append st e kd p)" "calm (resolveWithTrace uc st cl rs a)"
  by (simp_all add: NewStream_def Stream_Get_def Stream_Append_def NewFact_def resolveWithTrace_eq Let_def sentinel_defs
      split: option.splits)

lemma calm_FromDerivation: "calm (FromDerivation v m ins ps refs c)"
  by (auto simp: FromDerivation_def calm_kernel)

lemma calm_derived:
  "calm (MintFor uc kd cl rs ans c)" "calm (DeriveHoldingObserved uc st f rs a)"
  by (auto simp: MintFor_def DeriveHoldingObserved_def calm_FromDerivation calm_kernel calm_ledger sentinel_defs
      split: Payload.splits)

lemmas calm_all = calm_kernel calm_ledger calm_derived

lemma calm_guard: "calm (command_guard c)"
  by (cases c) (auto simp: calm_all sentinel_defs)

lemma calm_plan: "calm loaded \<Longrightarrow> calm (command_plan uc rules c loaded)"
  by (cases c) (auto simp: calm_all sentinel_defs split: sum.splits)

lemma calm_envelope_for: "calm prov \<Longrightarrow> calm (envelope_for eff (Inr t) prov refs)"
  by (auto simp: envelope_for_def calm_all)

lemma calm_with_payload: "calm env \<Longrightarrow> calm (with_payload p env)"
  by (auto simp: with_payload_def)

lemma calm_mint_built: "calm (mint_built uc rules cmd stream (Inr t))"
  by (auto simp: mint_built_def calm_all calm_with_payload calm_envelope_for sentinel_defs split: sum.splits)

lemma plan_built:
  assumes "command_plan uc rules c loaded = Inr (ex, kd, built)"
  shows "calm (built (Inr t))" "FactKind_Valid kd"
    "built (Inr t) = Inr (e, p) \<Longrightarrow> \<not> Provenance_IsZero (ev_provenance e) \<and> knowledge (ev_coordinates e) = t"
proof -
  have "calm (built (Inr t)) \<and> FactKind_Valid kd \<and> (\<forall>e p. built (Inr t) = Inr (e, p) \<longrightarrow>
      \<not> Provenance_IsZero (ev_provenance e) \<and> knowledge (ev_coordinates e) = t)"
    using assms
    by (cases c)
       (auto simp: calm_mint_built observe_built_def accept_built_def correct_built_def claimed_built_def FactKind_Valid_def
         with_payload_Inr_iff envelope_for_Inr_iff calm_all dest!: mint_built_Inr split: if_splits intro!: calm_with_payload calm_envelope_for)
  then show "calm (built (Inr t))" "FactKind_Valid kd"
    "built (Inr t) = Inr (e, p) \<Longrightarrow> \<not> Provenance_IsZero (ev_provenance e) \<and> knowledge (ev_coordinates e) = t"
    by blast+
qed

lemma plan_expects:
  assumes "command_plan uc rules c loaded = Inr (ex, kd, built)"
  shows "ex = Any \<or> (\<exists>st. (loaded = Inr st \<or> \<not> is_ok loaded \<and> NewStream (command_stream c) = Inr st) \<and>
    ex = AtLength (int (Stream_Len st)))"
  using assms by (cases c) (auto split: if_splits sum.splits)


section \<open>Interleavings\<close>

datatype 'd phase =
  Waiting | Holding | Loaded "'d Stream result" | Stamped "'d Stream result" Instant
| Finished "FactRef result" | Released "FactRef result"

record 'd Shared =
  sh_store :: "'d MemStore"
  sh_locks :: "u32 \<Rightarrow> nat option"
  sh_now :: Instant
  sh_phase :: "nat \<Rightarrow> 'd phase"

definition goto :: "nat \<Rightarrow> 'd phase \<Rightarrow> 'd Shared \<Rightarrow> 'd Shared" where
  "goto i p c = c\<lparr>sh_phase := (sh_phase c)(i := p)\<rparr>"

definition hold_step :: "'d Command \<Rightarrow> nat \<Rightarrow> 'd Shared \<Rightarrow> 'd Shared" where
  "hold_step w i c = goto i Holding (c\<lparr>sh_locks := (sh_locks c)(shardFor (command_stream w) \<mapsto> i)\<rparr>)"

definition unlock_step :: "'d Command \<Rightarrow> nat \<Rightarrow> FactRef result \<Rightarrow> 'd Shared \<Rightarrow> 'd Shared" where
  "unlock_step w i res c = goto i (Released res) (c\<lparr>sh_locks := (sh_locks c)(shardFor (command_stream w) := None)\<rparr>)"

definition append_step :: "'d Command \<Rightarrow> 'd plan \<Rightarrow> nat \<Rightarrow> Instant \<Rightarrow> 'd Shared \<Rightarrow> 'd Shared" where
  "append_step w pl i t c =
     (case pl of (ex, kd, built) \<Rightarrow>
      case commit memory_scoped (sh_store c, ()) (command_stream w) ex kd (built (Inr t)) of
        ((s', _), res) \<Rightarrow> goto i (Finished res) (c\<lparr>sh_store := s'\<rparr>))"

inductive writer_step :: "unicode \<Rightarrow> Ruleset \<Rightarrow> (nat \<Rightarrow> 'd Command option) \<Rightarrow> 'd Shared \<Rightarrow> 'd Shared \<Rightarrow> bool"
  for uc rules ws where
  reject: "ws i = Some w \<Longrightarrow> sh_phase c i = Waiting \<Longrightarrow> command_guard w = Inl e \<Longrightarrow>
    writer_step uc rules ws c (goto i (Released (Inl e)) c)"
| acquire: "ws i = Some w \<Longrightarrow> sh_phase c i = Waiting \<Longrightarrow> command_guard w = Inr () \<Longrightarrow>
    sh_locks c (shardFor (command_stream w)) = None \<Longrightarrow> writer_step uc rules ws c (hold_step w i c)"
| load: "ws i = Some w \<Longrightarrow> sh_phase c i = Holding \<Longrightarrow>
    writer_step uc rules ws c (goto i (Loaded (memory_Load (sh_store c) (command_stream w))) c)"
| refuse: "ws i = Some w \<Longrightarrow> sh_phase c i = Loaded ld \<Longrightarrow> command_plan uc rules w ld = Inl e \<Longrightarrow>
    writer_step uc rules ws c (goto i (Finished (Inl e)) c)"
| stamp: "ws i = Some w \<Longrightarrow> sh_phase c i = Loaded ld \<Longrightarrow> command_plan uc rules w ld = Inr pl \<Longrightarrow> sh_now c < t \<Longrightarrow>
    writer_step uc rules ws c (goto i (Stamped ld t) (c\<lparr>sh_now := t\<rparr>))"
| append: "ws i = Some w \<Longrightarrow> sh_phase c i = Stamped ld t \<Longrightarrow> command_plan uc rules w ld = Inr pl \<Longrightarrow>
    writer_step uc rules ws c (append_step w pl i t c)"
| release: "ws i = Some w \<Longrightarrow> sh_phase c i = Finished res \<Longrightarrow> writer_step uc rules ws c (unlock_step w i res c)"

definition started :: "'d Shared \<Rightarrow> bool" where
  "started c \<longleftrightarrow> (\<forall>i. sh_phase c i = Waiting) \<and> (\<forall>h. sh_locks c h = None) \<and> zeroInstant \<le> sh_now c \<and>
     (\<forall>n st. sh_store c n = Some st \<longrightarrow> (\<forall>f \<in> set (st_facts st). fact_knowledge f \<le> sh_now c))"

text \<open>
  The specification: the same writers run one at a time. A serial step runs a whole use case on
  the store, with a clock that reads a time after every fact of its stream.
\<close>

definition serial_ledger :: "Ruleset \<Rightarrow> ('d, 'd MemStore, Instant) Ledger" where
  "serial_ledger rules = \<lparr>lg_store = memory_store, lg_clock = \<lparr>ck_Now = Fixed_Now\<rparr>, lg_rules = rules\<rparr>"

definition facts_at :: "'d MemStore \<Rightarrow> string \<Rightarrow> 'd Fact list" where
  "facts_at s n = (case s n of None \<Rightarrow> [] | Some st \<Rightarrow> st_facts st)"

inductive serial_step :: "unicode \<Rightarrow> Ruleset \<Rightarrow> (nat \<Rightarrow> 'd Command option) \<Rightarrow>
    'd MemStore \<times> (nat \<Rightarrow> FactRef result option) \<Rightarrow> 'd MemStore \<times> (nat \<Rightarrow> FactRef result option) \<Rightarrow> bool"
  for uc rules ws where
  serial: "ws i = Some w \<Longrightarrow> r i = None \<Longrightarrow> zeroInstant < t \<Longrightarrow>
    \<forall>f \<in> set (facts_at s (command_stream w)). fact_knowledge f < t \<Longrightarrow>
    run uc (serial_ledger rules) w (s, t) = ((s', t'), res) \<Longrightarrow>
    serial_step uc rules ws (s, r) (s', r(i \<mapsto> res))"

fun finished :: "'d phase \<Rightarrow> FactRef result option" where
  "finished (Finished res) = Some res"
| "finished (Released res) = Some res"
| "finished _ = None"

definition results :: "'d Shared \<Rightarrow> nat \<Rightarrow> FactRef result option" where
  "results c i = finished (sh_phase c i)"

fun in_region :: "'d phase \<Rightarrow> bool" where
  "in_region Waiting = False"
| "in_region (Released _) = False"
| "in_region _ = True"

section \<open>The invariant of the lock table\<close>

lemma goto_simps [simp]:
  "sh_store (goto i p c) = sh_store c" "sh_locks (goto i p c) = sh_locks c" "sh_now (goto i p c) = sh_now c"
  "sh_phase (goto i p c) = (sh_phase c)(i := p)"
  by (simp_all add: goto_def)

definition locks_ok :: "(nat \<Rightarrow> 'd Command option) \<Rightarrow> 'd Shared \<Rightarrow> bool" where
  "locks_ok ws c \<longleftrightarrow>
     (\<forall>i h. sh_locks c h = Some i \<longleftrightarrow>
        (\<exists>w. ws i = Some w \<and> in_region (sh_phase c i) \<and> h = shardFor (command_stream w)))"

definition clock_ok :: "'d Shared \<Rightarrow> bool" where
  "clock_ok c \<longleftrightarrow> zeroInstant \<le> sh_now c \<and> (\<forall>n. \<forall>f \<in> set (facts_at (sh_store c) n). fact_knowledge f \<le> sh_now c)"

fun phase_ok :: "'d MemStore \<Rightarrow> Instant \<Rightarrow> string \<Rightarrow> 'd phase \<Rightarrow> bool" where
  "phase_ok s now n (Loaded ld) \<longleftrightarrow> ld = memory_Load s n"
| "phase_ok s now n (Stamped ld t) \<longleftrightarrow> ld = memory_Load s n \<and> zeroInstant < t \<and> t \<le> now \<and>
     (\<forall>f \<in> set (facts_at s n). fact_knowledge f < t)"
| "phase_ok s now n _ \<longleftrightarrow> True"

definition phases_ok :: "(nat \<Rightarrow> 'd Command option) \<Rightarrow> 'd Shared \<Rightarrow> bool" where
  "phases_ok ws c \<longleftrightarrow> (\<forall>i w. ws i = Some w \<longrightarrow> phase_ok (sh_store c) (sh_now c) (command_stream w) (sh_phase c i))"

lemma facts_at_upd: "facts_at (s(n \<mapsto> st)) m = (if m = n then st_facts st else facts_at s m)"
  by (simp add: facts_at_def)

lemma commit_outcome:
  assumes "command_plan uc rules w (memory_Load s (command_stream w)) = Inr (ex, kd, built)"
    and "\<forall>f \<in> set (facts_at s (command_stream w)). fact_knowledge f < t"
  shows "\<exists>s' res. commit memory_scoped (s, k) (command_stream w) ex kd (built (Inr t)) = ((s', k), res) \<and> calm res \<and>
    (s' = s \<and> \<not> is_ok res \<or> (\<exists>st' f. s' = s(command_stream w \<mapsto> st') \<and> res = Inr (f_ref f) \<and>
      st_facts st' = facts_at s (command_stream w) @ [f] \<and> fact_knowledge f = t))"
proof (cases "built (Inr t)")
  case (Inl e)
  then show ?thesis using plan_built(1) [OF assms(1), of t] by (simp add: commit_def)
next
  case (Inr ep)
  obtain e p where ep: "built (Inr t) = Inr (e, p)" using Inr by (cases ep) simp
  let ?n = "command_stream w"
  let ?a = "append_spec (s ?n) ?n ex e kd (Some p)"
  note pl = plan_built(2,3) [OF assms(1)]
  have nonmono: "facts_at s ?n = [] \<or> fact_knowledge (last (facts_at s ?n)) < t"
    using assms(2) last_in_set [of "facts_at s ?n"] by blast
  have "calm ?a"
    using plan_expects [OF assms(1)] nonmono pl(2) [OF ep]
    by (auto simp: append_spec_def memory_Load_def facts_at_def Any_def AtLength_def NewStream_def Stream_Len_def calm_all sentinel_defs
        split: option.splits if_splits)
  moreover have "\<exists>f. st_facts st' = facts_at s ?n @ [f] \<and> f_ref f = r \<and> fact_knowledge f = t" if "?a = Inr (st', r)" for st' r
    using append_spec_Inr [OF that] pl(2) [OF ep]
    by (auto simp: Stream_Append_Inr_iff NewStream_Inr_iff facts_at_def)
  ultimately show ?thesis
    by (cases ?a) (fastforce simp: commit_def ep memory_scoped_def memory_Append_spec calm_def)+
qed


lemma serial_run:
  "run uc (serial_ledger rules) w (s, t) = (case command_guard w of
      Inl e \<Rightarrow> ((s, t), Inl e)
    | Inr _ \<Rightarrow> (case command_plan uc rules w (memory_Load s (command_stream w)) of
        Inl e \<Rightarrow> ((s, t), Inl e)
      | Inr (ex, kd, built) \<Rightarrow> commit memory_scoped (s, t) (command_stream w) ex kd (built (Inr t))))"
  by (simp add: run_guarded serial_ledger_def memory_store_def memory_Serialise_def region_planned memory_scoped_def
      Fixed_Now_def split: sum.split)


lemma commit_clock: "commit rg (s, k) n ex kd b = ((s', k), res) \<Longrightarrow> commit rg (s, k') n ex kd b = ((s', k'), res)"
  by (auto simp: commit_def split: sum.splits prod.splits)

lemma append_step_outcome:
  assumes "phases_ok ws c" "ws i = Some w" "sh_phase c i = Stamped ld t" "command_plan uc rules w ld = Inr pl"
  shows "\<exists>s' res. append_step w pl i t c = goto i (Finished res) (c\<lparr>sh_store := s'\<rparr>) \<and> calm res \<and>
    (command_guard w = Inr () \<longrightarrow> run uc (serial_ledger rules) w (sh_store c, t) = ((s', t), res)) \<and>
    (s' = sh_store c \<and> \<not> is_ok res \<or>
      (\<exists>st' f. s' = (sh_store c)(command_stream w \<mapsto> st') \<and> res = Inr (f_ref f) \<and>
        st_facts st' = facts_at (sh_store c) (command_stream w) @ [f] \<and> fact_knowledge f = t))"
proof -
  have ph: "ld = memory_Load (sh_store c) (command_stream w)"
    "\<forall>f \<in> set (facts_at (sh_store c) (command_stream w)). fact_knowledge f < t"
    using assms(1-3) by (auto simp: phases_ok_def dest!: spec)
  obtain ex kd built where pl: "pl = (ex, kd, built)" by (cases pl)
  obtain s' res where out: "commit memory_scoped (sh_store c, ()) (command_stream w) ex kd (built (Inr t)) = ((s', ()), res)"
    "calm res" "s' = sh_store c \<and> \<not> is_ok res \<or>
      (\<exists>st' f. s' = (sh_store c)(command_stream w \<mapsto> st') \<and> res = Inr (f_ref f) \<and>
        st_facts st' = facts_at (sh_store c) (command_stream w) @ [f] \<and> fact_knowledge f = t)"
    using commit_outcome [OF assms(4) [unfolded ph(1) pl] ph(2), of "()"] by blast
  moreover have "command_guard w = Inr () \<longrightarrow> run uc (serial_ledger rules) w (sh_store c, t) = ((s', t), res)"
    using assms(4) commit_clock [OF out(1), of t] by (simp add: serial_run ph(1) pl)
  ultimately show ?thesis by (intro exI [of _ s'] exI [of _ res]) (simp add: append_step_def pl)
qed

lemma locks_exclusive:
  assumes "locks_ok ws c" "ws i = Some w" "ws j = Some v" "in_region (sh_phase c i)" "in_region (sh_phase c j)"
    and "shardFor (command_stream w) = shardFor (command_stream v)"
  shows "i = j"
proof -
  have "sh_locks c (shardFor (command_stream w)) = Some i" "sh_locks c (shardFor (command_stream w)) = Some j"
    using assms by (auto simp: locks_ok_def)
  then show ?thesis by simp
qed

definition guards_ok :: "(nat \<Rightarrow> 'd Command option) \<Rightarrow> 'd Shared \<Rightarrow> bool" where
  "guards_ok ws c \<longleftrightarrow> (\<forall>i w. ws i = Some w \<and> in_region (sh_phase c i) \<longrightarrow> command_guard w = Inr ())"

definition lock_inv :: "(nat \<Rightarrow> 'd Command option) \<Rightarrow> 'd Shared \<Rightarrow> bool" where
  "lock_inv ws c \<longleftrightarrow> locks_ok ws c \<and> clock_ok c \<and> phases_ok ws c \<and> guards_ok ws c"

text \<open>A step that stays in its region and leaves the store and the lock table as they are.\<close>

lemma lock_table_frame [simp]:
  "locks_ok ws (c\<lparr>sh_store := s\<rparr>) = locks_ok ws c" "guards_ok ws (c\<lparr>sh_store := s\<rparr>) = guards_ok ws c"
  "locks_ok ws (c\<lparr>sh_now := t\<rparr>) = locks_ok ws c" "guards_ok ws (c\<lparr>sh_now := t\<rparr>) = guards_ok ws c"
  by (simp_all add: locks_ok_def guards_ok_def)

lemma locks_goto:
  "locks_ok ws c \<Longrightarrow> in_region p = in_region (sh_phase c i) \<Longrightarrow> locks_ok ws (goto i p c)"
  by (auto simp: locks_ok_def)

lemma guards_goto: "guards_ok ws c \<Longrightarrow> in_region p \<longrightarrow> in_region (sh_phase c i) \<Longrightarrow> guards_ok ws (goto i p c)"
  by (auto simp: guards_ok_def)

lemma phases_goto:
  "phases_ok ws c \<Longrightarrow> (\<And>w. ws i = Some w \<Longrightarrow> phase_ok (sh_store c) (sh_now c) (command_stream w) p) \<Longrightarrow>
   phases_ok ws (goto i p c)"
  by (auto simp: phases_ok_def)

lemma phase_ok_now: "phase_ok s now n p \<Longrightarrow> now \<le> now' \<Longrightarrow> phase_ok s now' n p"
  by (cases p) auto

lemma phase_ok_store:
  assumes "phase_ok s now n p" "s' n = s n"
  shows "phase_ok s' now n p"
  using assms by (cases p) (auto simp: memory_Load_def facts_at_def)

lemma lock_inv_acquire:
  assumes "lock_inv ws c" "ws i = Some w" "sh_phase c i = Waiting" "command_guard w = Inr ()"
    "sh_locks c (shardFor (command_stream w)) = None"
  shows "lock_inv ws (hold_step w i c)"
proof -
  have "\<not> in_region (sh_phase c j)" if "ws j = Some v" "shardFor (command_stream w) = shardFor (command_stream v)" for j v
    using assms(1,5) that unfolding lock_inv_def locks_ok_def by (metis option.distinct(1))
  then show ?thesis
    using assms by (auto simp: lock_inv_def locks_ok_def clock_ok_def phases_ok_def guards_ok_def hold_step_def)
qed

lemma lock_inv_release:
  assumes "lock_inv ws c" "ws i = Some w" "sh_phase c i = Finished res"
  shows "lock_inv ws (unlock_step w i res c)"
proof -
  have "\<not> in_region (sh_phase c j)"
    if "ws j = Some v" "shardFor (command_stream w) = shardFor (command_stream v)" "j \<noteq> i" for j v
    using locks_exclusive [of ws c j v i w] that assms by (auto simp: lock_inv_def)
  then show ?thesis
    using assms by (auto simp: lock_inv_def locks_ok_def clock_ok_def phases_ok_def guards_ok_def unlock_step_def)
qed

lemma lock_inv_stamp:
  assumes "lock_inv ws c" "ws i = Some w" "sh_phase c i = Loaded ld" "sh_now c < t"
  shows "lock_inv ws (goto i (Stamped ld t) (c\<lparr>sh_now := t\<rparr>))"
proof -
  have now: "zeroInstant < t" "\<forall>n. \<forall>f \<in> set (facts_at (sh_store c) n). fact_knowledge f < t"
    using assms(1,4) unfolding lock_inv_def clock_ok_def by (meson le_less_trans)+
  have "ld = memory_Load (sh_store c) (command_stream w)" using assms(1-3) by (auto simp: lock_inv_def phases_ok_def dest!: spec)
  moreover have "phase_ok (sh_store c) t (command_stream v) (sh_phase c j)" if "ws j = Some v" for j v
    using assms(1,4) that unfolding lock_inv_def phases_ok_def by (blast intro: phase_ok_now less_imp_le)
  moreover have "locks_ok ws (goto i (Stamped ld t) (c\<lparr>sh_now := t\<rparr>))" "guards_ok ws (goto i (Stamped ld t) (c\<lparr>sh_now := t\<rparr>))"
    using assms(1,3) by (simp_all add: lock_inv_def locks_goto guards_goto)
  ultimately show ?thesis
    using now assms(2) by (simp add: lock_inv_def clock_ok_def phases_ok_def less_imp_le)
qed

lemma lock_inv_append:
  assumes "lock_inv ws c" "ws i = Some w" "sh_phase c i = Stamped ld t" "command_plan uc rules w ld = Inr pl"
  shows "lock_inv ws (append_step w pl i t c)"
proof -
  let ?n = "command_stream w"
  obtain s' res where st: "append_step w pl i t c = goto i (Finished res) (c\<lparr>sh_store := s'\<rparr>)"
    "s' = sh_store c \<and> \<not> is_ok res \<or> (\<exists>st' f. s' = (sh_store c)(?n \<mapsto> st') \<and> res = Inr (f_ref f) \<and>
        st_facts st' = facts_at (sh_store c) ?n @ [f] \<and> fact_knowledge f = t)"
    using append_step_outcome [of ws c i w ld t uc rules pl] assms by (auto simp: lock_inv_def)
  have t: "t \<le> sh_now c" using assms(1-3) by (auto simp: lock_inv_def phases_ok_def dest!: spec)
  have "phase_ok s' (sh_now c) (command_stream v) (sh_phase c j)" if "ws j = Some v" "j \<noteq> i" for j v
  proof (cases "command_stream v = ?n")
    case True
    then have "\<not> in_region (sh_phase c j)"
      using locks_exclusive [of ws c j v i w] that assms by (auto simp: lock_inv_def)
    then show ?thesis by (cases "sh_phase c j") auto
  next
    case False
    moreover have "phase_ok (sh_store c) (sh_now c) (command_stream v) (sh_phase c j)"
      using assms(1) that(1) by (simp add: lock_inv_def phases_ok_def)
    ultimately show ?thesis using st(2) by (auto elim!: phase_ok_store)
  qed
  moreover have "clock_ok c" using assms(1) by (simp add: lock_inv_def)
  from this have "clock_ok (c\<lparr>sh_store := s'\<rparr>)" using st(2) t by (auto simp: clock_ok_def facts_at_upd split: if_splits)
  ultimately have "clock_ok (append_step w pl i t c)" "phases_ok ws (append_step w pl i t c)"
    by (simp_all add: st(1) clock_ok_def phases_ok_def)
  moreover have "locks_ok ws (append_step w pl i t c)" "guards_ok ws (append_step w pl i t c)"
    using assms(1,3) by (simp_all add: st(1) lock_inv_def locks_goto guards_goto)
  ultimately show ?thesis by (simp add: lock_inv_def)
qed

lemma writer_step_inv: "writer_step uc rules ws c c' \<Longrightarrow> lock_inv ws c \<Longrightarrow> lock_inv ws c'"
proof (induction rule: writer_step.induct)
  case (reject i w c e)
  then show ?case by (auto simp: lock_inv_def clock_ok_def intro!: locks_goto guards_goto phases_goto)
next
  case (load i w c)
  then show ?case by (auto simp: lock_inv_def clock_ok_def intro!: locks_goto guards_goto phases_goto)
next
  case (refuse i w c ld e)
  then show ?case by (auto simp: lock_inv_def clock_ok_def intro!: locks_goto guards_goto phases_goto)
qed (simp_all add: lock_inv_acquire lock_inv_stamp lock_inv_append lock_inv_release)


section \<open>Every interleaving is a serial run\<close>

lemma results_goto: "results (goto i p c) = (results c)(i := finished p)"
  by (auto simp: results_def fun_eq_iff)

lemma results_frame [simp]:
  "results (c\<lparr>sh_store := s\<rparr>) = results c" "results (c\<lparr>sh_now := t\<rparr>) = results c" "results (c\<lparr>sh_locks := ls\<rparr>) = results c"
  by (simp_all add: results_def fun_eq_iff)

lemma results_same: "finished p = finished (sh_phase c i) \<Longrightarrow> results (goto i p c) = results c"
  by (auto simp: results_def fun_eq_iff)

lemma serial_refusal:
  assumes "clock_ok c" "ws i = Some w" "results c i = None"
    and "\<And>t. run uc (serial_ledger rules) w (sh_store c, t) = ((sh_store c, t), Inl e)"
  shows "serial_step uc rules ws (sh_store c, results c) (sh_store c, (results c)(i \<mapsto> Inl e))"
proof (rule serial_step.serial [of ws i w "results c", OF assms(2,3) _ _ assms(4)])
  let ?t = "Instant (Time (sh_now c) + 1)"
  have later: "sh_now c < ?t" by (simp add: less_Instant_def)
  then show "zeroInstant < ?t" "\<forall>f \<in> set (facts_at (sh_store c) (command_stream w)). fact_knowledge f < ?t"
    using assms(1) unfolding clock_ok_def by (meson le_less_trans)+
qed

lemma writer_step_serial:
  assumes "writer_step uc rules ws c c'" "lock_inv ws c"
  shows "(serial_step uc rules ws)\<^sup>*\<^sup>* (sh_store c, results c) (sh_store c', results c')"
  using assms(1)
proof cases
  case (reject i w e)
  have "serial_step uc rules ws (sh_store c, results c) (sh_store c, (results c)(i \<mapsto> Inl e))"
    using reject assms(2) by (intro serial_refusal) (auto simp: lock_inv_def results_def serial_run)
  then show ?thesis by (auto simp: reject(1) results_goto)
next
  case (refuse i w ld e)
  have "ld = memory_Load (sh_store c) (command_stream w)" "command_guard w = Inr ()"
    using refuse(2,3) assms(2) by (auto simp: lock_inv_def phases_ok_def guards_ok_def dest!: spec)
  then have "serial_step uc rules ws (sh_store c, results c) (sh_store c, (results c)(i \<mapsto> Inl e))"
    using refuse assms(2) by (intro serial_refusal) (auto simp: lock_inv_def results_def serial_run)
  then show ?thesis by (auto simp: refuse(1) results_goto)
next
  case (append i w ld t pl)
  have g: "command_guard w = Inr ()" "zeroInstant < t"
    "\<forall>f \<in> set (facts_at (sh_store c) (command_stream w)). fact_knowledge f < t"
    using append(2,3) assms(2) by (auto simp: lock_inv_def phases_ok_def guards_ok_def dest!: spec)
  obtain s' res where st: "append_step w pl i t c = goto i (Finished res) (c\<lparr>sh_store := s'\<rparr>)"
    "run uc (serial_ledger rules) w (sh_store c, t) = ((s', t), res)"
    using append_step_outcome [of ws c i w ld t uc rules pl] append assms(2) g(1) by (auto simp: lock_inv_def)
  have "serial_step uc rules ws (sh_store c, results c) (s', (results c)(i \<mapsto> res))"
    using serial_step.serial [of ws i w "results c" t "sh_store c" uc rules s' t res] append(2,3) g(2,3) st(2)
    by (simp add: results_def)
  then show ?thesis by (auto simp: append(1) st(1) results_goto)
qed (auto simp: results_same hold_step_def unlock_step_def)

lemma started_inv:
  assumes "started c"
  shows "lock_inv ws c"
proof -
  have "fact_knowledge f \<le> sh_now c" if "f \<in> set (facts_at (sh_store c) n)" for f n
    using assms that by (cases "sh_store c n") (auto simp: started_def facts_at_def)
  then show ?thesis using assms by (simp add: started_def lock_inv_def locks_ok_def clock_ok_def phases_ok_def guards_ok_def)
qed

lemma writer_run:
  assumes "(writer_step uc rules ws)\<^sup>*\<^sup>* c0 c" "started c0"
  shows "lock_inv ws c \<and> (serial_step uc rules ws)\<^sup>*\<^sup>* (sh_store c0, Map.empty) (sh_store c, results c)"
  using assms(1)
proof induction
  case base
  have "results c0 = Map.empty" using assms(2) by (simp add: started_def results_def fun_eq_iff)
  then show ?case using started_inv [OF assms(2)] by simp
next
  case (step c c')
  then show ?case using writer_step_inv writer_step_serial by (metis rtranclp_trans)
qed

text \<open>A serial run with a clock that moves on never meets contention, and every fact it reports is kept.\<close>

lemma serial_step_outcome:
  assumes "serial_step uc rules ws x x'"
  shows "\<exists>i w res. ws i = Some w \<and> snd x i = None \<and> snd x' = (snd x)(i \<mapsto> res) \<and> calm res \<and>
    (fst x' = fst x \<and> \<not> is_ok res \<or> (\<exists>st' f. fst x' = (fst x)(command_stream w \<mapsto> st') \<and> res = Inr (f_ref f) \<and>
      st_facts st' = facts_at (fst x) (command_stream w) @ [f]))"
  using assms
proof cases
  case (serial i w r t s s' t' res)
  have "calm res \<and> (s' = s \<and> \<not> is_ok res \<or> (\<exists>st' f. s' = s(command_stream w \<mapsto> st') \<and> res = Inr (f_ref f) \<and>
      st_facts st' = facts_at s (command_stream w) @ [f]))"
  proof (cases "command_guard w")
    case (Inl e)
    then show ?thesis using serial(7) calm_guard [of w] by (auto simp: serial_run)
  next
    case guard: (Inr u)
    have ld: "calm (memory_Load s (command_stream w))" by (simp add: memory_Load_def sentinel_defs split: option.split)
    show ?thesis
    proof (cases "command_plan uc rules w (memory_Load s (command_stream w))")
      case (Inl e)
      then show ?thesis using serial(7) guard calm_plan [OF ld, of uc rules w] by (auto simp: serial_run)
    next
      case (Inr pl)
      obtain ex kd built where pl: "pl = (ex, kd, built)" by (cases pl)
      from commit_outcome [OF Inr [unfolded pl] serial(6), of t] serial(7) show ?thesis
        by (auto simp: serial_run guard Inr pl)
    qed
  qed
  with serial(1-4) show ?thesis by (intro exI [of _ i] exI [of _ w] exI [of _ res]) auto
qed


definition landed :: "(nat \<Rightarrow> 'd Command option) \<Rightarrow> (nat \<Rightarrow> FactRef result option) \<Rightarrow> string \<Rightarrow> nat set" where
  "landed ws r n = {i. \<exists>w ref. ws i = Some w \<and> command_stream w = n \<and> r i = Some (Inr ref)}"

lemma serial_run_outcome:
  assumes "(serial_step uc rules ws)\<^sup>*\<^sup>* (s0, Map.empty) x" "finite (dom ws)"
  shows "(\<forall>i res. snd x i = Some res \<longrightarrow> calm res) \<and>
    (\<forall>n. length (facts_at (fst x) n) = length (facts_at s0 n) + card (landed ws (snd x) n))"
  using assms(1)
proof induction
  case base
  then show ?case by (simp add: landed_def)
next
  case (step x x')
  obtain i w res where st: "ws i = Some w" "snd x i = None" "snd x' = (snd x)(i \<mapsto> res)" "calm res"
    and eff: "fst x' = fst x \<and> \<not> is_ok res \<or> (\<exists>st' f. fst x' = (fst x)(command_stream w \<mapsto> st') \<and> res = Inr (f_ref f) \<and>
      st_facts st' = facts_at (fst x) (command_stream w) @ [f])"
    using serial_step_outcome [OF step(2)] by blast
  have fin: "finite (landed ws (snd x) n)" "i \<notin> landed ws (snd x) n" for n
    using st(2) by (auto simp: landed_def intro!: finite_subset [OF _ assms(2)])
  have "landed ws (snd x') n = (if is_ok res \<and> n = command_stream w then insert i (landed ws (snd x) n) else landed ws (snd x) n)" for n
    using st(1-3) by (cases res) (auto simp: landed_def)
  then have "length (facts_at (fst x') n) = length (facts_at s0 n) + card (landed ws (snd x') n)" for n
    using step(3) eff fin by (auto simp: facts_at_upd)
  moreover have "\<forall>j res'. snd x' j = Some res' \<longrightarrow> calm res'" using step(3) st(3,4) by auto
  ultimately show ?case by blast
qed

section \<open>Progress\<close>

definition planned :: "unicode \<Rightarrow> Ruleset \<Rightarrow> (nat \<Rightarrow> 'd Command option) \<Rightarrow> 'd Shared \<Rightarrow> bool" where
  "planned uc rules ws c \<longleftrightarrow>
     (\<forall>i w ld t. ws i = Some w \<and> sh_phase c i = Stamped ld t \<longrightarrow> is_ok (command_plan uc rules w ld))"

lemma writer_step_planned: "writer_step uc rules ws c c' \<Longrightarrow> planned uc rules ws c \<Longrightarrow> planned uc rules ws c'"
  by (induction rule: writer_step.induct)
     (auto simp: planned_def hold_step_def unlock_step_def append_step_def split: prod.splits)

lemma region_progress:
  assumes "planned uc rules ws c" "ws i = Some w" "in_region (sh_phase c i)"
  shows "\<exists>c'. writer_step uc rules ws c c'"
proof (cases "sh_phase c i")
  case (Loaded ld)
  have "sh_now c < Instant (Time (sh_now c) + 1)" by (simp add: less_Instant_def)
  then show ?thesis
    using Loaded assms(2) by (cases "command_plan uc rules w ld") (blast intro: writer_step.refuse writer_step.stamp)+
next
  case (Stamped ld t)
  then obtain pl where "command_plan uc rules w ld = Inr pl" using assms(1,2) unfolding planned_def is_ok_iff by blast
  with Stamped assms(2) show ?thesis by (blast intro: writer_step.append)
qed (use assms(2,3) in \<open>auto intro: writer_step.load writer_step.release\<close>)

lemma writer_progress:
  assumes "locks_ok ws c" "planned uc rules ws c" "ws i = Some w" "\<nexists>res. sh_phase c i = Released res"
  shows "\<exists>c'. writer_step uc rules ws c c'"
proof (cases "sh_phase c i = Waiting")
  case True
  show ?thesis
  proof (cases "sh_locks c (shardFor (command_stream w))")
    case None
    then show ?thesis
      using True assms(3) by (cases "command_guard w") (auto intro: writer_step.reject writer_step.acquire)
  next
    case (Some j)
    then obtain v where "ws j = Some v" "in_region (sh_phase c j)" using assms(1) by (auto simp: locks_ok_def)
    then show ?thesis by (rule region_progress [OF assms(2)])
  qed
next
  case False
  then have "in_region (sh_phase c i)" using assms(4) by (cases "sh_phase c i") auto
  then show ?thesis by (rule region_progress [OF assms(2,3)])
qed

fun phase_rank :: "'d phase \<Rightarrow> nat" where
  "phase_rank Waiting = 5"
| "phase_rank Holding = 4"
| "phase_rank (Loaded _) = 3"
| "phase_rank (Stamped _ _) = 2"
| "phase_rank (Finished _) = 1"
| "phase_rank (Released _) = 0"

definition work :: "(nat \<Rightarrow> 'd Command option) \<Rightarrow> 'd Shared \<Rightarrow> nat" where
  "work ws c = (\<Sum>i \<in> dom ws. phase_rank (sh_phase c i))"

lemma work_decreases:
  assumes "finite (dom ws)" "i \<in> dom ws" "sh_phase c' = (sh_phase c)(i := p)" "phase_rank p < phase_rank (sh_phase c i)"
  shows "work ws c' < work ws c"
  unfolding work_def by (rule sum_strict_mono_ex1 [OF assms(1)]) (use assms in \<open>auto intro!: bexI [of _ i]\<close>)

lemma writer_step_work:
  assumes "writer_step uc rules ws c c'" "finite (dom ws)"
  shows "work ws c' < work ws c"
  using assms(1)
  by cases (auto intro!: work_decreases [OF assms(2)] simp: hold_step_def unlock_step_def append_step_def split: prod.splits)

lemma writer_run_bounded:
  assumes "(writer_step uc rules ws ^^ m) c0 c" "finite (dom ws)"
  shows "m + work ws c \<le> work ws c0"
  using assms(1)
proof (induction m arbitrary: c)
  case (Suc m)
  then obtain b where "(writer_step uc rules ws ^^ m) c0 b" "writer_step uc rules ws b c" by auto
  with Suc.IH writer_step_work [OF _ assms(2)] show ?case by fastforce
qed simp

lemma started_work: "started c \<Longrightarrow> work ws c = 5 * card (dom ws)"
  by (simp add: work_def started_def)

lemma writers_calm:
  assumes "(writer_step uc rules ws)\<^sup>*\<^sup>* c0 c" "started c0" "finite (dom ws)" "results c i = Some (Inl e)"
  shows "\<not> errors_Is e ErrStaleRead \<and> \<not> errors_Is e ErrNonMonotonicKnowledge"
proof -
  have "(serial_step uc rules ws)\<^sup>*\<^sup>* (sh_store c0, Map.empty) (sh_store c, results c)"
    using writer_run [OF assms(1,2)] by simp
  then have "calm (Inl e :: FactRef result)" using serial_run_outcome [OF _ assms(3)] assms(4) by fastforce
  then show ?thesis by (simp add: contended_def)
qed

section \<open>Properties\<close>

text \<open>C5: the write region makes concurrent use cases serial. Any number of the five use cases run
  concurrently on one in-memory store, their clock reads, loads and appends interleaved in any way
  under a strictly advancing clock. Then no two writers of one stream are ever inside the region together; the
  store and every result returned so far are those of running the same use cases one at a time, each
  whole, with a clock later than its stream; no writer is ever refused with
  \<^verbatim>\<open>ErrStaleRead\<close> or \<^verbatim>\<open>ErrNonMonotonicKnowledge\<close>; each stream has grown by exactly the number of its
  writers that were given a reference.\<close>

theorem locked_writers_serialise:
  assumes "(writer_step uc rules ws)\<^sup>*\<^sup>* c0 c" "started c0" "finite (dom ws)"
  shows "(\<forall>i j w v. ws i = Some w \<and> ws j = Some v \<and> in_region (sh_phase c i) \<and> in_region (sh_phase c j) \<and>
        command_stream w = command_stream v \<longrightarrow> i = j) \<and>
    (serial_step uc rules ws)\<^sup>*\<^sup>* (sh_store c0, Map.empty) (sh_store c, results c) \<and>
    (\<forall>i e. results c i = Some (Inl e) \<longrightarrow> \<not> errors_Is e ErrStaleRead \<and> \<not> errors_Is e ErrNonMonotonicKnowledge) \<and>
    (\<forall>n. length (facts_at (sh_store c) n) = length (facts_at (sh_store c0) n) + card (landed ws (results c) n))"
proof -
  have inv: "locks_ok ws c" and serial: "(serial_step uc rules ws)\<^sup>*\<^sup>* (sh_store c0, Map.empty) (sh_store c, results c)"
    using writer_run [OF assms(1,2)] by (simp_all add: lock_inv_def)
  have out: "\<forall>n. length (facts_at (sh_store c) n) = length (facts_at (sh_store c0) n) + card (landed ws (results c) n)"
    using serial_run_outcome [OF serial assms(3)] by simp
  have "i = j" if "ws i = Some w \<and> ws j = Some v \<and> in_region (sh_phase c i) \<and> in_region (sh_phase c j) \<and>
      command_stream w = command_stream v" for i j w v
    using locks_exclusive [OF inv] that by metis
  moreover note writers_calm [OF assms]
  ultimately show ?thesis using serial out by blast
qed

text \<open>C6: the write region always lets everyone through. Whatever the interleaving, a run of \<open>n\<close>
  writers takes at most \<open>5 n\<close> steps, and as long as one writer has not returned some writer can move:
  there is no deadlock and no livelock, so every maximal run ends with every writer answered, and no
  answer is a stale read or a knowledge time that did not advance. As in the theorem before, the
  clock hands out strictly advancing readings: \<^verbatim>\<open>streamlocks.go\<close> says that two appends of one stream
  stamped in the same instant are still refused.\<close>

theorem locked_writers_finish:
  assumes "(writer_step uc rules ws ^^ m) c0 c" "started c0" "finite (dom ws)"
  shows "m \<le> 5 * card (dom ws) \<and>
    ((\<nexists>c'. writer_step uc rules ws c c') \<longrightarrow> (\<forall>i \<in> dom ws. \<exists>res. sh_phase c i = Released res \<and>
      (\<forall>e. res = Inl e \<longrightarrow> \<not> errors_Is e ErrStaleRead \<and> \<not> errors_Is e ErrNonMonotonicKnowledge))) \<and>
    (\<forall>i e. results c i = Some (Inl e) \<longrightarrow> \<not> errors_Is e ErrStaleRead \<and> \<not> errors_Is e ErrNonMonotonicKnowledge)"
proof -
  have run: "(writer_step uc rules ws)\<^sup>*\<^sup>* c0 c" using assms(1) by (rule relpowp_imp_rtranclp)
  then have "planned uc rules ws c"
  proof induction
    case base
    then show ?case using assms(2) by (simp add: planned_def started_def)
  qed (rule writer_step_planned)
  moreover have "locks_ok ws c" using writer_run [OF run assms(2)] by (simp add: lock_inv_def)
  ultimately have "\<exists>res. sh_phase c i = Released res" if "\<nexists>c'. writer_step uc rules ws c c'" "i \<in> dom ws" for i
    using writer_progress that by blast
  moreover note calm = writers_calm [OF run assms(2,3)]
  have "\<not> errors_Is e ErrStaleRead \<and> \<not> errors_Is e ErrNonMonotonicKnowledge" if "sh_phase c i = Released (Inl e)" for i e
    using calm [of i e] that by (simp add: results_def)
  moreover have "m \<le> 5 * card (dom ws)"
    using writer_run_bounded [OF assms(1,3)] started_work [OF assms(2), of ws] by simp
  ultimately show ?thesis using calm by blast
qed

section \<open>Witnesses\<close>

definition idle_shared :: "int Shared" where
  "idle_shared = \<lparr>sh_store = NewStore, sh_locks = Map.empty, sh_now = Instant 6, sh_phase = (\<lambda>_. Waiting)\<rparr>"

definition two_writers :: "nat \<Rightarrow> int Command option" where
  "two_writers = [0 \<mapsto> AcceptHoldingClaimC sample_accept, 1 \<mapsto> AcceptHoldingClaimC sample_accept]"

lemma idle_started: "started idle_shared"
  by (simp add: started_def idle_shared_def NewStore_def instant_defs)

lemma sample_guard: "command_guard (AcceptHoldingClaimC sample_accept) = Inr ()"
  using sample_source_ok by (simp add: sample_accept_def Claim_IsZero_def sample_claim_def)

lemma sample_hold:
  "writer_step unicode_ascii shipped_ruleset two_writers idle_shared (hold_step (AcceptHoldingClaimC sample_accept) 0 idle_shared)"
  by (rule writer_step.acquire [OF _ _ sample_guard]) (simp_all add: idle_shared_def two_writers_def)

lemma sample_stamped:
  "\<exists>ld c. (writer_step unicode_ascii shipped_ruleset two_writers)\<^sup>*\<^sup>* idle_shared c \<and> sh_store c = NewStore \<and>
     sh_phase c = (\<lambda>_. Waiting)(0 := Stamped ld (Instant 7))"
proof -
  let ?w = "AcceptHoldingClaimC sample_accept" and ?step = "writer_step unicode_ascii shipped_ruleset two_writers"
  let ?c1 = "hold_step ?w 0 idle_shared" and ?ld = "memory_Load NewStore (ac_Stream sample_accept)"
  let ?c2 = "goto 0 (Loaded ?ld) ?c1"
  let ?c3 = "goto 0 (Stamped ?ld (Instant 7)) (?c2\<lparr>sh_now := Instant 7\<rparr>)"
  have ws: "two_writers 0 = Some ?w" by (simp add: two_writers_def)
  have "?step ?c1 ?c2"
    using writer_step.load [of two_writers 0 ?w ?c1, OF ws] by (simp add: hold_step_def idle_shared_def)
  moreover have "?step ?c2 ?c3"
    using writer_step.stamp [of two_writers 0 ?w ?c2 ?ld _ _ _ "Instant 7", OF ws]
    by (simp add: hold_step_def idle_shared_def instant_defs)
  ultimately have "?step\<^sup>*\<^sup>* idle_shared ?c3" using sample_hold by (meson converse_rtranclp_into_rtranclp rtranclp.rtrancl_refl)
  then show ?thesis by (intro exI [of _ ?ld] exI [of _ ?c3]) (auto simp: hold_step_def idle_shared_def)
qed

theorem locked_writers_serialise_witness:
  "\<exists>c ref. (writer_step unicode_ascii shipped_ruleset two_writers)\<^sup>*\<^sup>* idle_shared c \<and>
     results c = [0 \<mapsto> Inr ref] \<and> length (facts_at (sh_store c) ''l'') = 1"
proof -
  let ?w = "AcceptHoldingClaimC sample_accept" and ?step = "writer_step unicode_ascii shipped_ruleset two_writers"
  obtain ld c where c: "?step\<^sup>*\<^sup>* idle_shared c" "sh_store c = NewStore"
    "sh_phase c = (\<lambda>_. Waiting)(0 := Stamped ld (Instant 7))" using sample_stamped by blast
  have ws: "two_writers 0 = Some ?w" and stamped: "sh_phase c 0 = Stamped ld (Instant 7)"
    by (simp_all add: two_writers_def c(3))
  have pl: "command_plan unicode_ascii shipped_ruleset ?w ld = Inr (Any, KindObservation, accept_built sample_accept)" by simp
  let ?d = "append_step ?w (Any, KindObservation, accept_built sample_accept) 0 (Instant 7) c"
  have "phases_ok two_writers c" using writer_run [OF c(1) idle_started] by (simp add: lock_inv_def)
  from append_step_outcome [OF this ws stamped pl] obtain s' res where
    d: "?d = goto 0 (Finished res) (c\<lparr>sh_store := s'\<rparr>)"
      "run unicode_ascii (serial_ledger shipped_ruleset) ?w (NewStore, Instant 7) = ((s', Instant 7), res)"
    using sample_guard c(2) by auto
  then obtain ref where res: "res = Inr ref"
    using sample_accept_admitted by (auto simp: serial_ledger_def sample_ledger_def)
  have run: "?step\<^sup>*\<^sup>* idle_shared ?d" using c(1) writer_step.append [of two_writers 0, OF ws stamped pl] by (rule rtranclp.rtrancl_into_rtrancl)
  have r: "results ?d = [0 \<mapsto> Inr ref]" by (auto simp: d(1) results_goto results_def c(3) res fun_eq_iff)
  have "landed two_writers (results ?d) ''l'' = {0}"
    unfolding r by (auto simp: landed_def two_writers_def sample_accept_def split: if_splits)
  moreover have "finite (dom two_writers)" by (simp add: two_writers_def)
  ultimately have "length (facts_at (sh_store ?d) ''l'') = 1"
    using locked_writers_serialise [OF run idle_started, THEN conjunct2, THEN conjunct2, THEN conjunct2]
    by (simp add: facts_at_def idle_shared_def NewStore_def)
  with run r show ?thesis by blast
qed

theorem locked_writers_finish_witness:
  "\<exists>c. (writer_step unicode_ascii shipped_ruleset two_writers)\<^sup>*\<^sup>* idle_shared c \<and> in_region (sh_phase c 0) \<and>
     (\<exists>c'. writer_step unicode_ascii shipped_ruleset two_writers c c')"
proof -
  let ?c = "hold_step (AcceptHoldingClaimC sample_accept) 0 idle_shared"
  have one: "(writer_step unicode_ascii shipped_ruleset two_writers ^^ 1) idle_shared ?c" using sample_hold by auto
  have "finite (dom two_writers)" "0 \<in> dom two_writers" by (simp_all add: two_writers_def)
  moreover have "\<nexists>res. sh_phase ?c 0 = Released res" by (simp add: hold_step_def)
  ultimately have "\<exists>c'. writer_step unicode_ascii shipped_ruleset two_writers ?c c'"
    using locked_writers_finish [OF one idle_started] by blast
  with sample_hold show ?thesis by (intro exI [of _ ?c]) (auto simp: hold_step_def)
qed

end
