(* ===== verification/Ledger_Journey.thy ===== *)
theory Ledger_Journey
  imports Memory_Store
begin

text \<open>
  The path of a holding through \<^verbatim>\<open>src/libs/ledger/app/usecases.go\<close>, from a claim to a position: a claim is
  admitted, the identities it names are minted, the claimed holding is observed of those identities, and
  the position of the account in the instrument is asked for. Each command is shown to succeed, not
  only to do the right thing when it does; the answers of the queries follow from what was appended.
\<close>

section \<open>A command that succeeds\<close>

context store_contract
begin

lemma performs_appends:
  assumes "performs s n (outcome s n ex kd (Inr (e, p))) s' res"
    and "\<not> Provenance_IsZero (ev_provenance e)" "FactKind_Valid kd"
    and "(case view s n of None \<Rightarrow> NewStream n | Some st \<Rightarrow> Inr st) = Inr st"
    and "ex_checked ex \<longrightarrow> int (Stream_Len st) = ex_length ex"
    and "st_facts st = [] \<or> fact_knowledge (last (st_facts st)) < knowledge (ev_coordinates e)"
  shows "inv s' \<and> res = Inr \<lparr>fr_Stream = st_name st, fr_Sequence = word_of_nat (length (st_facts st) + 1)\<rparr> \<and>
    view s' = (view s)(n \<mapsto> \<lparr>st_name = st_name st, st_facts = st_facts st @
      [\<lparr>f_ref = \<lparr>fr_Stream = st_name st, fr_Sequence = word_of_nat (length (st_facts st) + 1)\<rparr>,
        f_envelope = e, f_kind = kd, f_payload = p\<rparr>]\<rparr>)"
proof -
  obtain st' r where "Stream_Append st e kd (Some p) = Inr (st', r)"
    using assms(2,3) by (simp add: Stream_Append_def NewFact_def Let_def)
  moreover from this have "outcome s n ex kd (Inr (e, p)) = Inr (st', r)"
    using assms(4-6) by (auto simp: outcome_def append_spec_def)
  ultimately show ?thesis using assms(1) by (auto simp: performs_def Stream_Append_Inr_iff)
qed

lemma run_appends:
  assumes "lg_store l = store" "inv s" "command_guard c = Inr ()"
    and "command_plan uc (lg_rules l) c (case view s (command_stream c) of None \<Rightarrow> Inl (absent (command_stream c)) | Some st \<Rightarrow> Inr st) =
      Inr (ex, kd, built)"
    and "ck_Now (lg_clock l) k = (Inr t, k')" "built (Inr t) = Inr (e, p)" "storable s (command_stream c) e p"
    and "\<not> Provenance_IsZero (ev_provenance e)" "FactKind_Valid kd"
    and "(case view s (command_stream c) of None \<Rightarrow> NewStream (command_stream c) | Some st \<Rightarrow> Inr st) = Inr st"
    and "ex_checked ex \<longrightarrow> int (Stream_Len st) = ex_length ex"
    and "st_facts st = [] \<or> fact_knowledge (last (st_facts st)) < knowledge (ev_coordinates e)"
  shows "\<exists>s'. run uc l c (s, k) =
      ((s', k'), Inr \<lparr>fr_Stream = st_name st, fr_Sequence = word_of_nat (length (st_facts st) + 1)\<rparr>) \<and> inv s' \<and>
    view s' = (view s)(command_stream c \<mapsto> \<lparr>st_name = st_name st, st_facts = st_facts st @
      [\<lparr>f_ref = \<lparr>fr_Stream = st_name st, fr_Sequence = word_of_nat (length (st_facts st) + 1)\<rparr>,
        f_envelope = e, f_kind = kd, f_payload = p\<rparr>]\<rparr>)"
proof -
  have "command_region uc l c region (s, k) = commit region (s, k') (command_stream c) ex kd (Inr (e, p))"
    using assms(2,4-6) by (simp add: region_planned region_load)
  from serialise_commit [of s "command_region uc l c" k k' "command_stream c" ex kd "Inr (e, p)" "command_stream c",
      OF assms(2) this] assms(7) obtain s' res where
    r: "so_Serialise store (command_stream c) (command_region uc l c) (s, k) = ((s', k'), res)"
      "performs s (command_stream c) (outcome s (command_stream c) ex kd (Inr (e, p))) s' res" by auto
  have "run uc l c (s, k) = ((s', k'), res)" using assms(1,3) r(1) by (simp add: run_guarded)
  then show ?thesis using performs_appends [OF r(2) assms(8-12)] by simp
qed

end

section \<open>Streams with one mint per claim\<close>

lemma resolves_only:
  assumes "g \<in> set (st_facts s)" "Fact_Visible g a" "answers_claim uc c rs g"
    and "\<forall>f \<in> set (st_facts s). answers_claim uc c rs f \<longrightarrow> f = g"
  shows "resolveWithTrace uc s c rs a = Inr (minted_of g, f_ref g)"
proof -
  have "g \<in> set (VisibleAt s a)" using assms(1,2) by (simp add: set_VisibleAt)
  then obtain f where f: "find (answers_claim uc c rs) (VisibleAt s a) = Some f"
    using assms(3) by (cases "find (answers_claim uc c rs) (VisibleAt s a)") (auto simp: find_None_iff)
  then have "f = g" using find_Some_in [OF f] assms(4) by (simp add: set_VisibleAt)
  then show ?thesis by (simp add: resolveWithTrace_eq f)
qed

lemma two_mints_resolve:
  assumes "f \<in> set (st_facts s)" "g \<in> set (st_facts s)" "Fact_Visible f a" "Fact_Visible g a"
    and "f_payload f = EntityMintedP \<lparr>em_Entity = i, em_BornFrom = c\<rparr>" "f_payload g = EntityMintedP \<lparr>em_Entity = j, em_BornFrom = d\<rparr>"
    and "\<forall>x \<in> set (st_facts s). (\<exists>m. f_payload x = EntityMintedP m) \<longrightarrow> x = f \<or> x = g"
    and "CanonicalPreimage uc rs c \<noteq> CanonicalPreimage uc rs d"
  shows "resolveWithTrace uc s c rs a = Inr (i, f_ref f)" "resolveWithTrace uc s d rs a = Inr (j, f_ref g)"
proof -
  have "resolveWithTrace uc s c rs a = Inr (minted_of f, f_ref f)"
    by (rule resolves_only [OF assms(1,3)]) (use assms(5-8) in \<open>fastforce simp: answers_claim_def resolves_def\<close>)+
  moreover have "resolveWithTrace uc s d rs a = Inr (minted_of g, f_ref g)"
    by (rule resolves_only [OF assms(2,4)]) (use assms(5-8) in \<open>fastforce simp: answers_claim_def resolves_def\<close>)+
  ultimately show "resolveWithTrace uc s c rs a = Inr (i, f_ref f)" "resolveWithTrace uc s d rs a = Inr (j, f_ref g)"
    by (simp_all add: minted_of_def assms(5,6))
qed

lemma position_of_only:
  assumes "list_all wf_fact (st_facts s)" "\<nexists>f c. f \<in> set (st_facts s) \<and> f_payload f = FactCorrectedP c"
    and "filter (\<lambda>f. holding_of f \<noteq> None) (st_facts s) = [g]"
    and "holding_of g = Some \<lparr>ho_Account = acc, ho_Instrument = ins, ho_Quantity = q\<rparr>" "Fact_Visible g a"
  shows "\<exists>v. ProjectPosition A s acc ins a = Inr v \<and>
    v_value v = \<lparr>po_Account = acc, po_Instrument = ins, po_Quantity = q, po_AsOf = a\<rparr> \<and>
    Value_Confidence v = pv_confidence (ev_provenance (f_envelope g))"
proof -
  have "set (Corrections s a) = {}" using assms(2) by (auto simp: set_Corrections)
  then have ret: "retracted_refs s a = []" by (simp add: retracted_refs_def)
  let ?P = "\<lambda>f. \<exists>h. holding_of f = Some h \<and> ho_Account h = acc \<and> ho_Instrument h = ins"
  have "filter ?P (filter (\<lambda>f. Fact_Visible f a) (st_facts s)) =
      filter (\<lambda>f. ?P f \<and> Fact_Visible f a) (filter (\<lambda>f. holding_of f \<noteq> None) (st_facts s))"
    by (auto intro!: filter_cong)
  also have "\<dots> = [g]" unfolding assms(3) using assms(4,5) by simp
  finally have "filter ?P (VisibleAt s a) = [g]" by (simp add: VisibleAt_def filter_sort del: filter_filter)
  moreover have "list_all wf_fact (VisibleAt s a)" using assms(1) by (auto simp: list_all_iff set_VisibleAt)
  ultimately obtain vs where vs: "observe_loop [] acc ins (VisibleAt s a) = Inr vs" "list_all2 observation_of [g] vs"
    using observe_loop_spec [of "VisibleAt s a" "[]" acc ins] by auto
  then obtain v where v: "vs = [v]" "observation_of g v" by (auto simp: list_all2_Cons1)
  have "wf_value v" "v_value v = \<lparr>ho_Account = acc, ho_Instrument = ins, ho_Quantity = q\<rparr>"
    "Value_Confidence v = pv_confidence (ev_provenance (f_envelope g))"
    using v(2) assms(4) by (simp_all add: observation_of_def)
  moreover from this(1) have "Weakest [Value_Confidence v] = Value_Confidence v"
    using Weakest_in [of "[Value_Confidence v]"] by (simp add: wf_value_def Value_Confidence_def)
  ultimately show ?thesis
    using position_of_observations [of s a acc ins vs A] vs(1) v(1) ret by auto
qed

section \<open>The four steps\<close>

definition well_made_claim :: "'d AcceptHoldingClaimCommand \<Rightarrow> bool" where
  "well_made_claim cmd \<longleftrightarrow> CheckContentAddress (ac_Source cmd) = Inr () \<and> ac_Stream cmd \<noteq> [] \<and>
     \<not> Claim_IsZero (ac_Account cmd) \<and> \<not> Claim_IsZero (ac_Instrument cmd) \<and> wf_interval (ac_Effective cmd) \<and>
     is_ok (Observed (ac_Source cmd) (ac_CollectedAt cmd) (ac_Interpreter cmd) (ac_Confidence cmd))"

definition well_made_mint :: "MintIdentityCommand \<Rightarrow> bool" where
  "well_made_mint cmd \<longleftrightarrow> CheckContentAddress (mi_Source cmd) = Inr () \<and> mi_Stream cmd \<noteq> [] \<and> Kind_Valid (mi_Kind cmd) \<and>
     \<not> Claim_IsZero (mi_Claim cmd) \<and> wf_interval (mi_Effective cmd) \<and>
     is_ok (Observed (mi_Source cmd) (mi_CollectedAt cmd) (mi_Interpreter cmd) (mi_Confidence cmd))"

definition well_made_observation :: "ObserveClaimedHoldingCommand \<Rightarrow> bool" where
  "well_made_observation cmd \<longleftrightarrow> is_ok (Observed (oc_Source cmd) (oc_CollectedAt cmd) (oc_Interpreter cmd) ConfidenceAsserted)"

text \<open>Commands one after another, with their answers.\<close>

fun run_all :: "unicode \<Rightarrow> ('d, 's, 'k) Ledger \<Rightarrow> 'd Command list \<Rightarrow> 's \<times> 'k \<Rightarrow> ('s \<times> 'k) \<times> FactRef result list" where
  "run_all uc l [] st = (st, [])"
| "run_all uc l (c # cs) st =
     (case run uc l c st of (st', res) \<Rightarrow> case run_all uc l cs st' of (st'', rs) \<Rightarrow> (st'', res # rs))"

text \<open>What a step adds: a fact numbered next, effective and known as given, with its payload and confidence.\<close>

definition added :: "string \<Rightarrow> nat \<Rightarrow> Interval \<Rightarrow> Instant \<Rightarrow> 'd Payload \<Rightarrow> Confidence \<Rightarrow> 'd Fact \<Rightarrow> bool" where
  "added n i eff t p conf f \<longleftrightarrow> wf_fact f \<and> f_ref f = \<lparr>fr_Stream = n, fr_Sequence = word_of_nat i\<rparr> \<and> f_payload f = p \<and>
     ev_coordinates (f_envelope f) = \<lparr>effective = eff, knowledge = t\<rparr> \<and> pv_confidence (ev_provenance (f_envelope f)) = conf"

lemma derived_ok:
  assumes "is_ok (Observed src col ip c)" "NewDerivation m ins ps rs conf = Inr r"
  shows "\<exists>prov. Derived src col ip (DerivationRecord_Ref r) conf = Inr prov \<and> wf_provenance prov \<and> pv_confidence prov = conf"
proof -
  have "wf_value \<lparr>v_value = (), v_trace = DerivationRecord_Ref r, v_record = r\<rparr>" by (rule NewDerivation_value_wf [OF assms(2)])
  then have "Ref_hash (DerivationRecord_Ref r) \<noteq> []" "Confidence_Valid (dr_confidence r)"
    using wf_value_NewRef by (fastforce simp: NewRef_def sha256HexLen_def wf_value_def)+
  moreover have "dr_confidence r = conf" using assms(2) by (simp add: NewDerivation_Inr_iff)
  ultimately show ?thesis using assms(1) by (auto simp: is_ok_iff Observed_Inr_iff Derived_Inr_iff wf_provenance_def)
qed

context total_store
begin

lemma step_added:
  assumes "lg_store l = store" "inv s" "command_guard c = Inr ()" "ck_Now (lg_clock l) k = (Inr t, k')"
    and "command_plan uc (lg_rules l) c (case view s (command_stream c) of None \<Rightarrow> Inl (absent (command_stream c)) | Some st \<Rightarrow> Inr st) =
      Inr (ex, kd, built)"
    and "built (Inr t) = Inr (e, p)" "wf_envelope e" "FactKind_Valid kd"
    and "(case view s (command_stream c) of None \<Rightarrow> NewStream (command_stream c) | Some st \<Rightarrow> Inr st) = Inr \<lparr>st_name = n, st_facts = fs\<rparr>"
    and "ex_checked ex \<longrightarrow> int (length fs) = ex_length ex" "\<forall>f \<in> set fs. fact_knowledge f < knowledge (ev_coordinates e)"
  shows "\<exists>s' f. run uc l c (s, k) = ((s', k'), Inr (f_ref f)) \<and> inv s' \<and>
    view s' = (view s)(command_stream c \<mapsto> \<lparr>st_name = n, st_facts = fs @ [f]\<rparr>) \<and>
    added n (length fs + 1) (effective (ev_coordinates e)) (knowledge (ev_coordinates e)) p (pv_confidence (ev_provenance e)) f"
proof -
  let ?f = "\<lparr>f_ref = \<lparr>fr_Stream = n, fr_Sequence = word_of_nat (length fs + 1)\<rparr>, f_envelope = e, f_kind = kd, f_payload = p\<rparr>"
  have add: "added n (length fs + 1) (effective (ev_coordinates e)) (knowledge (ev_coordinates e)) p (pv_confidence (ev_provenance e)) ?f"
    using assms(7,8) by (simp add: added_def wf_fact_def)
  have "\<not> Provenance_IsZero (ev_provenance e)" using assms(7) wf_provenance_nonzero by (simp add: wf_envelope_def)
  moreover have "fs = [] \<or> fact_knowledge (last fs) < knowledge (ev_coordinates e)" using assms(11) by (cases fs) auto
  ultimately have "\<exists>s'. run uc l c (s, k) = ((s', k'), Inr (f_ref ?f)) \<and> inv s' \<and>
      view s' = (view s)(command_stream c \<mapsto> \<lparr>st_name = n, st_facts = fs @ [?f]\<rparr>)"
    using run_appends [OF assms(1-3,5,4,6) storable_all _ assms(8,9)] assms(10) by (simp add: Stream_Len_def)
  with add show ?thesis by blast
qed

lemma claim_step:
  assumes "lg_store l = store" "inv s" "well_made_claim cmd" "view s (ac_Stream cmd) = None"
    and "ck_Now (lg_clock l) k = (Inr t, k')" "t \<noteq> zeroInstant"
  shows "\<exists>s' f. run uc l (AcceptHoldingClaimC cmd) (s, k) = ((s', k'), Inr (f_ref f)) \<and> inv s' \<and>
    view s' = (view s)(ac_Stream cmd \<mapsto> \<lparr>st_name = ac_Stream cmd, st_facts = [f]\<rparr>) \<and>
    added (ac_Stream cmd) 1 (ac_Effective cmd) t (HoldingClaimedP \<lparr>hc_Account = ac_Account cmd,
      hc_Instrument = ac_Instrument cmd, hc_Quantity = ac_Quantity cmd\<rparr>) (ac_Confidence cmd) f"
proof -
  let ?p = "HoldingClaimedP \<lparr>hc_Account = ac_Account cmd, hc_Instrument = ac_Instrument cmd, hc_Quantity = ac_Quantity cmd\<rparr>"
  obtain prov where prov: "Observed (ac_Source cmd) (ac_CollectedAt cmd) (ac_Interpreter cmd) (ac_Confidence cmd) = Inr prov"
    using assms(3) by (auto simp: well_made_claim_def is_ok_iff)
  let ?e = "\<lparr>ev_coordinates = \<lparr>effective = ac_Effective cmd, knowledge = t\<rparr>, ev_provenance = prov, ev_references = ac_References cmd\<rparr>"
  have wf: "wf_provenance prov" "pv_confidence prov = ac_Confidence cmd" using Observed_wf [OF prov] prov by (simp_all add: Observed_Inr_iff)
  have env: "wf_envelope ?e" using assms(3,6) wf by (simp add: wf_envelope_def well_made_claim_def)
  then have built: "accept_built cmd (Inr t) = Inr (?e, ?p)"
    unfolding accept_built_def with_payload_Inr_iff using prov wf_provenance_nonzero [OF wf(1)]
    by (auto simp: envelope_for_Inr_iff wf_envelope_def wf_interval_def)
  show ?thesis
    using step_added [of l s "AcceptHoldingClaimC cmd" k t k' uc Any KindObservation "accept_built cmd" ?e ?p "ac_Stream cmd" "[]"]
      assms env built wf(2)
    by (auto simp: well_made_claim_def NewStream_def FactKind_Valid_def Any_def)
qed

lemma mint_step:
  assumes "lg_store l = store" "inv s" "well_made_mint cmd" "view s (mi_Stream cmd) = Some \<lparr>st_name = n, st_facts = fs\<rparr>"
    and "ck_Now (lg_clock l) k = (Inr t, k')" "t \<noteq> zeroInstant" "\<forall>f \<in> set fs. fact_knowledge f < t"
    and "DeriveFromClaim uc (mi_Kind cmd) (Ruleset_Fold (lg_rules l) (mi_Claim cmd)) = Inr i"
    and "\<forall>f \<in> set fs. \<not> answers_claim uc (mi_Claim cmd) (lg_rules l) f"
  shows "\<exists>s' f. run uc l (MintIdentityC cmd) (s, k) = ((s', k'), Inr (f_ref f)) \<and> inv s' \<and>
    view s' = (view s)(mi_Stream cmd \<mapsto> \<lparr>st_name = n, st_facts = fs @ [f]\<rparr>) \<and>
    added n (length fs + 1) (mi_Effective cmd) t (EntityMintedP \<lparr>em_Entity = i, em_BornFrom = mi_Claim cmd\<rparr>) (mi_Confidence cmd) f"
proof -
  let ?st = "\<lparr>st_name = n, st_facts = fs\<rparr>" and ?m = "\<lparr>em_Entity = i, em_BornFrom = mi_Claim cmd\<rparr>"
  let ?ps = "[\<lparr>pa_Name = ''claim'', pa_Value = Claim_String (mi_Claim cmd)\<rparr>, \<lparr>pa_Name = ''kind'', pa_Value = Kind_String (mi_Kind cmd)\<rparr>,
    \<lparr>pa_Name = ''seed'', pa_Value = CanonicalSeed uc (lg_rules l) (mi_Claim cmd)\<rparr>,
    \<lparr>pa_Name = ''canonicalisation'', pa_Value = rs_version (lg_rules l)\<rparr>]"
  have ok: "is_ok (Observed (mi_Source cmd) (mi_CollectedAt cmd) (mi_Interpreter cmd) (mi_Confidence cmd))" "Confidence_Valid (mi_Confidence cmd)"
    using assms(3) by (auto simp: well_made_mint_def is_ok_iff Observed_Inr_iff)
  obtain r where r: "NewDerivation mintMethod (mint_answers cmd) ?ps [] (mi_Confidence cmd) = Inr r"
    using NewDerivation_total [OF mintMethod_named ok(2)] by blast
  then have mint: "MintFor uc (mi_Kind cmd) (mi_Claim cmd) (lg_rules l) (mint_answers cmd) (mi_Confidence cmd) =
      Inr \<lparr>v_value = ?m, v_trace = DerivationRecord_Ref r, v_record = r\<rparr>"
    using assms(3,8) by (simp add: MintFor_Inr_iff well_made_mint_def Claim_IsZero_def)
  obtain prov where prov: "Derived (mi_Source cmd) (mi_CollectedAt cmd) (mi_Interpreter cmd) (DerivationRecord_Ref r) (mi_Confidence cmd) = Inr prov"
      "wf_provenance prov" "pv_confidence prov = mi_Confidence cmd"
    using derived_ok [OF ok(1) r] by blast
  let ?e = "\<lparr>ev_coordinates = \<lparr>effective = mi_Effective cmd, knowledge = t\<rparr>, ev_provenance = prov, ev_references = mi_References cmd\<rparr>"
  have env: "wf_envelope ?e" using assms(3,6) prov by (simp add: wf_envelope_def well_made_mint_def)
  have "Resolve uc ?st (mi_Claim cmd) (lg_rules l) a = Inl [ErrUnresolved]" for a
    using assms(9) by (simp add: Resolve_Inl_iff)
  moreover have "envelope_for (mi_Effective cmd) (Inr t) (Inr prov) (mi_References cmd) = Inr ?e"
    using env wf_provenance_nonzero [OF prov(2)] by (auto simp: envelope_for_Inr_iff wf_envelope_def wf_interval_def)
  ultimately have built: "mint_built uc (lg_rules l) cmd ?st (Inr t) = Inr (?e, EntityMintedP ?m)"
    using env mint prov(1) by (simp add: mint_built_def NewAsOf_def Instant_IsZero_iff wf_envelope_def wf_interval_def with_payload_def)
  show ?thesis
    using step_added [of l s "MintIdentityC cmd" k t k' uc "AtLength (int (length fs))" KindOccurrence "mint_built uc (lg_rules l) cmd ?st"
        ?e "EntityMintedP ?m" n fs] assms env built prov(3)
    by (auto simp: well_made_mint_def FactKind_Valid_def AtLength_def Stream_Len_def)
qed

lemma observation_step:
  assumes "lg_store l = store" "inv s" "well_made_observation cmd" "view s (oc_Stream cmd) = Some \<lparr>st_name = n, st_facts = fs\<rparr>"
    and "ck_Now (lg_clock l) k = (Inr t, k')" "t \<noteq> zeroInstant" "\<forall>f \<in> set fs. fact_knowledge f < t"
    and "Stream_Get \<lparr>st_name = n, st_facts = fs\<rparr> (oc_Claim cmd) = Inr claimed" "wf_fact claimed" "f_payload claimed = HoldingClaimedP h"
    and "resolveWithTrace uc \<lparr>st_name = n, st_facts = fs\<rparr> (hc_Account h) (lg_rules l) (oc_AsOf cmd) = Inr (acc, accRef)"
    and "resolveWithTrace uc \<lparr>st_name = n, st_facts = fs\<rparr> (hc_Instrument h) (lg_rules l) (oc_AsOf cmd) = Inr (ins, insRef)"
  shows "\<exists>s' f. run uc l (ObserveClaimedHoldingC cmd) (s, k) = ((s', k'), Inr (f_ref f)) \<and> inv s' \<and>
    view s' = (view s)(oc_Stream cmd \<mapsto> \<lparr>st_name = n, st_facts = fs @ [f]\<rparr>) \<and>
    added n (length fs + 1) (effective (ev_coordinates (f_envelope claimed))) t
      (HoldingObservedP \<lparr>ho_Account = acc, ho_Instrument = ins, ho_Quantity = hc_Quantity h\<rparr>)
      (pv_confidence (ev_provenance (f_envelope claimed))) f"
proof -
  let ?st = "\<lparr>st_name = n, st_facts = fs\<rparr>" and ?h = "\<lparr>ho_Account = acc, ho_Instrument = ins, ho_Quantity = hc_Quantity h\<rparr>"
  let ?c = "pv_confidence (ev_provenance (f_envelope claimed))" and ?eff = "effective (ev_coordinates (f_envelope claimed))"
  have valid: "Confidence_Valid ?c" by (rule wf_fact_confidence [OF assms(9)])
  have "is_ok (DeriveHoldingObserved uc ?st claimed (lg_rules l) (oc_AsOf cmd))"
    using DeriveHoldingObserved_ok_iff [OF valid assms(10)] assms(11,12) by (simp add: is_ok_iff)
  then obtain v where v: "DeriveHoldingObserved uc ?st claimed (lg_rules l) (oc_AsOf cmd) = Inr v" by (auto simp: is_ok_iff)
  then obtain ins' ps where nd: "NewDerivation observationMethod ins' ps [] ?c = Inr (v_record v)" and
      val: "v_value v = ?h" "v_trace v = DerivationRecord_Ref (v_record v)"
    using assms(10-12) by (auto simp: DeriveHoldingObserved_def FromDerivation_Inr_iff)
  have conf: "dr_confidence (v_record v) = ?c" using nd by (simp add: NewDerivation_Inr_iff)
  have "is_ok (Observed (oc_Source cmd) (oc_CollectedAt cmd) (oc_Interpreter cmd) ConfidenceAsserted)"
    using assms(3) by (simp add: well_made_observation_def)
  from derived_ok [OF this nd] obtain prov where prov:
      "Derived (oc_Source cmd) (oc_CollectedAt cmd) (oc_Interpreter cmd) (v_trace v) (dr_confidence (v_record v)) = Inr prov"
      "wf_provenance prov" "pv_confidence prov = ?c"
    using val conf by auto
  let ?e = "\<lparr>ev_coordinates = \<lparr>effective = ?eff, knowledge = t\<rparr>, ev_provenance = prov, ev_references = ev_references (f_envelope claimed)\<rparr>"
  have env: "wf_envelope ?e" using assms(6,9) prov by (simp add: wf_envelope_def wf_fact_def)
  then have built: "claimed_built cmd claimed v (Inr t) = Inr (?e, HoldingObservedP ?h)"
    unfolding claimed_built_def with_payload_Inr_iff using val(1) prov wf_provenance_nonzero [OF prov(2)]
    by (auto simp: envelope_for_Inr_iff wf_envelope_def wf_interval_def)
  show ?thesis
    using step_added [of l s "ObserveClaimedHoldingC cmd" k t k' uc "AtLength (int (length fs))" KindObservation "claimed_built cmd claimed v"
        ?e "HoldingObservedP ?h" n fs] assms(1,2,4,5,7,8) v env built prov(3)
    by (auto simp: FactKind_Valid_def AtLength_def Stream_Len_def)
qed

text \<open>The four commands on a new stream, and the stream they leave.\<close>

lemma journey:
  assumes l: "lg_store l = store" "inv s" "view s n = None"
    and made: "well_made_claim ac" "well_made_mint ma" "well_made_mint mi" "well_made_observation oc"
    and streams: "ac_Stream ac = n" "mi_Stream ma = n" "mi_Stream mi = n" "oc_Stream oc = n"
    and links: "mi_Claim ma = ac_Account ac" "mi_Claim mi = ac_Instrument ac" "oc_Claim oc = \<lparr>fr_Stream = n, fr_Sequence = 1\<rparr>"
    and clock: "ck_Now (lg_clock l) k0 = (Inr t1, k1)" "ck_Now (lg_clock l) k1 = (Inr t2, k2)"
      "ck_Now (lg_clock l) k2 = (Inr t3, k3)" "ck_Now (lg_clock l) k3 = (Inr t4, k4)"
      "zeroInstant < t1" "t1 < t2" "t2 < t3" "t3 < t4"
    and ids: "DeriveFromClaim uc (mi_Kind ma) (Ruleset_Fold (lg_rules l) (ac_Account ac)) = Inr acc"
      "DeriveFromClaim uc (mi_Kind mi) (Ruleset_Fold (lg_rules l) (ac_Instrument ac)) = Inr ins"
      "CanonicalPreimage uc (lg_rules l) (ac_Account ac) \<noteq> CanonicalPreimage uc (lg_rules l) (ac_Instrument ac)"
    and seen: "Contains (mi_Effective ma) (ao_effective (oc_AsOf oc))" "Contains (mi_Effective mi) (ao_effective (oc_AsOf oc))"
      "t3 \<le> ao_knowledge (oc_AsOf oc)"
  shows "\<exists>s' f1 f2 f3 f4. run_all uc l [AcceptHoldingClaimC ac, MintIdentityC ma, MintIdentityC mi, ObserveClaimedHoldingC oc] (s, k0) =
      ((s', k4), [Inr (f_ref f1), Inr (f_ref f2), Inr (f_ref f3), Inr (f_ref f4)]) \<and> inv s' \<and>
    view s' = (view s)(n \<mapsto> \<lparr>st_name = n, st_facts = [f1, f2, f3, f4]\<rparr>) \<and>
    added n 1 (ac_Effective ac) t1 (HoldingClaimedP \<lparr>hc_Account = ac_Account ac, hc_Instrument = ac_Instrument ac,
      hc_Quantity = ac_Quantity ac\<rparr>) (ac_Confidence ac) f1 \<and>
    added n 2 (mi_Effective ma) t2 (EntityMintedP \<lparr>em_Entity = acc, em_BornFrom = ac_Account ac\<rparr>) (mi_Confidence ma) f2 \<and>
    added n 3 (mi_Effective mi) t3 (EntityMintedP \<lparr>em_Entity = ins, em_BornFrom = ac_Instrument ac\<rparr>) (mi_Confidence mi) f3 \<and>
    added n 4 (ac_Effective ac) t4 (HoldingObservedP \<lparr>ho_Account = acc, ho_Instrument = ins, ho_Quantity = ac_Quantity ac\<rparr>)
      (ac_Confidence ac) f4"
proof -
  let ?h = "\<lparr>hc_Account = ac_Account ac, hc_Instrument = ac_Instrument ac, hc_Quantity = ac_Quantity ac\<rparr>"
  have times: "t1 \<noteq> zeroInstant" "t2 \<noteq> zeroInstant" "t3 \<noteq> zeroInstant" "t4 \<noteq> zeroInstant" "t1 < t3" "t1 < t4" "t2 < t4"
    using clock(5-8) by auto
  obtain s1 f1 where s1: "run uc l (AcceptHoldingClaimC ac) (s, k0) = ((s1, k1), Inr (f_ref f1))" "inv s1"
      "view s1 = (view s)(n \<mapsto> \<lparr>st_name = n, st_facts = [f1]\<rparr>)" "added n 1 (ac_Effective ac) t1 (HoldingClaimedP ?h) (ac_Confidence ac) f1"
    using claim_step [OF l(1,2) made(1) _ clock(1) times(1)] l(3) streams(1) by blast
  have f1: "\<not> answers_claim uc c (lg_rules l) f1" "fact_knowledge f1 = t1" "f_payload f1 = HoldingClaimedP ?h" "wf_fact f1" for c
    using s1(4) by (simp_all add: added_def answers_claim_def)
  obtain s2 f2 where s2: "run uc l (MintIdentityC ma) (s1, k1) = ((s2, k2), Inr (f_ref f2))" "inv s2"
      "view s2 = (view s1)(n \<mapsto> \<lparr>st_name = n, st_facts = [f1, f2]\<rparr>)"
      "added n 2 (mi_Effective ma) t2 (EntityMintedP \<lparr>em_Entity = acc, em_BornFrom = ac_Account ac\<rparr>) (mi_Confidence ma) f2"
    using mint_step [OF l(1) s1(2) made(2) _ clock(2) times(2), of n "[f1]" uc acc] s1(3) streams(2) links(1) ids(1) f1 clock(6)
    by (auto simp: numeral_2_eq_2)
  have f2: "answers_claim uc c (lg_rules l) f2 \<longleftrightarrow> CanonicalPreimage uc (lg_rules l) (ac_Account ac) = CanonicalPreimage uc (lg_rules l) c"
      "fact_knowledge f2 = t2" "minted_of f2 = acc" for c
    using s2(4) by (simp_all add: added_def answers_claim_def resolves_def minted_of_def)
  obtain s3 f3 where s3: "run uc l (MintIdentityC mi) (s2, k2) = ((s3, k3), Inr (f_ref f3))" "inv s3"
      "view s3 = (view s2)(n \<mapsto> \<lparr>st_name = n, st_facts = [f1, f2, f3]\<rparr>)"
      "added n 3 (mi_Effective mi) t3 (EntityMintedP \<lparr>em_Entity = ins, em_BornFrom = ac_Instrument ac\<rparr>) (mi_Confidence mi) f3"
    using mint_step [OF l(1) s2(2) made(3) _ clock(3) times(3), of n "[f1, f2]" uc ins] s2(3) streams(3) links(2) ids(2,3) f1 f2 clock(7) times(5)
    by (auto simp: numeral_3_eq_3)
  have f3: "answers_claim uc c (lg_rules l) f3 \<longleftrightarrow> CanonicalPreimage uc (lg_rules l) (ac_Instrument ac) = CanonicalPreimage uc (lg_rules l) c"
      "fact_knowledge f3 = t3" "minted_of f3 = ins" for c
    using s3(4) by (simp_all add: added_def answers_claim_def resolves_def minted_of_def)
  let ?st = "\<lparr>st_name = n, st_facts = [f1, f2, f3]\<rparr>"
  have vis: "Fact_Visible f2 (oc_AsOf oc)" "Fact_Visible f3 (oc_AsOf oc)"
    using seen s2(4) s3(4) clock(7) by (auto simp: Fact_Visible_iff added_def)
  have res: "resolveWithTrace uc ?st (ac_Account ac) (lg_rules l) (oc_AsOf oc) = Inr (acc, f_ref f2)"
      "resolveWithTrace uc ?st (ac_Instrument ac) (lg_rules l) (oc_AsOf oc) = Inr (ins, f_ref f3)"
    using two_mints_resolve [of f2 ?st f3 "oc_AsOf oc" acc "ac_Account ac" ins "ac_Instrument ac" uc "lg_rules l"] vis f1(3) s2(4) s3(4) ids(3)
    by (auto simp: added_def)
  have got: "Stream_Get ?st (oc_Claim oc) = Inr f1" using links(3) by (simp add: Stream_Get_def)
  obtain s4 f4 where s4: "run uc l (ObserveClaimedHoldingC oc) (s3, k3) = ((s4, k4), Inr (f_ref f4))" "inv s4"
      "view s4 = (view s3)(n \<mapsto> \<lparr>st_name = n, st_facts = [f1, f2, f3, f4]\<rparr>)"
      "added n 4 (ac_Effective ac) t4 (HoldingObservedP \<lparr>ho_Account = acc, ho_Instrument = ins, ho_Quantity = ac_Quantity ac\<rparr>) (ac_Confidence ac) f4"
    using observation_step [OF l(1) s3(2) made(4) _ clock(4) times(4) _ got f1(4,3), of uc acc "f_ref f2" ins "f_ref f3"]
      s3(3) streams(4) f1(2) f2(2) f3(2) clock(8) times(6,7) res s1(4)
    by (auto simp: added_def numeral_eq_Suc)
  show ?thesis
    using s1 s2 s3 s4 by (intro exI [of _ s4] exI [of _ f1] exI [of _ f2] exI [of _ f3] exI [of _ f4]) simp
qed

end

section \<open>Properties\<close>

text \<open>C2: a claim becomes a position. On a new stream of a ledger over the in-memory store, admitting a well-made claim, minting the
  account and the instrument it names and observing the claimed holding all succeed, as facts 1 to 4 of
  the stream. Afterwards the position of the minted account in the minted instrument, asked anywhere the
  claim is in force and at any knowledge time from the observation's on, is the claimed quantity, with
  the claim's confidence; and the work list at the coordinate the observation was derived at is empty. The
  clock must advance between the commands, the two claims must differ in canonical form, and the
  derivation must be asked for where both mints are in force and known.\<close>

theorem claim_becomes_position:
  assumes l: "lg_store l = memory_store" "s n = None"
    and made: "well_made_claim ac" "well_made_mint ma" "well_made_mint mi" "well_made_observation oc"
    and streams: "ac_Stream ac = n" "mi_Stream ma = n" "mi_Stream mi = n" "oc_Stream oc = n"
    and links: "mi_Claim ma = ac_Account ac" "mi_Claim mi = ac_Instrument ac" "oc_Claim oc = \<lparr>fr_Stream = n, fr_Sequence = 1\<rparr>"
    and clock: "ck_Now (lg_clock l) k0 = (Inr t1, k1)" "ck_Now (lg_clock l) k1 = (Inr t2, k2)"
      "ck_Now (lg_clock l) k2 = (Inr t3, k3)" "ck_Now (lg_clock l) k3 = (Inr t4, k4)"
      "zeroInstant < t1" "t1 < t2" "t2 < t3" "t3 < t4"
    and ids: "DeriveFromClaim uc (mi_Kind ma) (Ruleset_Fold (lg_rules l) (ac_Account ac)) = Inr acc"
      "DeriveFromClaim uc (mi_Kind mi) (Ruleset_Fold (lg_rules l) (ac_Instrument ac)) = Inr ins"
      "CanonicalPreimage uc (lg_rules l) (ac_Account ac) \<noteq> CanonicalPreimage uc (lg_rules l) (ac_Instrument ac)"
    and seen: "Contains (mi_Effective ma) (ao_effective (oc_AsOf oc))" "Contains (mi_Effective mi) (ao_effective (oc_AsOf oc))"
      "t3 \<le> ao_knowledge (oc_AsOf oc)"
    and asked: "Contains (ac_Effective ac) (ao_effective a)" "t4 \<le> ao_knowledge a"
  shows "\<exists>s' v. run_all uc l [AcceptHoldingClaimC ac, MintIdentityC ma, MintIdentityC mi, ObserveClaimedHoldingC oc] (s, k0) =
      ((s', k4), map (\<lambda>i. Inr \<lparr>fr_Stream = n, fr_Sequence = i\<rparr>) [1, 2, 3, 4]) \<and>
    Ledger_ProjectPosition A l \<lparr>pq_Stream = n, pq_Account = acc, pq_Instrument = ins, pq_AsOf = a\<rparr> s' = Inr v \<and>
    v_value v = \<lparr>po_Account = acc, po_Instrument = ins, po_Quantity = ac_Quantity ac, po_AsOf = a\<rparr> \<and>
    Value_Confidence v = ac_Confidence ac \<and>
    UnresolvedClaims uc l \<lparr>uq_Stream = n, uq_AsOf = oc_AsOf oc\<rparr> s' = Inr []"
proof -
  obtain s' f1 f2 f3 f4 where j:
      "run_all uc l [AcceptHoldingClaimC ac, MintIdentityC ma, MintIdentityC mi, ObserveClaimedHoldingC oc] (s, k0) =
        ((s', k4), [Inr (f_ref f1), Inr (f_ref f2), Inr (f_ref f3), Inr (f_ref f4)])"
      "s' = s(n \<mapsto> \<lparr>st_name = n, st_facts = [f1, f2, f3, f4]\<rparr>)"
    and f: "added n 1 (ac_Effective ac) t1 (HoldingClaimedP \<lparr>hc_Account = ac_Account ac, hc_Instrument = ac_Instrument ac,
        hc_Quantity = ac_Quantity ac\<rparr>) (ac_Confidence ac) f1"
      "added n 2 (mi_Effective ma) t2 (EntityMintedP \<lparr>em_Entity = acc, em_BornFrom = ac_Account ac\<rparr>) (mi_Confidence ma) f2"
      "added n 3 (mi_Effective mi) t3 (EntityMintedP \<lparr>em_Entity = ins, em_BornFrom = ac_Instrument ac\<rparr>) (mi_Confidence mi) f3"
      "added n 4 (ac_Effective ac) t4 (HoldingObservedP \<lparr>ho_Account = acc, ho_Instrument = ins, ho_Quantity = ac_Quantity ac\<rparr>)
        (ac_Confidence ac) f4"
    using memory.journey [where s = s and n = n, OF l(1) TrueI l(2) made streams links clock ids seen] by blast
  let ?st = "\<lparr>st_name = n, st_facts = [f1, f2, f3, f4]\<rparr>"
  have "\<exists>v. ProjectPosition A ?st acc ins a = Inr v \<and> v_value v = \<lparr>po_Account = acc, po_Instrument = ins, po_Quantity = ac_Quantity ac, po_AsOf = a\<rparr> \<and>
      Value_Confidence v = pv_confidence (ev_provenance (f_envelope f4))"
    by (rule position_of_only [of _ f4]) (use f asked in \<open>auto simp: added_def holding_of_def Fact_Visible_iff\<close>)
  moreover have "resolveWithTrace uc ?st (ac_Account ac) (lg_rules l) (oc_AsOf oc) = Inr (acc, f_ref f2)"
      "resolveWithTrace uc ?st (ac_Instrument ac) (lg_rules l) (oc_AsOf oc) = Inr (ins, f_ref f3)"
    using two_mints_resolve [of f2 ?st f3 "oc_AsOf oc" acc "ac_Account ac" ins "ac_Instrument ac" uc "lg_rules l"] f seen ids(3) clock(7)
    by (auto simp: added_def Fact_Visible_iff)
  then have "Resolve uc ?st (ac_Account ac) (lg_rules l) (oc_AsOf oc) = Inr acc" "Resolve uc ?st (ac_Instrument ac) (lg_rules l) (oc_AsOf oc) = Inr ins"
    by (simp_all add: Resolve_def)
  then have "u \<notin> set (Unresolved uc ?st (lg_rules l) (oc_AsOf oc))" for u
    using f by (auto simp: Unresolved_iff set_VisibleAt added_def)
  then have "Unresolved uc ?st (lg_rules l) (oc_AsOf oc) = []" by (metis last_in_set)
  ultimately show ?thesis
    using j f l(1) by (auto simp: Ledger_ProjectPosition_def UnresolvedClaims_def memory_store_def memory_Load_def added_def)
qed

section \<open>Witness\<close>

definition ticker_claim :: Claim where
  "ticker_claim = \<lparr>cl_scheme = ''ticker'', cl_value = ''y''\<rparr>"

definition advancing_ledger :: "(int, int MemStore, Sequence) Ledger" where
  "advancing_ledger = \<lparr>lg_store = memory_store, lg_clock = Sequence_clock, lg_rules = shipped_ruleset\<rparr>"

definition journey_claim :: "int AcceptHoldingClaimCommand" where
  "journey_claim = sample_accept\<lparr>ac_Instrument := ticker_claim\<rparr>"

definition journey_mint :: MintIdentityCommand where
  "journey_mint = sample_minting\<lparr>mi_Kind := KindInstrument, mi_Claim := ticker_claim\<rparr>"

definition journey_observation :: ObserveClaimedHoldingCommand where
  "journey_observation = sample_observing\<lparr>oc_Claim := \<lparr>fr_Stream = ''l'', fr_Sequence = 1\<rparr>\<rparr>"

lemmas journey_defs = journey_claim_def journey_mint_def journey_observation_def sample_accept_def sample_minting_def
  sample_observing_def advancing_ledger_def

lemma ticks:
  "ck_Now (lg_clock advancing_ledger) \<lparr>sq_next = 5, sq_step = 1\<rparr> = (Inr (Instant 5), \<lparr>sq_next = 6, sq_step = 1\<rparr>)"
  "ck_Now (lg_clock advancing_ledger) \<lparr>sq_next = 6, sq_step = 1\<rparr> = (Inr (Instant 6), \<lparr>sq_next = 7, sq_step = 1\<rparr>)"
  "ck_Now (lg_clock advancing_ledger) \<lparr>sq_next = 7, sq_step = 1\<rparr> = (Inr (Instant 7), \<lparr>sq_next = 8, sq_step = 1\<rparr>)"
  "ck_Now (lg_clock advancing_ledger) \<lparr>sq_next = 8, sq_step = 1\<rparr> = (Inr (Instant 8), \<lparr>sq_next = 9, sq_step = 1\<rparr>)"
  by (simp_all add: advancing_ledger_def Sequence_clock_def Sequence_Now_def MustAt_def At_def)

lemma journey_made: "well_made_claim journey_claim" "well_made_mint sample_minting" "well_made_mint journey_mint"
  "well_made_observation journey_observation"
  using sample_source_ok
  by (simp_all add: well_made_claim_def well_made_mint_def well_made_observation_def journey_defs ticker_claim_def sample_claim_def
      Claim_IsZero_def is_ok_iff Observed_Inr_iff sample_interval_def wf_interval_def instant_defs Kind_Valid_def enum_defs
      Confidence_Valid_def sample_source_def KindAccount_def KindInstrument_def KindLedgerStream_def)

lemma ticker_wf: "wf_claim unicode_ascii ticker_claim"
  by (simp add: ticker_claim_def claim_eval ascii_eval)

lemma claims_differ: "CanonicalPreimage unicode_ascii shipped_ruleset sample_claim \<noteq> CanonicalPreimage unicode_ascii shipped_ruleset ticker_claim"
  by (simp add: CanonicalPreimage_eq_iff sample_claim_def ticker_claim_def claim_eval ascii_eval)

theorem claim_becomes_position_witness:
  "\<exists>s' k rs v. run_all unicode_ascii advancing_ledger [AcceptHoldingClaimC journey_claim, MintIdentityC sample_minting, MintIdentityC journey_mint,
      ObserveClaimedHoldingC journey_observation] (NewStore, \<lparr>sq_next = 5, sq_step = 1\<rparr>) = ((s', k), rs) \<and>
    Ledger_ProjectPosition int_apd advancing_ledger \<lparr>pq_Stream = ''l'',
      pq_Account = projr (DeriveFromClaim unicode_ascii KindAccount (Ruleset_Fold shipped_ruleset sample_claim)),
      pq_Instrument = projr (DeriveFromClaim unicode_ascii KindInstrument (Ruleset_Fold shipped_ruleset ticker_claim)),
      pq_AsOf = sample_asof\<rparr> s' = Inr v \<and> po_Quantity (v_value v) = \<lparr>q_amount = 7, q_unit = ''share''\<rparr>"
proof -
  have kinds: "Kind_Valid KindAccount" "Kind_Valid KindInstrument"
    by (simp_all add: Kind_Valid_def KindInstrument_def KindLedgerStream_def KindAccount_def)
  obtain acc ins where ids: "DeriveFromClaim unicode_ascii KindAccount (Ruleset_Fold shipped_ruleset sample_claim) = Inr acc"
      "DeriveFromClaim unicode_ascii KindInstrument (Ruleset_Fold shipped_ruleset ticker_claim) = Inr ins"
    using DeriveFromClaim_wf [OF wf_claim_Fold [OF sample_wf_claim] kinds(1), of shipped_ruleset]
      DeriveFromClaim_wf [OF wf_claim_Fold [OF ticker_wf] kinds(2), of shipped_ruleset] by auto
  have "NewStore ''l'' = None" by (simp add: NewStore_def)
  from claim_becomes_position [of advancing_ledger NewStore "''l''" journey_claim sample_minting journey_mint journey_observation
      _ _ _ _ _ _ _ _ _ unicode_ascii acc ins sample_asof int_apd, OF _ this journey_made _ _ _ _ _ _ _ ticks]
  show ?thesis
    using ids claims_differ by (auto simp: journey_defs sample_asof_def sample_interval_def Contains_def IsOpen_def instant_defs)
qed

end
