(* ===== verification/Kernel_Wire.thy ===== *)
theory Kernel_Wire
  imports Identity Money Provenance
begin

text \<open>
  \<^verbatim>\<open>src/libs/kernel-wire/codec.go\<close>: the kernel types to and from their protobuf messages. A message
  is a record with the fields of the generated struct; a pointer is an option, so \<^verbatim>\<open>nil\<close> is
  \<open>None\<close>, and a generated getter on \<^verbatim>\<open>nil\<close> answers the zero value. Proto enumerations are open:
  they are 32-bit words, with the generated constants.

  \<^verbatim>\<open>timestamppb\<close> is third-party and the parameter \<open>'ts timestamppb\<close> stands for it; the law
  \<open>timestamppb_exact\<close> is its documentation: a time in range survives \<^verbatim>\<open>New\<close> and \<^verbatim>\<open>AsTime\<close>.
  \<open>unix_timestamppb\<close> is an instance.
\<close>

section \<open>Messages\<close>

definition Kernelwire_ErrMalformed :: sentinel where
  "Kernelwire_ErrMalformed = ''kernelwire: malformed wire value''"

declare Kernelwire_ErrMalformed_def [sentinel_defs]

type_synonym pb_enum = u32

record 'ts timestamppb =
  tp_New :: "time \<Rightarrow> 'ts"
  tp_AsTime :: "'ts \<Rightarrow> time"

record pb_EntityId =
  ei_Value :: string
  ei_Kind :: pb_enum

record pb_IdentifierClaim =
  ic_Scheme :: string
  ic_Value :: string

record pb_Decimal =
  dc_Value :: string

record pb_Money =
  mw_Amount :: "pb_Decimal option"
  mw_Currency :: string

record pb_Quantity =
  qw_Amount :: "pb_Decimal option"
  qw_Unit :: string

record pb_RoundingContext =
  rw_Precision :: u32
  rw_Mode :: pb_enum
  rw_Scale :: "i32 option"

record 'ts pb_EffectiveInterval =
  iw_From :: "'ts option"
  iw_To :: "'ts option"

record 'ts pb_TemporalCoordinates =
  tw_Effective :: "'ts pb_EffectiveInterval option"
  tw_Knowledge :: "'ts option"

record pb_SourceRef =
  sr_Value :: string

record pb_InterpreterRef =
  ir_Name :: string
  ir_Version :: string

record pb_ReferenceBinding =
  bw_Dataset :: string
  bw_Version :: string

record pb_DerivationRef =
  dw_ContentHash :: string

record 'ts pb_Provenance =
  pw_Source :: "pb_SourceRef option"
  pw_CollectedAt :: "'ts option"
  pw_PublishedAt :: "'ts option"
  pw_Interpreter :: "pb_InterpreterRef option"
  pw_Derivation :: "pb_DerivationRef option"
  pw_Confidence :: pb_enum

section \<open>Identity\<close>

definition encodeEntityKind :: "Kind \<Rightarrow> pb_enum" where
  "encodeEntityKind k =
     (if k = KindInstrument then 1
      else if k = KindParty then 2
      else if k = KindAccount then 3
      else if k = KindLedgerStream then 4
      else 0)"

definition decodeEntityKind :: "pb_enum \<Rightarrow> Kind result" where
  "decodeEntityKind w =
     (if w = 1 then Inr KindInstrument
      else if w = 2 then Inr KindParty
      else if w = 3 then Inr KindAccount
      else if w = 4 then Inr KindLedgerStream
      else Inl [Kernelwire_ErrMalformed])"

definition EncodeEntityID :: "ID \<Rightarrow> pb_EntityId" where
  "EncodeEntityID i = \<lparr>ei_Value = ID_String i, ei_Kind = encodeEntityKind (id_kind i)\<rparr>"

definition DecodeEntityID :: "pb_EntityId option \<Rightarrow> ID result" where
  "DecodeEntityID w =
     (case w of
        None \<Rightarrow> Inl [Kernelwire_ErrMalformed]
      | Some w \<Rightarrow> bindR (decodeEntityKind (ei_Kind w)) (\<lambda>kind.
          wrapR Kernelwire_ErrMalformed (Restore kind (ei_Value w))))"

definition EncodeClaim :: "Claim \<Rightarrow> pb_IdentifierClaim" where
  "EncodeClaim c = \<lparr>ic_Scheme = cl_scheme c, ic_Value = cl_value c\<rparr>"

definition DecodeClaim :: "unicode \<Rightarrow> pb_IdentifierClaim option \<Rightarrow> Claim result" where
  "DecodeClaim uc w =
     (case w of
        None \<Rightarrow> Inl [Kernelwire_ErrMalformed]
      | Some w \<Rightarrow> wrapR Kernelwire_ErrMalformed (NewClaim uc (ic_Scheme w) (ic_Value w)))"

section \<open>Money\<close>

definition EncodeMoney :: "'d apd \<Rightarrow> 'd Money \<Rightarrow> pb_Money" where
  "EncodeMoney A m = \<lparr>mw_Amount = Some \<lparr>dc_Value = Money_String A m\<rparr>, mw_Currency = m_currency m\<rparr>"

definition DecodeMoney :: "'d apd \<Rightarrow> pb_Money option \<Rightarrow> 'd Money result" where
  "DecodeMoney A w =
     (case w of
        None \<Rightarrow> Inl [Kernelwire_ErrMalformed]
      | Some w \<Rightarrow>
        (case mw_Amount w of
           None \<Rightarrow> Inl [Kernelwire_ErrMalformed]
         | Some d \<Rightarrow> wrapR Kernelwire_ErrMalformed (Money_Parse A (dc_Value d) (mw_Currency w))))"

definition EncodeQuantity :: "'d apd \<Rightarrow> 'd Quantity \<Rightarrow> pb_Quantity" where
  "EncodeQuantity A q = \<lparr>qw_Amount = Some \<lparr>dc_Value = Quantity_String A q\<rparr>, qw_Unit = q_unit q\<rparr>"

definition DecodeQuantity :: "'d apd \<Rightarrow> pb_Quantity option \<Rightarrow> 'd Quantity result" where
  "DecodeQuantity A w =
     (case w of
        None \<Rightarrow> Inl [Kernelwire_ErrMalformed]
      | Some w \<Rightarrow>
        (case qw_Amount w of
           None \<Rightarrow> Inl [Kernelwire_ErrMalformed]
         | Some d \<Rightarrow> wrapR Kernelwire_ErrMalformed (ParseQuantity A (dc_Value d) (qw_Unit w))))"

definition encodeRoundingMode :: "RoundingMode \<Rightarrow> pb_enum" where
  "encodeRoundingMode m =
     (if m = RoundingModeHalfEven then 1
      else if m = RoundingModeHalfUp then 2
      else if m = RoundingModeDown then 3
      else if m = RoundingModeUp then 4
      else if m = RoundingModeCeiling then 5
      else if m = RoundingModeFloor then 6
      else 0)"

definition decodeRoundingMode :: "pb_enum \<Rightarrow> RoundingMode result" where
  "decodeRoundingMode w =
     (if w = 1 then Inr RoundingModeHalfEven
      else if w = 2 then Inr RoundingModeHalfUp
      else if w = 3 then Inr RoundingModeDown
      else if w = 4 then Inr RoundingModeUp
      else if w = 5 then Inr RoundingModeCeiling
      else if w = 6 then Inr RoundingModeFloor
      else Inl [Kernelwire_ErrMalformed])"

definition EncodeRoundingContext :: "RoundingContext \<Rightarrow> pb_RoundingContext" where
  "EncodeRoundingContext rc =
     (let w = \<lparr>rw_Precision = rc_precision rc, rw_Mode = encodeRoundingMode (rc_mode rc), rw_Scale = None\<rparr>
      in case Scale rc of (scale, ok) \<Rightarrow> if ok then w\<lparr>rw_Scale := Some scale\<rparr> else w)"

definition DecodeRoundingContext :: "pb_RoundingContext option \<Rightarrow> RoundingContext result" where
  "DecodeRoundingContext w =
     (case w of
        None \<Rightarrow> Inl [Kernelwire_ErrMalformed]
      | Some w \<Rightarrow> bindR (decodeRoundingMode (rw_Mode w)) (\<lambda>mode.
          bindR (wrapR Kernelwire_ErrMalformed (NewRoundingContext (rw_Precision w) mode)) (\<lambda>rc.
            case rw_Scale w of None \<Rightarrow> Inr rc | Some scale \<Rightarrow> Inr (WithScale rc scale))))"

section \<open>Time\<close>

definition EncodeInstant :: "'ts timestamppb \<Rightarrow> Instant \<Rightarrow> 'ts option" where
  "EncodeInstant T i = (if Instant_IsZero i then None else Some (tp_New T (Time i)))"

definition DecodeInstant :: "'ts timestamppb \<Rightarrow> 'ts option \<Rightarrow> Instant result" where
  "DecodeInstant T w =
     (case w of
        None \<Rightarrow> Inr zeroInstant
      | Some w \<Rightarrow> wrapR Kernelwire_ErrMalformed (At (tp_AsTime T w)))"

definition EncodeInterval :: "'ts timestamppb \<Rightarrow> Interval \<Rightarrow> 'ts pb_EffectiveInterval" where
  "EncodeInterval T iv = \<lparr>iw_From = EncodeInstant T (iv_from iv), iw_To = EncodeInstant T (iv_to iv)\<rparr>"

definition DecodeInterval :: "'ts timestamppb \<Rightarrow> 'ts pb_EffectiveInterval option \<Rightarrow> Interval result" where
  "DecodeInterval T w =
     (case w of
        None \<Rightarrow> Inl [Kernelwire_ErrMalformed]
      | Some w \<Rightarrow> bindR (DecodeInstant T (iw_From w)) (\<lambda>from.
          bindR (DecodeInstant T (iw_To w)) (\<lambda>to.
            wrapR Kernelwire_ErrMalformed (NewInterval from to))))"

definition EncodeCoordinates :: "'ts timestamppb \<Rightarrow> Coordinates \<Rightarrow> 'ts pb_TemporalCoordinates" where
  "EncodeCoordinates T c =
     \<lparr>tw_Effective = Some (EncodeInterval T (effective c)), tw_Knowledge = EncodeInstant T (knowledge c)\<rparr>"

definition DecodeCoordinates :: "'ts timestamppb \<Rightarrow> 'ts pb_TemporalCoordinates option \<Rightarrow> Coordinates result" where
  "DecodeCoordinates T w =
     (case w of
        None \<Rightarrow> Inl [Kernelwire_ErrMalformed]
      | Some w \<Rightarrow> bindR (DecodeInterval T (tw_Effective w)) (\<lambda>eff.
          bindR (DecodeInstant T (tw_Knowledge w)) (\<lambda>know.
            wrapR Kernelwire_ErrMalformed (Assign eff know))))"

section \<open>Provenance\<close>

definition EncodeConfidence :: "Confidence \<Rightarrow> pb_enum" where
  "EncodeConfidence c =
     (if c = ConfidenceAsserted then 1
      else if c = ConfidenceDerived then 2
      else if c = ConfidenceEstimated then 3
      else if c = ConfidenceInferred then 4
      else if c = ConfidenceDisputed then 5
      else 0)"

definition DecodeConfidence :: "pb_enum \<Rightarrow> Confidence result" where
  "DecodeConfidence w =
     (if w = 1 then Inr ConfidenceAsserted
      else if w = 2 then Inr ConfidenceDerived
      else if w = 3 then Inr ConfidenceEstimated
      else if w = 4 then Inr ConfidenceInferred
      else if w = 5 then Inr ConfidenceDisputed
      else Inl [Kernelwire_ErrMalformed])"

definition EncodeReferenceBinding :: "ReferenceBinding \<Rightarrow> pb_ReferenceBinding" where
  "EncodeReferenceBinding r = \<lparr>bw_Dataset = rb_dataset r, bw_Version = rb_version r\<rparr>"

definition DecodeReferenceBinding :: "pb_ReferenceBinding option \<Rightarrow> ReferenceBinding result" where
  "DecodeReferenceBinding w =
     (case w of
        None \<Rightarrow> Inl [Kernelwire_ErrMalformed]
      | Some w \<Rightarrow> wrapR Kernelwire_ErrMalformed (NewReferenceBinding (bw_Dataset w) (bw_Version w)))"

definition EncodeProvenance :: "'ts timestamppb \<Rightarrow> Provenance \<Rightarrow> 'ts pb_Provenance" where
  "EncodeProvenance T p =
     (let out = \<lparr>pw_Source = Some \<lparr>sr_Value = Source_value (pv_source p)\<rparr>,
           pw_CollectedAt = EncodeInstant T (pv_collectedAt p),
           pw_PublishedAt = EncodeInstant T (pv_publishedAt p),
           pw_Interpreter = Some \<lparr>ir_Name = ip_name (pv_interpreter p), ir_Version = ip_version (pv_interpreter p)\<rparr>,
           pw_Derivation = None,
           pw_Confidence = EncodeConfidence (pv_confidence p)\<rparr>
      in case Derivation p of (ref, derived) \<Rightarrow>
           if derived then out\<lparr>pw_Derivation := Some \<lparr>dw_ContentHash = Ref_hash ref\<rparr>\<rparr> else out)"

definition DecodeProvenance :: "'ts timestamppb \<Rightarrow> 'ts pb_Provenance option \<Rightarrow> Provenance result" where
  "DecodeProvenance T w =
     (case w of
        None \<Rightarrow> Inl [Kernelwire_ErrMalformed]
      | Some w \<Rightarrow>
        bindR (wrapR Kernelwire_ErrMalformed
          (NewSource (case pw_Source w of None \<Rightarrow> [] | Some s \<Rightarrow> sr_Value s))) (\<lambda>source.
        bindR (DecodeInstant T (pw_CollectedAt w)) (\<lambda>collectedAt.
        bindR (wrapR Kernelwire_ErrMalformed
          (NewInterpreter (case pw_Interpreter w of None \<Rightarrow> [] | Some i \<Rightarrow> ir_Name i)
             (case pw_Interpreter w of None \<Rightarrow> [] | Some i \<Rightarrow> ir_Version i))) (\<lambda>interpreter.
        bindR (DecodeConfidence (pw_Confidence w)) (\<lambda>confidence.
        bindR (case pw_Derivation w of
                 Some d \<Rightarrow> bindR (wrapR Kernelwire_ErrMalformed (NewRef (dw_ContentHash d))) (\<lambda>ref.
                   wrapR Kernelwire_ErrMalformed (Derived source collectedAt interpreter ref confidence))
               | None \<Rightarrow> wrapR Kernelwire_ErrMalformed (Observed source collectedAt interpreter confidence)) (\<lambda>out.
        case DecodeInstant T (pw_PublishedAt w) of
          Inl _ \<Rightarrow> Inr out
        | Inr published \<Rightarrow> if Instant_IsZero published then Inr out else Inr (WithPublishedAt out published)))))))"

section \<open>What the theorems rely on of timestamppb\<close>

text \<open>The times whose Unix seconds a \<^verbatim>\<open>Timestamp\<close> can hold.\<close>

definition time_in_range :: "time \<Rightarrow> bool" where
  "time_in_range t \<longleftrightarrow> - (2 ^ 63) \<le> t div 1000000000 - 62135596800 \<and> t div 1000000000 - 62135596800 < 2 ^ 63"

definition timestamppb_exact :: "'ts timestamppb \<Rightarrow> bool" where
  "timestamppb_exact T \<longleftrightarrow> (\<forall>t. time_in_range t \<longrightarrow> tp_AsTime T (tp_New T t) = t)"

definition unix_timestamppb :: "(64 word \<times> 32 word) timestamppb" where
  "unix_timestamppb =
     \<lparr>tp_New = (\<lambda>t. (word_of_int (t div 1000000000 - 62135596800), word_of_int (t mod 1000000000))),
      tp_AsTime = (\<lambda>(secs, nanos). (sint secs + 62135596800) * 1000000000 + sint nanos)\<rparr>"

lemma unix_timestamppb_exact: "timestamppb_exact unix_timestamppb"
proof -
  have "tp_AsTime unix_timestamppb (tp_New unix_timestamppb t) = t" if "time_in_range t" for t
  proof -
    have "sint (word_of_int k :: 64 word) = k" if "- (2 ^ 63) \<le> k" "k < 2 ^ 63" for k
      using that by (simp add: sint_sbintrunc' signed_take_bit_int_eq_self)
    then have "sint (word_of_int (t div 1000000000 - 62135596800) :: 64 word) = t div 1000000000 - 62135596800"
      using that unfolding time_in_range_def by blast
    moreover have "sint (word_of_int (t mod 1000000000) :: 32 word) = t mod 1000000000"
      using pos_mod_bound [of 1000000000 t] pos_mod_sign [of 1000000000 t]
      by (simp add: sint_sbintrunc' signed_take_bit_int_eq_self)
    ultimately show ?thesis by (simp add: unix_timestamppb_def)
  qed
  then show ?thesis by (simp add: timestamppb_exact_def)
qed

section \<open>Values the constructors build\<close>

definition id_value_ok :: "ID \<Rightarrow> bool" where
  "id_value_ok i \<longleftrightarrow> Restore (id_kind i) (id_value i) = Inr i"

definition binding_value_ok :: "ReferenceBinding \<Rightarrow> bool" where
  "binding_value_ok r \<longleftrightarrow> NewReferenceBinding (rb_dataset r) (rb_version r) = Inr r"

definition instant_value_ok :: "Instant \<Rightarrow> bool" where
  "instant_value_ok i \<longleftrightarrow> time_in_range (Time i)"

definition interval_value_ok :: "Interval \<Rightarrow> bool" where
  "interval_value_ok iv \<longleftrightarrow> wf_interval iv \<and> instant_value_ok (iv_from iv) \<and> instant_value_ok (iv_to iv)"

definition coordinates_value_ok :: "Coordinates \<Rightarrow> bool" where
  "coordinates_value_ok c \<longleftrightarrow> interval_value_ok (effective c) \<and> instant_value_ok (knowledge c) \<and>
     knowledge c \<noteq> zeroInstant"

definition provenance_value_ok :: "Provenance \<Rightarrow> bool" where
  "provenance_value_ok p \<longleftrightarrow> wf_provenance p \<and>
     NewSource (Source_value (pv_source p)) = Inr (pv_source p) \<and>
     NewInterpreter (ip_name (pv_interpreter p)) (ip_version (pv_interpreter p)) = Inr (pv_interpreter p) \<and>
     instant_value_ok (pv_collectedAt p) \<and> instant_value_ok (pv_publishedAt p) \<and>
     (\<forall>d. pv_derivation p = Some d \<longrightarrow> NewRef (Ref_hash d) = Inr d)"

section \<open>Round trips\<close>

lemma Kind_cases: "Kind_Valid k \<Longrightarrow> k = KindInstrument \<or> k = KindParty \<or> k = KindAccount \<or> k = KindLedgerStream"
proof -
  assume "Kind_Valid k"
  then have "1 \<le> unat k" "unat k \<le> 4"
    by (simp_all add: Kind_Valid_def KindInstrument_def KindLedgerStream_def word_le_nat_alt)
  then have "unat k \<in> {1, 2, 3, 4}" by auto
  then show ?thesis
    by (auto simp: KindInstrument_def KindParty_def KindAccount_def KindLedgerStream_def word_unat_eq_iff)
qed

lemma entity_kind_codec: "Kind_Valid k \<Longrightarrow> decodeEntityKind (encodeEntityKind k) = Inr k"
  by (drule Kind_cases)
     (auto simp: encodeEntityKind_def decodeEntityKind_def KindInstrument_def KindParty_def KindAccount_def KindLedgerStream_def)

lemma entity_id_codec: "id_value_ok i \<Longrightarrow> DecodeEntityID (Some (EncodeEntityID i)) = Inr i"
  using entity_kind_codec [of "id_kind i"]
  by (auto simp: id_value_ok_def DecodeEntityID_def EncodeEntityID_def ID_String_def Restore_def split: if_splits)

lemma claim_codec: "wf_claim uc c \<Longrightarrow> DecodeClaim uc (Some (EncodeClaim c)) = Inr c"
  by (simp add: wf_claim_def DecodeClaim_def EncodeClaim_def)

lemma quantity_codec: "wf_quantity A q \<Longrightarrow> DecodeQuantity A (Some (EncodeQuantity A q)) = Inr q"
  by (simp add: wf_quantity_def DecodeQuantity_def EncodeQuantity_def)

lemma money_codec:
  "apd_text A \<Longrightarrow> Money_Parse A s cur = Inr m \<Longrightarrow> DecodeMoney A (Some (EncodeMoney A m)) = Inr m"
  using Money_Parse_again by (fastforce simp: DecodeMoney_def EncodeMoney_def)

lemma rounding_mode_codec: "is_ok (apdRounder m) \<Longrightarrow> decodeRoundingMode (encodeRoundingMode m) = Inr m"
  by (auto simp: apdRounder_def encodeRoundingMode_def decodeRoundingMode_def enum_defs split: if_splits)

lemma rounding_codec: "wf_rounding rc \<Longrightarrow> DecodeRoundingContext (Some (EncodeRoundingContext rc)) = Inr rc"
  using rounding_mode_codec [of "rc_mode rc"]
  by (auto simp: wf_rounding_def DecodeRoundingContext_def EncodeRoundingContext_def Scale_def WithScale_def
      NewRoundingContext_def is_ok_iff Let_def)

lemma Confidence_cases:
  "Confidence_Valid c \<Longrightarrow> c = ConfidenceAsserted \<or> c = ConfidenceDerived \<or> c = ConfidenceEstimated \<or>
     c = ConfidenceInferred \<or> c = ConfidenceDisputed"
proof -
  assume "Confidence_Valid c"
  then have "1 \<le> unat c" "unat c \<le> 5" by (simp_all add: Confidence_Valid_def enum_defs word_le_nat_alt)
  then have "unat c \<in> {1, 2, 3, 4, 5}" by auto
  then show ?thesis by (auto simp: enum_defs word_unat_eq_iff)
qed

lemma confidence_codec: "Confidence_Valid c \<Longrightarrow> DecodeConfidence (EncodeConfidence c) = Inr c"
  by (drule Confidence_cases) (auto simp: EncodeConfidence_def DecodeConfidence_def enum_defs)

lemma instant_codec:
  "timestamppb_exact T \<Longrightarrow> instant_value_ok i \<Longrightarrow> DecodeInstant T (EncodeInstant T i) = Inr i"
  by (cases i) (simp add: timestamppb_exact_def instant_value_ok_def DecodeInstant_def EncodeInstant_def At_def
      Instant_IsZero_def zeroInstant_def)

lemma interval_codec:
  "timestamppb_exact T \<Longrightarrow> interval_value_ok iv \<Longrightarrow> DecodeInterval T (Some (EncodeInterval T iv)) = Inr iv"
  by (simp add: interval_value_ok_def DecodeInterval_def EncodeInterval_def instant_codec NewInterval_of_wf)

lemma coordinates_codec:
  "timestamppb_exact T \<Longrightarrow> coordinates_value_ok c \<Longrightarrow> DecodeCoordinates T (Some (EncodeCoordinates T c)) = Inr c"
  by (simp add: coordinates_value_ok_def DecodeCoordinates_def EncodeCoordinates_def interval_codec instant_codec
      Assign_Inr_iff interval_value_ok_def wf_interval_def)

lemma binding_codec: "binding_value_ok r \<Longrightarrow> DecodeReferenceBinding (Some (EncodeReferenceBinding r)) = Inr r"
  by (simp add: binding_value_ok_def DecodeReferenceBinding_def EncodeReferenceBinding_def)

lemma provenance_codec:
  assumes "timestamppb_exact T" "provenance_value_ok p"
  shows "DecodeProvenance T (Some (EncodeProvenance T p)) = Inr p"
proof -
  have ok: "DecodeConfidence (EncodeConfidence (pv_confidence p)) = Inr (pv_confidence p)"
    "DecodeInstant T (EncodeInstant T (pv_collectedAt p)) = Inr (pv_collectedAt p)"
    "DecodeInstant T (EncodeInstant T (pv_publishedAt p)) = Inr (pv_publishedAt p)"
    using assms by (simp_all add: provenance_value_ok_def wf_provenance_def confidence_codec instant_codec)
  have obs: "Observed (pv_source p) (pv_collectedAt p) (pv_interpreter p) (pv_confidence p) =
      Inr (p\<lparr>pv_publishedAt := zeroInstant, pv_derivation := None\<rparr>)"
    using assms(2) by (cases p) (simp add: provenance_value_ok_def wf_provenance_def Observed_Inr_iff)
  have der: "Derived (pv_source p) (pv_collectedAt p) (pv_interpreter p) d (pv_confidence p) =
      Inr (p\<lparr>pv_publishedAt := zeroInstant\<rparr>)" if "pv_derivation p = Some d" for d
    using assms(2) that by (cases p) (simp add: provenance_value_ok_def wf_provenance_def Derived_Inr_iff)
  have pub: "(case Inr (pv_publishedAt p) of Inl _ \<Rightarrow> Inr p0
      | Inr published \<Rightarrow> if Instant_IsZero published then Inr p0 else Inr (WithPublishedAt p0 published)) = Inr p"
    if "p0 = p\<lparr>pv_publishedAt := zeroInstant\<rparr>" for p0
    using that by (cases p) (auto simp: WithPublishedAt_def Instant_IsZero_iff)
  show ?thesis
  proof (cases "pv_derivation p")
    case None
    then have "p\<lparr>pv_publishedAt := zeroInstant, pv_derivation := None\<rparr> = p\<lparr>pv_publishedAt := zeroInstant\<rparr>"
      by (cases p) simp
    with None assms(2) ok obs pub show ?thesis
      by (simp add: provenance_value_ok_def DecodeProvenance_def EncodeProvenance_def Derivation_def)
  next
    case (Some d)
    with assms(2) ok der [OF Some] pub show ?thesis
      by (simp add: provenance_value_ok_def DecodeProvenance_def EncodeProvenance_def Derivation_def)
  qed
qed

section \<open>Decoding is validation\<close>

lemma entity_id_decoded: "DecodeEntityID w = Inr i \<Longrightarrow> id_value_ok i"
  by (auto simp: DecodeEntityID_def id_value_ok_def Restore_def split: option.splits if_splits)

lemma claim_decoded: "DecodeClaim uc w = Inr c \<Longrightarrow> wf_claim uc c"
  by (auto simp: DecodeClaim_def dest: NewClaim_wf split: option.splits)

lemma quantity_decoded: "apd_text A \<Longrightarrow> DecodeQuantity A w = Inr q \<Longrightarrow> wf_quantity A q"
  by (auto simp: DecodeQuantity_def dest: ParseQuantity_wf split: option.splits)

lemma money_decoded:
  "apd_text A \<Longrightarrow> DecodeMoney A w = Inr m \<Longrightarrow> Money_Parse A (Money_String A m) (m_currency m) = Inr m"
  by (auto simp: DecodeMoney_def dest: Money_Parse_again split: option.splits)

lemma reference_decoded: "DecodeReferenceBinding w = Inr r \<Longrightarrow> binding_value_ok r \<and> w = Some (EncodeReferenceBinding r)"
  by (auto simp: DecodeReferenceBinding_def binding_value_ok_def NewReferenceBinding_def EncodeReferenceBinding_def
      split: option.splits if_splits)

lemma confidence_decoded: "DecodeConfidence w = Inr c \<Longrightarrow> Confidence_Valid c \<and> EncodeConfidence c = w"
  by (auto simp: DecodeConfidence_def EncodeConfidence_def Confidence_Valid_def enum_defs split: if_splits)

lemma instant_decoded: "DecodeInstant T w = Inr i \<Longrightarrow> i = zeroInstant \<longleftrightarrow> w = None"
  by (auto simp: DecodeInstant_def At_def zeroInstant_def split: option.splits if_splits)

lemma entity_id_exact: "DecodeEntityID w = Inr i \<Longrightarrow> w = Some (EncodeEntityID i)"
  by (auto simp: DecodeEntityID_def EncodeEntityID_def decodeEntityKind_def encodeEntityKind_def Restore_def ID_String_def
      KindInstrument_def KindParty_def KindAccount_def KindLedgerStream_def split: option.splits if_splits)

lemma claim_exact: "DecodeClaim uc w = Inr c \<Longrightarrow> w = Some (EncodeClaim c)"
  by (auto simp: DecodeClaim_def EncodeClaim_def NewClaim_Inr_iff split: option.splits)

lemma rounding_mode_exact: "decodeRoundingMode w = Inr m \<Longrightarrow> encodeRoundingMode m = w"
  by (auto simp: decodeRoundingMode_def encodeRoundingMode_def enum_defs split: if_splits)

lemma rounding_exact: "DecodeRoundingContext w = Inr rc \<Longrightarrow> w = Some (EncodeRoundingContext rc)"
  by (auto simp: DecodeRoundingContext_def EncodeRoundingContext_def NewRoundingContext_def Scale_def WithScale_def
      Let_def split: option.splits if_splits dest!: rounding_mode_exact)

lemma rounding_decoded: "DecodeRoundingContext w = Inr rc \<Longrightarrow> wf_rounding rc"
  by (auto simp: DecodeRoundingContext_def intro!: WithScale_wf dest!: NewRoundingContext_wf split: option.splits)

lemma interval_decoded: "DecodeInterval T w = Inr iv \<Longrightarrow> wf_interval iv"
  by (auto simp: DecodeInterval_def dest: NewInterval_wf split: option.splits)

lemma coordinates_decoded:
  "DecodeCoordinates T w = Inr c \<Longrightarrow> wf_interval (effective c) \<and> knowledge c \<noteq> zeroInstant"
  by (auto simp: DecodeCoordinates_def Assign_Inr_iff dest: interval_decoded split: option.splits)

lemma provenance_decoded:
  assumes "DecodeProvenance T w = Inr p"
  shows "wf_provenance p"
proof -
  obtain v where w: "w = Some v" using assms by (cases w) (simp_all add: DecodeProvenance_def)
  from assms [unfolded w DecodeProvenance_def option.case bindR_Inr_iff]
  obtain source collectedAt interpreter confidence out where
    out: "(case pw_Derivation v of
        Some d \<Rightarrow> bindR (wrapR Kernelwire_ErrMalformed (NewRef (dw_ContentHash d))) (\<lambda>ref.
          wrapR Kernelwire_ErrMalformed (Derived source collectedAt interpreter ref confidence))
      | None \<Rightarrow> wrapR Kernelwire_ErrMalformed (Observed source collectedAt interpreter confidence)) = Inr out"
    and p: "(case DecodeInstant T (pw_PublishedAt v) of Inl _ \<Rightarrow> Inr out
      | Inr published \<Rightarrow> if Instant_IsZero published then Inr out else Inr (WithPublishedAt out published)) = (Inr p :: Provenance result)"
    by blast
  from out have "wf_provenance out" by (auto dest: Derived_wf Observed_wf split: option.splits)
  with p show ?thesis by (auto simp: WithPublishedAt_wf split: sum.splits if_splits)
qed

lemma instant_refused: "DecodeInstant T w = Inl e \<Longrightarrow> errors_Is e Kernelwire_ErrMalformed"
  by (auto simp: DecodeInstant_def errors_Is_def wrap_def split: option.splits)

lemma interval_refused: "DecodeInterval T w = Inl e \<Longrightarrow> errors_Is e Kernelwire_ErrMalformed"
  by (auto simp: DecodeInterval_def bindR_Inl_iff errors_Is_def wrap_def split: option.splits
      dest!: instant_refused)

lemma refused:
  "DecodeEntityID we = Inl e \<Longrightarrow> errors_Is e Kernelwire_ErrMalformed"
  "DecodeClaim uc wc = Inl e \<Longrightarrow> errors_Is e Kernelwire_ErrMalformed"
  "DecodeQuantity A wq = Inl e \<Longrightarrow> errors_Is e Kernelwire_ErrMalformed"
  "DecodeMoney A wm = Inl e \<Longrightarrow> errors_Is e Kernelwire_ErrMalformed"
  "DecodeRoundingContext wr = Inl e \<Longrightarrow> errors_Is e Kernelwire_ErrMalformed"
  "DecodeConfidence wn = Inl e \<Longrightarrow> errors_Is e Kernelwire_ErrMalformed"
  "DecodeReferenceBinding wb = Inl e \<Longrightarrow> errors_Is e Kernelwire_ErrMalformed"
  by (auto simp: DecodeEntityID_def decodeEntityKind_def DecodeClaim_def DecodeQuantity_def DecodeMoney_def DecodeRoundingContext_def
      decodeRoundingMode_def DecodeConfidence_def DecodeReferenceBinding_def bindR_Inl_iff errors_Is_def wrap_def
      split: option.splits if_splits)

lemma coordinates_refused: "DecodeCoordinates T w = Inl e \<Longrightarrow> errors_Is e Kernelwire_ErrMalformed"
  by (auto simp: DecodeCoordinates_def bindR_Inl_iff errors_Is_def wrap_def split: option.splits
      dest!: instant_refused interval_refused)

lemma provenance_refused:
  assumes "DecodeProvenance T w = Inl e"
  shows "errors_Is e Kernelwire_ErrMalformed"
proof (cases w)
  case None
  then show ?thesis using assms by (auto simp: DecodeProvenance_def errors_Is_def)
next
  case (Some v)
  have stamp: "(case r of Inl _ \<Rightarrow> Inr out | Inr published \<Rightarrow> if Instant_IsZero published then Inr out
      else Inr (WithPublishedAt out published)) \<noteq> Inl e" for r :: "Instant result" and out
    by (simp split: sum.split)
  have built: "(case pw_Derivation v of
        Some d \<Rightarrow> bindR (wrapR Kernelwire_ErrMalformed (NewRef (dw_ContentHash d))) (\<lambda>ref.
          wrapR Kernelwire_ErrMalformed (Derived source collectedAt interpreter ref confidence))
      | None \<Rightarrow> wrapR Kernelwire_ErrMalformed (Observed source collectedAt interpreter confidence)) = Inl e \<Longrightarrow>
      errors_Is e Kernelwire_ErrMalformed" for source collectedAt interpreter confidence
    by (auto simp: bindR_Inl_iff errors_Is_def wrap_def split: option.splits)
  show ?thesis
    using assms unfolding Some DecodeProvenance_def option.case bindR_Inl_iff
    by (auto simp only: stamp simp_thms dest: built instant_refused refused(6))
       (auto simp: errors_Is_def wrap_def)
qed

section \<open>Properties\<close>

lemma constructed_intervals:
  assumes "instant_value_ok a" "instant_value_ok b" "NewInterval a b = Inr iv"
  shows "interval_value_ok iv"
    and "instant_value_ok t \<Longrightarrow> Assign iv t = Inr co \<Longrightarrow> coordinates_value_ok co"
  using assms NewInterval_wf [OF assms(3)]
  by (auto simp: interval_value_ok_def coordinates_value_ok_def Assign_Inr_iff NewInterval_def split: if_splits)

lemma constructed_provenance:
  assumes "NewSource sv = Inr src" "NewInterpreter n e = Inr ip" "instant_value_ok t" "instant_value_ok pub"
  shows "Observed src t ip cf = Inr p \<Longrightarrow> provenance_value_ok p \<and> provenance_value_ok (WithPublishedAt p pub)"
    and "NewRef h = Inr ref \<Longrightarrow> Derived src t ip ref cf = Inr p \<Longrightarrow>
      provenance_value_ok p \<and> provenance_value_ok (WithPublishedAt p pub)"
proof -
  have zero: "instant_value_ok zeroInstant" by (simp add: instant_value_ok_def time_in_range_def zeroInstant_def)
  have parts: "NewSource (Source_value src) = Inr src" "NewInterpreter (ip_name ip) (ip_version ip) = Inr ip"
    using assms(1,2) by (auto simp: NewSource_def NewInterpreter_def split: if_splits)
  show "provenance_value_ok p \<and> provenance_value_ok (WithPublishedAt p pub)" if "Observed src t ip cf = Inr p"
    using that Observed_wf [OF that] parts assms(3,4) zero
    by (auto simp: provenance_value_ok_def Observed_def WithPublishedAt_wf WithPublishedAt_def wf_provenance_def
        split: if_splits)
  show "provenance_value_ok p \<and> provenance_value_ok (WithPublishedAt p pub)"
    if "NewRef h = Inr ref" "Derived src t ip ref cf = Inr p"
    using that Derived_wf [OF that(2)] parts assms(3,4) zero
    by (auto simp: provenance_value_ok_def Derived_def Observed_def NewRef_def WithPublishedAt_def wf_provenance_def
        split: if_splits)
qed

lemma constructed_codecs:
  "Restore k v = Inr i \<Longrightarrow> DecodeEntityID (Some (EncodeEntityID i)) = Inr i"
  "NewClaim uc x y = Inr c \<Longrightarrow> DecodeClaim uc (Some (EncodeClaim c)) = Inr c"
  "NewReferenceBinding d w = Inr r \<Longrightarrow> DecodeReferenceBinding (Some (EncodeReferenceBinding r)) = Inr r"
  by (auto simp: id_value_ok_def Restore_def binding_value_ok_def NewReferenceBinding_def
      intro!: entity_id_codec claim_codec NewClaim_wf binding_codec split: if_splits)

text \<open>C28: the kernel codec loses nothing. Encoding then decoding is the identity on every value its
  constructor returned, for each of the eleven codecs: identifiers, claims, parsed money with its
  currency, parsed quantities with their unit, rounding contexts with an absent scale kept apart
  from any scale, instants, intervals open or closed, coordinates, confidences, reference bindings,
  and provenance observed or derived, with or without a publication time. Times are those whose
  seconds a \<^verbatim>\<open>Timestamp\<close> can hold.\<close>

theorem kernel_wire_roundtrip:
  assumes "timestamppb_exact T" "apd_text A"
  shows "(Restore k v = Inr i \<longrightarrow> DecodeEntityID (Some (EncodeEntityID i)) = Inr i) \<and>
    (NewClaim uc x y = Inr c \<longrightarrow> DecodeClaim uc (Some (EncodeClaim c)) = Inr c) \<and>
    (Money_Parse A s cur = Inr m \<longrightarrow> DecodeMoney A (Some (EncodeMoney A m)) = Inr m) \<and>
    (ParseQuantity A s u = Inr q \<longrightarrow> DecodeQuantity A (Some (EncodeQuantity A q)) = Inr q) \<and>
    (NewRoundingContext pr mode = Inr rc \<longrightarrow>
      DecodeRoundingContext (Some (EncodeRoundingContext rc)) = Inr rc \<and>
      DecodeRoundingContext (Some (EncodeRoundingContext (WithScale rc sc))) = Inr (WithScale rc sc)) \<and>
    (instant_value_ok a \<longrightarrow> DecodeInstant T (EncodeInstant T a) = Inr a) \<and>
    (instant_value_ok a \<and> instant_value_ok b \<and> NewInterval a b = Inr iv \<longrightarrow>
      DecodeInterval T (Some (EncodeInterval T iv)) = Inr iv \<and>
      (instant_value_ok t \<and> Assign iv t = Inr co \<longrightarrow>
        DecodeCoordinates T (Some (EncodeCoordinates T co)) = Inr co)) \<and>
    (Confidence_Valid cf \<longrightarrow> DecodeConfidence (EncodeConfidence cf) = Inr cf) \<and>
    (NewReferenceBinding d w = Inr r \<longrightarrow> DecodeReferenceBinding (Some (EncodeReferenceBinding r)) = Inr r) \<and>
    (NewSource sv = Inr src \<and> NewInterpreter n e = Inr ip \<and> instant_value_ok t \<and> instant_value_ok pub \<and>
       (Observed src t ip cf = Inr p \<or> (\<exists>h ref. NewRef h = Inr ref \<and> Derived src t ip ref cf = Inr p)) \<longrightarrow>
      DecodeProvenance T (Some (EncodeProvenance T p)) = Inr p \<and>
      DecodeProvenance T (Some (EncodeProvenance T (WithPublishedAt p pub))) = Inr (WithPublishedAt p pub))"
proof (intro conjI impI)
  assume "Money_Parse A s cur = Inr m"
  with assms(2) show "DecodeMoney A (Some (EncodeMoney A m)) = Inr m" by (rule money_codec)
next
  assume "ParseQuantity A s u = Inr q"
  with assms(2) show "DecodeQuantity A (Some (EncodeQuantity A q)) = Inr q"
    by (intro quantity_codec ParseQuantity_wf)
next
  assume "NewRoundingContext pr mode = Inr rc"
  then have rc: "wf_rounding rc" by (rule NewRoundingContext_wf)
  show "DecodeRoundingContext (Some (EncodeRoundingContext rc)) = Inr rc" using rc by (rule rounding_codec)
  show "DecodeRoundingContext (Some (EncodeRoundingContext (WithScale rc sc))) = Inr (WithScale rc sc)"
    using rc by (intro rounding_codec WithScale_wf)
next
  assume "instant_value_ok a \<and> instant_value_ok b \<and> NewInterval a b = Inr iv"
  then have ok: "instant_value_ok a" "instant_value_ok b" "NewInterval a b = Inr iv" by simp_all
  show "DecodeInterval T (Some (EncodeInterval T iv)) = Inr iv"
    using assms(1) constructed_intervals(1) [OF ok] by (rule interval_codec)
  show "DecodeCoordinates T (Some (EncodeCoordinates T co)) = Inr co" if "instant_value_ok t \<and> Assign iv t = Inr co"
    using that by (blast intro: coordinates_codec [OF assms(1)] constructed_intervals(2) [OF ok])
next
  assume "NewSource sv = Inr src \<and> NewInterpreter n e = Inr ip \<and> instant_value_ok t \<and> instant_value_ok pub \<and>
    (Observed src t ip cf = Inr p \<or> (\<exists>h ref. NewRef h = Inr ref \<and> Derived src t ip ref cf = Inr p))"
  then have "provenance_value_ok p \<and> provenance_value_ok (WithPublishedAt p pub)"
    using constructed_provenance by blast
  then show "DecodeProvenance T (Some (EncodeProvenance T p)) = Inr p"
    "DecodeProvenance T (Some (EncodeProvenance T (WithPublishedAt p pub))) = Inr (WithPublishedAt p pub)"
    using provenance_codec [OF assms(1)] by simp_all
qed (simp_all add: constructed_codecs confidence_codec instant_codec [OF assms(1)])

text \<open>A decoder's answer is validated when what it returns satisfies a condition and what it refuses is an
  error in the \<open>ErrMalformed\<close> chain.\<close>

definition validated :: "('a \<Rightarrow> bool) \<Rightarrow> 'a result \<Rightarrow> bool" where
  "validated P r \<longleftrightarrow> (case r of Inr x \<Rightarrow> P x | Inl e \<Rightarrow> errors_Is e Kernelwire_ErrMalformed)"

lemma validatedI:
  "(\<And>x. r = Inr x \<Longrightarrow> P x) \<Longrightarrow> (\<And>e. r = Inl e \<Longrightarrow> errors_Is e Kernelwire_ErrMalformed) \<Longrightarrow> validated P r"
  by (simp add: validated_def split: sum.split)


section \<open>Sample values\<close>

definition wire_id :: ID where
  "wire_id = \<lparr>id_kind = KindAccount, id_value = ''00000000-0000-0000-0000-000000000000''\<rparr>"

definition wire_claim :: Claim where
  "wire_claim = \<lparr>cl_scheme = ''t'', cl_value = ''v''\<rparr>"

definition wire_quantity :: "int Quantity" where
  "wire_quantity = \<lparr>q_amount = 7, q_unit = ''share''\<rparr>"

definition wire_money :: "int Money" where
  "wire_money = \<lparr>m_amount = -7, m_currency = ''BRL''\<rparr>"

definition wire_provenance :: Provenance where
  "wire_provenance = \<lparr>pv_source = Source ''s'', pv_collectedAt = Instant 5, pv_publishedAt = Instant 4,
     pv_interpreter = \<lparr>ip_name = ''i'', ip_version = ''1''\<rparr>, pv_derivation = None, pv_confidence = ConfidenceAsserted\<rparr>"

definition wire_coordinates :: Coordinates where
  "wire_coordinates = \<lparr>effective = \<lparr>iv_from = Instant 3, iv_to = zeroInstant\<rparr>, knowledge = Instant 6\<rparr>"

definition wire_binding :: ReferenceBinding where
  "wire_binding = \<lparr>rb_dataset = ''d'', rb_version = ''1''\<rparr>"

lemma wire_id_ok: "id_value_ok wire_id"
  by (simp add: id_value_ok_def wire_id_def Restore_def Kind_Valid_def KindAccount_def KindInstrument_def
      KindLedgerStream_def isCanonicalUUID_def Split_def ascii_eval is_lower_hex_def ascii_def)

lemma wire_claim_ok: "wf_claim unicode_ascii wire_claim"
  by (simp add: wire_claim_def claim_eval ascii_eval)

lemma wire_quantity_parsed: "ParseQuantity int_apd ''7'' ''share'' = Inr wire_quantity"
  by (simp add: wire_quantity_def ParseQuantity_def validateCanonical_def runes_ascii ContainsAny_def TrimPrefix_def
      HasSuffix_def int_apd_def digits_value_def)

lemma wire_quantity_ok: "wf_quantity int_apd wire_quantity"
  using int_apd_text wire_quantity_parsed by (rule ParseQuantity_wf)

lemma wire_money_parsed: "Money_Parse int_apd ''-7'' ''BRL'' = Inr wire_money"
  by (simp add: wire_money_def Money_Parse_def ParseCurrency_def validateCanonical_def runes_ascii ContainsAny_def
      TrimPrefix_def HasSuffix_def int_apd_def digits_value_def)

lemma wire_restored: "Restore KindAccount ''00000000-0000-0000-0000-000000000000'' = Inr wire_id"
  using wire_id_ok by (simp add: id_value_ok_def wire_id_def)

lemma wire_observed:
  "Observed (Source ''s'') (Instant 5) \<lparr>ip_name = ''i'', ip_version = ''1''\<rparr> ConfidenceAsserted =
     Inr (wire_provenance\<lparr>pv_publishedAt := zeroInstant\<rparr>)"
  by (simp add: wire_provenance_def Observed_def Confidence_Valid_def enum_defs Instant_IsZero_def)

lemma wire_provenance_ok: "provenance_value_ok wire_provenance"
  by (simp add: wire_provenance_def provenance_value_ok_def wf_provenance_def NewSource_def NewInterpreter_def ascii_eval
      Confidence_Valid_def enum_defs instant_value_ok_def time_in_range_def zeroInstant_def)

lemma wire_coordinates_ok: "coordinates_value_ok wire_coordinates"
  by (simp add: wire_coordinates_def coordinates_value_ok_def interval_value_ok_def wf_interval_def instant_value_ok_def
      time_in_range_def zeroInstant_def)

lemma wire_binding_ok: "binding_value_ok wire_binding"
  by (simp add: wire_binding_def binding_value_ok_def NewReferenceBinding_def ascii_eval)

theorem kernel_wire_roundtrip_witness:
  "(\<exists>rc. NewRoundingContext 9 RoundingModeHalfUp = Inr rc \<and>
      DecodeRoundingContext (Some (EncodeRoundingContext rc)) = Inr rc \<and>
      DecodeRoundingContext (Some (EncodeRoundingContext (WithScale rc 0))) = Inr (WithScale rc 0)) \<and>
   DecodeEntityID (Some (EncodeEntityID wire_id)) = Inr wire_id \<and>
   DecodeMoney int_apd (Some (EncodeMoney int_apd wire_money)) = Inr wire_money \<and>
   DecodeQuantity int_apd (Some (EncodeQuantity int_apd wire_quantity)) = Inr wire_quantity \<and>
   DecodeProvenance unix_timestamppb (Some (EncodeProvenance unix_timestamppb wire_provenance)) = Inr wire_provenance"
proof -
  note rt = kernel_wire_roundtrip [OF unix_timestamppb_exact int_apd_text]
  obtain rc where rc: "NewRoundingContext 9 RoundingModeHalfUp = Inr rc"
    by (simp add: NewRoundingContext_def maxPrecision_def apdRounder_def enum_defs)
  have "NewSource ''s'' = Inr (Source ''s'')" "NewInterpreter ''i'' ''1'' = Inr \<lparr>ip_name = ''i'', ip_version = ''1''\<rparr>"
    by (simp_all add: NewSource_def NewInterpreter_def ascii_eval)
  moreover have "instant_value_ok (Instant 5)" "instant_value_ok (Instant 4)"
    by (simp_all add: instant_value_ok_def time_in_range_def)
  moreover have "WithPublishedAt (wire_provenance\<lparr>pv_publishedAt := zeroInstant\<rparr>) (Instant 4) = wire_provenance"
    by (simp add: WithPublishedAt_def wire_provenance_def)
  ultimately have "DecodeProvenance unix_timestamppb (Some (EncodeProvenance unix_timestamppb wire_provenance)) = Inr wire_provenance"
    using wire_observed rt by metis
  moreover have "DecodeEntityID (Some (EncodeEntityID wire_id)) = Inr wire_id" using rt wire_restored by metis
  moreover have "DecodeMoney int_apd (Some (EncodeMoney int_apd wire_money)) = Inr wire_money"
    using rt wire_money_parsed by metis
  moreover have "DecodeQuantity int_apd (Some (EncodeQuantity int_apd wire_quantity)) = Inr wire_quantity"
    using rt wire_quantity_parsed by metis
  moreover have "DecodeRoundingContext (Some (EncodeRoundingContext rc)) = Inr rc \<and>
      DecodeRoundingContext (Some (EncodeRoundingContext (WithScale rc 0))) = Inr (WithScale rc 0)"
    using rt rc by metis
  ultimately show ?thesis using rc by simp
qed


end
