(* ===== verification/Ledger_Wire.thy ===== *)
theory Ledger_Wire
  imports Kernel_Wire Memory_Store
begin

text \<open>
  \<^verbatim>\<open>src/libs/ledger-wire\<close>: facts (\<^verbatim>\<open>codec.go\<close>) and admission commands (\<^verbatim>\<open>submission.go\<close>) to and from
  their messages. \<open>PayloadMsg\<close> is the messages \<^verbatim>\<open>encodePayload\<close> packs; any other registered
  message that \<^verbatim>\<open>UnmarshalNew\<close> may hand back is \<open>OtherMsg\<close>.

  \<^verbatim>\<open>anypb\<close> is third-party and the parameter \<open>'any anypb\<close> stands for it: \<^verbatim>\<open>New\<close> marshals a message or
  fails, \<^verbatim>\<open>UnmarshalNew\<close> inverts it, which is the law \<open>anypb_exact\<close>. \<open>direct_anypb\<close> is an instance.
\<close>

section \<open>Messages\<close>

definition Ledgerwire_ErrMalformed :: sentinel where
  "Ledgerwire_ErrMalformed = ''ledgerwire: malformed wire value''"

declare Ledgerwire_ErrMalformed_def [sentinel_defs]

record pb_FactRef =
  fw_Stream :: string
  fw_Sequence :: u64

record pb_HoldingObserved =
  how_Account :: "pb_EntityId option"
  how_Instrument :: "pb_EntityId option"
  how_Quantity :: "pb_Quantity option"

record pb_HoldingClaimed =
  hcw_Account :: "pb_IdentifierClaim option"
  hcw_Instrument :: "pb_IdentifierClaim option"
  hcw_Quantity :: "pb_Quantity option"

record pb_EntityMinted =
  emw_Entity :: "pb_EntityId option"
  emw_BornFrom :: "pb_IdentifierClaim option"

record pb_Correction =
  cow_Corrects :: "pb_FactRef option"
  cow_Kind :: pb_enum
  cow_Reason :: string

datatype PayloadMsg =
  HoldingObservedMsg pb_HoldingObserved
| HoldingClaimedMsg pb_HoldingClaimed
| EntityMintedMsg pb_EntityMinted
| CorrectionMsg pb_Correction
| OtherMsg string

record 'any anypb =
  any_New :: "PayloadMsg \<Rightarrow> 'any result"
  any_UnmarshalNew :: "'any \<Rightarrow> PayloadMsg result"

record 'ts pb_Envelope =
  ew_Temporal :: "'ts pb_TemporalCoordinates option"
  ew_Provenance :: "'ts pb_Provenance option"
  ew_References :: "pb_ReferenceBinding option list"
  ew_Ref :: "pb_FactRef option"

record ('ts, 'any) pb_Fact =
  ftw_Envelope :: "'ts pb_Envelope option"
  ftw_Kind :: pb_enum
  ftw_Type :: string
  ftw_TypeVersion :: u32
  ftw_Payload :: "'any option"

record 'ts pb_HoldingClaimSubmission =
  sw_Stream :: string
  sw_Account :: "pb_IdentifierClaim option"
  sw_Instrument :: "pb_IdentifierClaim option"
  sw_Quantity :: "pb_Quantity option"
  sw_Effective :: "'ts pb_EffectiveInterval option"
  sw_Source :: "pb_SourceRef option"
  sw_CollectedAt :: "'ts option"
  sw_Interpreter :: "pb_InterpreterRef option"
  sw_Confidence :: pb_enum
  sw_References :: "pb_ReferenceBinding option list"

section \<open>References and envelopes\<close>

definition EncodeRef :: "FactRef \<Rightarrow> pb_FactRef" where
  "EncodeRef r = \<lparr>fw_Stream = fr_Stream r, fw_Sequence = fr_Sequence r\<rparr>"

definition DecodeRef :: "pb_FactRef option \<Rightarrow> FactRef result" where
  "DecodeRef w =
     (case w of
        None \<Rightarrow> Inl [Ledgerwire_ErrMalformed]
      | Some w \<Rightarrow>
          if fw_Stream w = [] \<or> fw_Sequence w = 0 then Inl [Ledgerwire_ErrMalformed]
          else Inr \<lparr>fr_Stream = fw_Stream w, fr_Sequence = fw_Sequence w\<rparr>)"

definition EncodeEnvelope :: "'ts timestamppb \<Rightarrow> Envelope \<Rightarrow> FactRef \<Rightarrow> 'ts pb_Envelope" where
  "EncodeEnvelope T e ref =
     \<lparr>ew_Temporal = Some (EncodeCoordinates T (ev_coordinates e)),
      ew_Provenance = Some (EncodeProvenance T (ev_provenance e)),
      ew_References = map (\<lambda>r. Some (EncodeReferenceBinding r)) (ev_references e),
      ew_Ref = Some (EncodeRef ref)\<rparr>"

definition DecodeEnvelope :: "'ts timestamppb \<Rightarrow> 'ts pb_Envelope option \<Rightarrow> (Envelope \<times> FactRef) result" where
  "DecodeEnvelope T w =
     (case w of
        None \<Rightarrow> Inl [Ledgerwire_ErrMalformed]
      | Some w \<Rightarrow>
        bindR (DecodeCoordinates T (ew_Temporal w)) (\<lambda>coordinates.
        bindR (DecodeProvenance T (ew_Provenance w)) (\<lambda>prov.
        bindR (DecodeRef (ew_Ref w)) (\<lambda>ref.
        bindR (mapR DecodeReferenceBinding (ew_References w)) (\<lambda>references.
        bindR (wrapR Ledgerwire_ErrMalformed (NewEnvelope coordinates prov references)) (\<lambda>envelope.
          Inr (envelope, ref)))))))"

section \<open>Payloads\<close>

definition encodeCorrectionKind :: "CorrectionKind \<Rightarrow> pb_enum" where
  "encodeCorrectionKind k =
     (if k = CorrectionKindCorrected then 1
      else if k = CorrectionKindRetracted then 2
      else if k = CorrectionKindSuperseded then 3
      else 0)"

definition decodeCorrectionKind :: "pb_enum \<Rightarrow> CorrectionKind result" where
  "decodeCorrectionKind w =
     (if w = 1 then Inr CorrectionKindCorrected
      else if w = 2 then Inr CorrectionKindRetracted
      else if w = 3 then Inr CorrectionKindSuperseded
      else Inl [Ledgerwire_ErrMalformed])"

fun encodePayload :: "'d apd \<Rightarrow> 'd Payload \<Rightarrow> PayloadMsg" where
  "encodePayload A (HoldingObservedP v) = HoldingObservedMsg
     \<lparr>how_Account = Some (EncodeEntityID (ho_Account v)), how_Instrument = Some (EncodeEntityID (ho_Instrument v)),
      how_Quantity = Some (EncodeQuantity A (ho_Quantity v))\<rparr>"
| "encodePayload A (HoldingClaimedP v) = HoldingClaimedMsg
     \<lparr>hcw_Account = Some (EncodeClaim (hc_Account v)), hcw_Instrument = Some (EncodeClaim (hc_Instrument v)),
      hcw_Quantity = Some (EncodeQuantity A (hc_Quantity v))\<rparr>"
| "encodePayload A (EntityMintedP v) = EntityMintedMsg
     \<lparr>emw_Entity = Some (EncodeEntityID (em_Entity v)), emw_BornFrom = Some (EncodeClaim (em_BornFrom v))\<rparr>"
| "encodePayload A (FactCorrectedP v) = CorrectionMsg
     \<lparr>cow_Corrects = Some (EncodeRef (fc_Corrects v)), cow_Kind = encodeCorrectionKind (fc_Kind v),
      cow_Reason = fc_Reason v\<rparr>"

fun decode_message :: "unicode \<Rightarrow> 'd apd \<Rightarrow> PayloadMsg \<Rightarrow> 'd Payload result" where
  "decode_message uc A (HoldingObservedMsg v) =
     bindR (DecodeEntityID (how_Account v)) (\<lambda>account.
     bindR (DecodeEntityID (how_Instrument v)) (\<lambda>instrument.
     bindR (DecodeQuantity A (how_Quantity v)) (\<lambda>quantity.
       Inr (HoldingObservedP \<lparr>ho_Account = account, ho_Instrument = instrument, ho_Quantity = quantity\<rparr>))))"
| "decode_message uc A (HoldingClaimedMsg v) =
     bindR (DecodeClaim uc (hcw_Account v)) (\<lambda>account.
     bindR (DecodeClaim uc (hcw_Instrument v)) (\<lambda>instrument.
     bindR (DecodeQuantity A (hcw_Quantity v)) (\<lambda>quantity.
       Inr (HoldingClaimedP \<lparr>hc_Account = account, hc_Instrument = instrument, hc_Quantity = quantity\<rparr>))))"
| "decode_message uc A (EntityMintedMsg v) =
     bindR (DecodeEntityID (emw_Entity v)) (\<lambda>entity.
     bindR (DecodeClaim uc (emw_BornFrom v)) (\<lambda>bornFrom.
       Inr (EntityMintedP \<lparr>em_Entity = entity, em_BornFrom = bornFrom\<rparr>)))"
| "decode_message uc A (CorrectionMsg v) =
     bindR (DecodeRef (cow_Corrects v)) (\<lambda>corrects.
     bindR (decodeCorrectionKind (cow_Kind v)) (\<lambda>kind.
       Inr (FactCorrectedP \<lparr>fc_Corrects = corrects, fc_Kind = kind, fc_Reason = cow_Reason v\<rparr>)))"
| "decode_message uc A (OtherMsg m) = Inl [Ledgerwire_ErrMalformed]"

definition decodePayload :: "unicode \<Rightarrow> 'd apd \<Rightarrow> 'any anypb \<Rightarrow> 'any option \<Rightarrow> 'd Payload result" where
  "decodePayload uc A P w =
     (case w of
        None \<Rightarrow> Inl [Ledgerwire_ErrMalformed]
      | Some w \<Rightarrow> bindR (wrapR Ledgerwire_ErrMalformed (any_UnmarshalNew P w)) (decode_message uc A))"

section \<open>Facts\<close>

definition encodeFactKind :: "FactKind \<Rightarrow> pb_enum" where
  "encodeFactKind k = (if k = KindOccurrence then 1 else if k = KindObservation then 2 else 0)"

definition decodeFactKind :: "pb_enum \<Rightarrow> FactKind result" where
  "decodeFactKind w =
     (if w = 1 then Inr KindOccurrence else if w = 2 then Inr KindObservation
      else Inl [Ledgerwire_ErrMalformed])"

definition EncodeFact ::
  "'ts timestamppb \<Rightarrow> 'any anypb \<Rightarrow> 'd apd \<Rightarrow> 'd Fact \<Rightarrow> ('ts, 'any) pb_Fact result" where
  "EncodeFact T P A f =
     bindR (any_New P (encodePayload A (f_payload f))) (\<lambda>packed.
       Inr \<lparr>ftw_Envelope = Some (EncodeEnvelope T (f_envelope f) (f_ref f)),
            ftw_Kind = encodeFactKind (f_kind f), ftw_Type = FactType (f_payload f),
            ftw_TypeVersion = TypeVersion (f_payload f), ftw_Payload = Some packed\<rparr>)"

definition DecodeFact ::
  "unicode \<Rightarrow> 'ts timestamppb \<Rightarrow> 'any anypb \<Rightarrow> 'd apd \<Rightarrow> ('ts, 'any) pb_Fact option \<Rightarrow> 'd Fact result" where
  "DecodeFact uc T P A w =
     (case w of
        None \<Rightarrow> Inl [Ledgerwire_ErrMalformed]
      | Some w \<Rightarrow>
        bindR (DecodeEnvelope T (ftw_Envelope w)) (\<lambda>(envelope, ref).
        bindR (decodeFactKind (ftw_Kind w)) (\<lambda>kind.
        bindR (decodePayload uc A P (ftw_Payload w)) (\<lambda>payload.
          if FactType payload \<noteq> ftw_Type w then Inl [Ledgerwire_ErrMalformed]
          else if TypeVersion payload \<noteq> ftw_TypeVersion w then Inl [Ledgerwire_ErrMalformed]
          else wrapR Ledgerwire_ErrMalformed (NewFact ref envelope kind (Some payload))))))"

section \<open>Submissions\<close>

definition EncodeHoldingClaimSubmission ::
  "'ts timestamppb \<Rightarrow> 'd apd \<Rightarrow> 'd AcceptHoldingClaimCommand \<Rightarrow> 'ts pb_HoldingClaimSubmission" where
  "EncodeHoldingClaimSubmission T A cmd =
     \<lparr>sw_Stream = ac_Stream cmd,
      sw_Account = Some (EncodeClaim (ac_Account cmd)),
      sw_Instrument = Some (EncodeClaim (ac_Instrument cmd)),
      sw_Quantity = Some (EncodeQuantity A (ac_Quantity cmd)),
      sw_Effective = Some (EncodeInterval T (ac_Effective cmd)),
      sw_Source = Some \<lparr>sr_Value = Source_value (ac_Source cmd)\<rparr>,
      sw_CollectedAt = EncodeInstant T (ac_CollectedAt cmd),
      sw_Interpreter = Some \<lparr>ir_Name = ip_name (ac_Interpreter cmd), ir_Version = ip_version (ac_Interpreter cmd)\<rparr>,
      sw_Confidence = EncodeConfidence (ac_Confidence cmd),
      sw_References = map (\<lambda>r. Some (EncodeReferenceBinding r)) (ac_References cmd)\<rparr>"

definition DecodeHoldingClaimSubmission ::
  "unicode \<Rightarrow> 'ts timestamppb \<Rightarrow> 'd apd \<Rightarrow> 'ts pb_HoldingClaimSubmission option \<Rightarrow>
   'd AcceptHoldingClaimCommand result" where
  "DecodeHoldingClaimSubmission uc T A w =
     (case w of
        None \<Rightarrow> Inl [Ledgerwire_ErrMalformed]
      | Some w \<Rightarrow>
        bindR (DecodeClaim uc (sw_Account w)) (\<lambda>account.
        bindR (DecodeClaim uc (sw_Instrument w)) (\<lambda>instrument.
        bindR (DecodeQuantity A (sw_Quantity w)) (\<lambda>quantity.
        bindR (DecodeInterval T (sw_Effective w)) (\<lambda>eff.
        bindR (NewSource (case sw_Source w of None \<Rightarrow> [] | Some s \<Rightarrow> sr_Value s)) (\<lambda>source.
        bindR (DecodeInstant T (sw_CollectedAt w)) (\<lambda>collectedAt.
        bindR (NewInterpreter (case sw_Interpreter w of None \<Rightarrow> [] | Some i \<Rightarrow> ir_Name i)
                 (case sw_Interpreter w of None \<Rightarrow> [] | Some i \<Rightarrow> ir_Version i)) (\<lambda>interpreter.
        bindR (DecodeConfidence (sw_Confidence w)) (\<lambda>confidence.
        bindR (mapR DecodeReferenceBinding (sw_References w)) (\<lambda>references.
          Inr \<lparr>ac_Stream = sw_Stream w, ac_Account = account, ac_Instrument = instrument,
            ac_Quantity = quantity, ac_Effective = eff, ac_Source = source, ac_CollectedAt = collectedAt,
            ac_Interpreter = interpreter, ac_Confidence = confidence, ac_References = references\<rparr>))))))))))"

section \<open>What the theorems rely on of anypb\<close>

text \<open>A message that was packed is unpacked as it was.\<close>

definition anypb_exact :: "'any anypb \<Rightarrow> bool" where
  "anypb_exact P \<longleftrightarrow> (\<forall>m a. any_New P m = Inr a \<longrightarrow> any_UnmarshalNew P a = Inr m)"

definition direct_anypb :: "PayloadMsg anypb" where
  "direct_anypb = \<lparr>any_New = Inr, any_UnmarshalNew = Inr\<rparr>"

lemma direct_anypb_exact: "anypb_exact direct_anypb"
  by (simp add: anypb_exact_def direct_anypb_def)

section \<open>Values the constructors build\<close>

definition ref_value_ok :: "FactRef \<Rightarrow> bool" where
  "ref_value_ok r \<longleftrightarrow> fr_Stream r \<noteq> [] \<and> fr_Sequence r \<noteq> 0"

fun payload_value_ok :: "unicode \<Rightarrow> 'd apd \<Rightarrow> 'd Payload \<Rightarrow> bool" where
  "payload_value_ok uc A (HoldingObservedP v) \<longleftrightarrow>
     id_value_ok (ho_Account v) \<and> id_value_ok (ho_Instrument v) \<and> wf_quantity A (ho_Quantity v)"
| "payload_value_ok uc A (HoldingClaimedP v) \<longleftrightarrow>
     wf_claim uc (hc_Account v) \<and> wf_claim uc (hc_Instrument v) \<and> wf_quantity A (hc_Quantity v)"
| "payload_value_ok uc A (EntityMintedP v) \<longleftrightarrow> id_value_ok (em_Entity v) \<and> wf_claim uc (em_BornFrom v)"
| "payload_value_ok uc A (FactCorrectedP v) \<longleftrightarrow> ref_value_ok (fc_Corrects v) \<and> CorrectionKind_Valid (fc_Kind v)"

definition envelope_value_ok :: "Envelope \<Rightarrow> bool" where
  "envelope_value_ok e \<longleftrightarrow> coordinates_value_ok (ev_coordinates e) \<and> provenance_value_ok (ev_provenance e) \<and>
     list_all binding_value_ok (ev_references e)"

definition fact_value_ok :: "unicode \<Rightarrow> 'd apd \<Rightarrow> 'd Fact \<Rightarrow> bool" where
  "fact_value_ok uc A f \<longleftrightarrow> ref_value_ok (f_ref f) \<and> envelope_value_ok (f_envelope f) \<and>
     FactKind_Valid (f_kind f) \<and> payload_value_ok uc A (f_payload f)"

definition command_value_ok :: "unicode \<Rightarrow> 'd apd \<Rightarrow> 'd AcceptHoldingClaimCommand \<Rightarrow> bool" where
  "command_value_ok uc A cmd \<longleftrightarrow> wf_claim uc (ac_Account cmd) \<and> wf_claim uc (ac_Instrument cmd) \<and>
     wf_quantity A (ac_Quantity cmd) \<and> interval_value_ok (ac_Effective cmd) \<and>
     NewSource (Source_value (ac_Source cmd)) = Inr (ac_Source cmd) \<and> instant_value_ok (ac_CollectedAt cmd) \<and>
     NewInterpreter (ip_name (ac_Interpreter cmd)) (ip_version (ac_Interpreter cmd)) = Inr (ac_Interpreter cmd) \<and>
     Confidence_Valid (ac_Confidence cmd) \<and> list_all binding_value_ok (ac_References cmd)"

section \<open>Round trips\<close>

lemma ref_codec: "ref_value_ok r \<Longrightarrow> DecodeRef (Some (EncodeRef r)) = Inr r"
  by (simp add: ref_value_ok_def DecodeRef_def EncodeRef_def)

lemma bindings_codec:
  "list_all binding_value_ok rs \<Longrightarrow> mapR DecodeReferenceBinding (map (\<lambda>r. Some (EncodeReferenceBinding r)) rs) = Inr rs"
  by (induction rs) (simp_all add: binding_codec)

lemma envelope_codec:
  assumes "timestamppb_exact T" "envelope_value_ok e" "ref_value_ok r"
  shows "DecodeEnvelope T (Some (EncodeEnvelope T e r)) = Inr (e, r)"
proof -
  have "NewEnvelope (ev_coordinates e) (ev_provenance e) (ev_references e) = Inr e"
    using assms(2) wf_provenance_nonzero [of "ev_provenance e"]
    by (simp add: NewEnvelope_Inr_iff envelope_value_ok_def coordinates_value_ok_def provenance_value_ok_def)
  with assms show ?thesis
    by (simp add: DecodeEnvelope_def EncodeEnvelope_def envelope_value_ok_def coordinates_codec provenance_codec
        ref_codec bindings_codec)
qed

lemma correction_kind_codec:
  assumes "CorrectionKind_Valid k"
  shows "decodeCorrectionKind (encodeCorrectionKind k) = Inr k"
proof -
  from assms have "1 \<le> unat k" "unat k \<le> 3"
    by (simp_all add: CorrectionKind_Valid_def enum_defs word_le_nat_alt)
  then have "unat k \<in> {1, 2, 3}" by auto
  then show ?thesis
    by (auto simp: decodeCorrectionKind_def encodeCorrectionKind_def enum_defs word_unat_eq_iff)
qed

lemma payload_codec: "payload_value_ok uc A p \<Longrightarrow> decode_message uc A (encodePayload A p) = Inr p"
  by (cases p) (simp_all add: entity_id_codec claim_codec quantity_codec ref_codec correction_kind_codec)

lemma fact_kind_codec: "FactKind_Valid k \<Longrightarrow> decodeFactKind (encodeFactKind k) = Inr k"
  by (auto simp: FactKind_Valid_def decodeFactKind_def encodeFactKind_def enum_defs)

lemma NewFact_rebuilds:
  assumes "fact_value_ok uc A f"
  shows "NewFact (f_ref f) (f_envelope f) (f_kind f) (Some (f_payload f)) = Inr f"
proof -
  have "\<not> Provenance_IsZero (ev_provenance (f_envelope f))"
    using assms wf_provenance_nonzero by (simp add: fact_value_ok_def envelope_value_ok_def provenance_value_ok_def)
  moreover have "FactType (f_payload f) \<noteq> []" by (cases "f_payload f") simp_all
  ultimately show ?thesis using assms by (cases f) (simp add: NewFact_def fact_value_ok_def)
qed

lemma fact_codec:
  assumes "timestamppb_exact T" "anypb_exact P" "fact_value_ok uc A f" "EncodeFact T P A f = Inr w"
  shows "DecodeFact uc T P A (Some w) = Inr f"
proof -
  from assms(4) obtain packed where "any_New P (encodePayload A (f_payload f)) = Inr packed"
    and w: "w = \<lparr>ftw_Envelope = Some (EncodeEnvelope T (f_envelope f) (f_ref f)),
            ftw_Kind = encodeFactKind (f_kind f), ftw_Type = FactType (f_payload f),
            ftw_TypeVersion = TypeVersion (f_payload f), ftw_Payload = Some packed\<rparr>"
    by (auto simp: EncodeFact_def)
  then have "decodePayload uc A P (Some packed) = Inr (f_payload f)"
    using assms(2,3) by (simp add: decodePayload_def anypb_exact_def fact_value_ok_def payload_codec)
  with assms(1,3) NewFact_rebuilds [OF assms(3)] show ?thesis
    by (simp add: w DecodeFact_def envelope_codec fact_kind_codec fact_value_ok_def)
qed

lemma submission_codec:
  "timestamppb_exact T \<Longrightarrow> command_value_ok uc A cmd \<Longrightarrow>
   DecodeHoldingClaimSubmission uc T A (Some (EncodeHoldingClaimSubmission T A cmd)) = Inr cmd"
  by (simp add: command_value_ok_def DecodeHoldingClaimSubmission_def EncodeHoldingClaimSubmission_def claim_codec
      quantity_codec interval_codec instant_codec confidence_codec bindings_codec)

section \<open>Decoding is validation\<close>

lemma ref_decoded: "DecodeRef w = Inr r \<Longrightarrow> ref_value_ok r"
  by (auto simp: DecodeRef_def ref_value_ok_def split: option.splits if_splits)

lemma binding_decoded: "DecodeReferenceBinding w = Inr r \<Longrightarrow> binding_value_ok r"
  by (auto simp: DecodeReferenceBinding_def binding_value_ok_def NewReferenceBinding_def split: option.splits if_splits)

lemma payload_decoded:
  assumes "apd_text A" "decode_message uc A m = Inr p"
  shows "payload_value_ok uc A p"
  using assms(2)
  by (cases m) (auto simp: decodeCorrectionKind_def CorrectionKind_Valid_def enum_defs
      dest: entity_id_decoded claim_decoded quantity_decoded [OF assms(1)] ref_decoded split: if_splits)

lemma envelope_decoded:
  assumes "DecodeEnvelope T w = Inr (e, r)"
  shows "wf_envelope e \<and> ref_value_ok r"
  using assms
  by (auto simp: DecodeEnvelope_def NewEnvelope_Inr_iff wf_envelope_def dest: coordinates_decoded provenance_decoded ref_decoded
      split: option.splits)

section \<open>Properties\<close>

text \<open>C23: a fact survives the wire. Encoding succeeds whenever the payload can be packed, and the message
  decodes to the very fact it was made from: reference, coordinates, provenance, bindings, kind
  and payload, for all four payload types.\<close>

theorem fact_wire_roundtrip:
  assumes "timestamppb_exact T" "anypb_exact P" "fact_value_ok uc A f"
    and "any_New P (encodePayload A (f_payload f)) = Inr packed"
  shows "\<exists>w. EncodeFact T P A f = Inr w \<and> DecodeFact uc T P A (Some w) = Inr f"
proof -
  from assms(4) obtain w where "EncodeFact T P A f = Inr w" by (simp add: EncodeFact_def)
  with fact_codec [OF assms(1-3)] show ?thesis by blast
qed

text \<open>C29: a decoded fact is a fact of the ledger. Whatever message arrives, a fact the decoder returns
  has a complete reference, a well-formed envelope and a payload the constructors accept, and its
  declared type and version are those of the payload it carries: a message that declares one type
  and carries another never decodes.\<close>

theorem fact_wire_validates:
  assumes "apd_text A" "DecodeFact uc T P A w = Inr f"
  shows "wf_fact f \<and> ref_value_ok (f_ref f) \<and> payload_value_ok uc A (f_payload f) \<and>
    (\<exists>v. w = Some v \<and> ftw_Type v = FactType (f_payload f) \<and> ftw_TypeVersion v = TypeVersion (f_payload f))"
proof -
  from assms(2) obtain v envelope ref kind payload m where w: "w = Some v"
    and d: "DecodeEnvelope T (ftw_Envelope v) = Inr (envelope, ref)" "decode_message uc A m = Inr payload"
    and t: "FactType payload = ftw_Type v" "TypeVersion payload = ftw_TypeVersion v"
    and n: "NewFact ref envelope kind (Some payload) = Inr f"
    by (auto simp: DecodeFact_def decodePayload_def split: option.splits if_splits)
  from n have f: "f = \<lparr>f_ref = ref, f_envelope = envelope, f_kind = kind, f_payload = payload\<rparr>" "FactKind_Valid kind"
    by (auto simp: NewFact_def split: if_splits)
  show ?thesis
    using envelope_decoded [OF d(1)] payload_decoded [OF assms(1) d(2)] t w f by (auto simp: wf_fact_def)
qed

text \<open>A submission survives the wire, and only a well-made one gets through. Encoding an admission
  command and decoding it gives the command back; and any command decoded from any message names
  both claims, has a well-formed interval, a quantity that parses and a valid confidence.\<close>

theorem submission_roundtrip:
  assumes "timestamppb_exact T" "apd_text A" "command_value_ok uc A cmd"
  shows "DecodeHoldingClaimSubmission uc T A (Some (EncodeHoldingClaimSubmission T A cmd)) = Inr cmd \<and>
    (\<forall>w got. DecodeHoldingClaimSubmission uc T A w = Inr got \<longrightarrow>
       \<not> Claim_IsZero (ac_Account got) \<and> \<not> Claim_IsZero (ac_Instrument got) \<and> wf_interval (ac_Effective got) \<and>
       wf_quantity A (ac_Quantity got) \<and> Confidence_Valid (ac_Confidence got) \<and> command_ok (AcceptHoldingClaimC got))"
proof -
  have "\<not> Claim_IsZero c" if "wf_claim uc c" for c
    using that by (auto simp: wf_claim_def NewClaim_Inr_iff Claim_IsZero_def)
  moreover have "Confidence_Valid c" if "DecodeConfidence w = Inr c" for w c
    using that by (auto simp: DecodeConfidence_def Confidence_Valid_def enum_defs split: if_splits)
  ultimately show ?thesis
    using submission_codec [OF assms(1,3)]
    by (auto simp: DecodeHoldingClaimSubmission_def interval_value_def
        dest: claim_decoded quantity_decoded [OF assms(2)] interval_decoded split: option.splits)
qed

section \<open>Witnesses\<close>

definition wire_fact :: "int Fact" where
  "wire_fact = \<lparr>f_ref = \<lparr>fr_Stream = ''l'', fr_Sequence = 1\<rparr>,
     f_envelope = \<lparr>ev_coordinates = wire_coordinates, ev_provenance = wire_provenance, ev_references = [wire_binding]\<rparr>,
     f_kind = KindObservation,
     f_payload = HoldingObservedP \<lparr>ho_Account = wire_id, ho_Instrument = wire_id, ho_Quantity = wire_quantity\<rparr>\<rparr>"

lemma wire_fact_ok: "fact_value_ok uc int_apd wire_fact"
  using wire_coordinates_ok wire_provenance_ok wire_binding_ok wire_id_ok wire_quantity_ok
  by (simp add: wire_fact_def fact_value_ok_def ref_value_ok_def envelope_value_ok_def FactKind_Valid_def)

theorem fact_wire_roundtrip_witness:
  "\<exists>w. EncodeFact unix_timestamppb direct_anypb int_apd wire_fact = Inr w \<and>
     DecodeFact unicode_ascii unix_timestamppb direct_anypb int_apd (Some w) = Inr wire_fact"
  by (rule fact_wire_roundtrip [OF unix_timestamppb_exact direct_anypb_exact wire_fact_ok]) (simp add: direct_anypb_def)

theorem fact_wire_validates_witness:
  "\<exists>w f. DecodeFact unicode_ascii unix_timestamppb direct_anypb int_apd (Some w) = Inr f \<and> wf_fact f \<and>
     ftw_Type w = ''ledger.HoldingObserved''"
proof -
  obtain w where e: "EncodeFact unix_timestamppb direct_anypb int_apd wire_fact = Inr w"
    by (simp add: EncodeFact_def direct_anypb_def)
  have "DecodeFact unicode_ascii unix_timestamppb direct_anypb int_apd (Some w) = Inr wire_fact"
    by (rule fact_codec [OF unix_timestamppb_exact direct_anypb_exact wire_fact_ok e])
  with fact_wire_validates [OF int_apd_text this] show ?thesis by (auto simp: wire_fact_def)
qed

definition wire_command :: "int AcceptHoldingClaimCommand" where
  "wire_command = \<lparr>ac_Stream = ''l'', ac_Account = wire_claim, ac_Instrument = wire_claim, ac_Quantity = wire_quantity,
     ac_Effective = effective wire_coordinates, ac_Source = pv_source wire_provenance, ac_CollectedAt = Instant 5,
     ac_Interpreter = pv_interpreter wire_provenance, ac_Confidence = ConfidenceAsserted, ac_References = [wire_binding]\<rparr>"

lemma wire_command_ok: "command_value_ok unicode_ascii int_apd wire_command"
  using wire_coordinates_ok wire_provenance_ok wire_binding_ok wire_claim_ok wire_quantity_ok
  by (simp add: wire_command_def command_value_ok_def coordinates_value_ok_def provenance_value_ok_def
      instant_value_ok_def time_in_range_def Confidence_Valid_def enum_defs)

theorem submission_roundtrip_witness:
  "DecodeHoldingClaimSubmission unicode_ascii unix_timestamppb int_apd
     (Some (EncodeHoldingClaimSubmission unix_timestamppb int_apd wire_command)) = Inr wire_command \<and>
   command_ok (AcceptHoldingClaimC wire_command)"
  using submission_roundtrip [OF unix_timestamppb_exact int_apd_text wire_command_ok] by blast

end
