(* ===== verification/Sqlite_Store.thy ===== *)
theory Sqlite_Store
  imports Ledger_Wire
begin

text \<open>
  \<^verbatim>\<open>src/libs/ledger-sqlite/store.go\<close>: the durable store, a table of encoded facts.

  The database engine and the protobuf runtime are third-party: they are the parameters
  \<open>sqlite\<close>, the statements the code issues, and \<open>proto\<close>, marshalling of a fact message.
  \<open>sqlite_law\<close> says of an engine what SQL says of those statements on the rows of the table:
  what a \<^verbatim>\<open>SELECT\<close> with its \<^verbatim>\<open>WHERE\<close>, \<^verbatim>\<open>ORDER BY\<close> and aggregates returns, and that an \<^verbatim>\<open>INSERT\<close>
  under a fresh primary key adds the row; \<open>proto_law\<close> that unmarshalling inverts marshalling.
  A transaction is the value of the database between \<^verbatim>\<open>BEGIN\<close> and \<^verbatim>\<open>COMMIT\<close>; a rollback goes back
  to the value at \<^verbatim>\<open>BEGIN\<close>, and a \<^verbatim>\<open>COMMIT\<close> is given both values and answers the one that stays. Every statement may fail, and the code's
  answer to each failure is a branch of the model; \<open>sqlite_law\<close> is for an engine that works and
  \<open>sqlite_failstop\<close> for one that may fail anywhere but says so.

  The store keeps the contract \<open>store_contract\<close> of the application, for the facts its encoding can
  carry (\<open>sqlite_storable\<close>). That is proved in the locale \<open>durable_store\<close>, which a sublocale makes a
  \<open>store_contract\<close>.
\<close>

section \<open>The engine and the runtime as parameters\<close>

record 'blob Row =
  row_stream :: string
  row_sequence :: int
  row_effective_from :: int
  row_knowledge :: int
  row_encoded :: 'blob

record ('db, 'blob) sqlite =
  db_facts :: "'db \<Rightarrow> string \<Rightarrow> (int \<times> 'blob) list result"
  db_extent :: "'db \<Rightarrow> string \<Rightarrow> (int \<times> int option \<times> int option) result"
  db_insert :: "'db \<Rightarrow> 'blob Row \<Rightarrow> 'db result"
  db_begin :: "'db \<Rightarrow> unit result"
  db_commit :: "'db \<Rightarrow> 'db \<Rightarrow> 'db \<times> unit result"
  db_rollback :: "'db \<Rightarrow> unit result"

record ('blob, 'ts, 'any) proto =
  pr_Marshal :: "('ts, 'any) pb_Fact \<Rightarrow> 'blob result"
  pr_Unmarshal :: "'blob \<Rightarrow> ('ts, 'any) pb_Fact result"

record ('db, 'blob, 'ts, 'any, 'd) libs =
  lb_sqlite :: "('db, 'blob) sqlite"
  lb_proto :: "('blob, 'ts, 'any) proto"
  lb_time :: "'ts timestamppb"
  lb_any :: "'any anypb"
  lb_apd :: "'d apd"
  lb_unicode :: unicode

definition stream_rows :: "'blob Row list \<Rightarrow> string \<Rightarrow> 'blob Row list" where
  "stream_rows rows n = filter (\<lambda>r. row_stream r = n) rows"

definition max_of :: "int list \<Rightarrow> int option" where
  "max_of xs = (if xs = [] then None else Some (Max (set xs)))"

definition sqlite_law :: "('db, 'blob) sqlite \<Rightarrow> ('db \<Rightarrow> 'blob Row list) \<Rightarrow> bool" where
  "sqlite_law D table \<longleftrightarrow>
     (\<forall>db n. db_facts D db n =
        Inr (map (\<lambda>r. (row_sequence r, row_encoded r)) (sort_key row_sequence (stream_rows (table db) n)))) \<and>
     (\<forall>db n. db_extent D db n =
        Inr (int (length (stream_rows (table db) n)), max_of (map row_sequence (stream_rows (table db) n)),
             max_of (map row_knowledge (stream_rows (table db) n)))) \<and>
     (\<forall>db row. 0 \<le> row_sequence row \<and> row_sequence row < 2 ^ 63 \<and>
        row_sequence row \<notin> set (map row_sequence (stream_rows (table db) (row_stream row))) \<longrightarrow>
        (\<exists>db'. db_insert D db row = Inr db' \<and> table db' = table db @ [row])) \<and>
     (\<forall>db tx. db_begin D db = Inr () \<and> db_commit D db tx = (tx, Inr ()) \<and> db_rollback D tx = Inr ())"

text \<open>An engine that may refuse any statement at any moment, but whose answers are right when it gives
  them: what it selects, what it inserts, what it commits. A commit is atomic: the table is the
  transaction's when it succeeds and the one at \<^verbatim>\<open>BEGIN\<close> when it does not.\<close>

definition sqlite_failstop :: "('db, 'blob) sqlite \<Rightarrow> ('db \<Rightarrow> 'blob Row list) \<Rightarrow> bool" where
  "sqlite_failstop D table \<longleftrightarrow>
     (\<forall>db n rows. db_facts D db n = Inr rows \<longrightarrow>
        rows = map (\<lambda>r. (row_sequence r, row_encoded r)) (sort_key row_sequence (stream_rows (table db) n))) \<and>
     (\<forall>db n x. db_extent D db n = Inr x \<longrightarrow>
        x = (int (length (stream_rows (table db) n)), max_of (map row_sequence (stream_rows (table db) n)),
             max_of (map row_knowledge (stream_rows (table db) n)))) \<and>
     (\<forall>db row db'. db_insert D db row = Inr db' \<longrightarrow> table db' = table db @ [row]) \<and>
     (\<forall>db tx db' res. db_commit D db tx = (db', res) \<longrightarrow> table db' = (if is_ok res then table tx else table db))"

definition proto_law :: "('blob, 'ts, 'any) proto \<Rightarrow> bool" where
  "proto_law M \<longleftrightarrow> (\<forall>w b. pr_Marshal M w = Inr b \<longrightarrow> pr_Unmarshal M b = Inr w)"

section \<open>Opening\<close>

definition ErrEncodingVersion :: sentinel where
  "ErrEncodingVersion = ''sqlite: database uses an older temporal encoding''"
definition ErrGap :: sentinel where
  "ErrGap = ''sqlite: stream has a sequence gap''"

declare ErrEncodingVersion_def [sentinel_defs] ErrGap_def [sentinel_defs]

definition encodingRFC3339Text :: int where
  "encodingRFC3339Text = 1"

definition encodingOrderableInteger :: int where
  "encodingOrderableInteger = 2"

text \<open>The statements issued on a file as it is opened, and what the code asks of the engine there: to
  open a file, to execute a statement, and to answer the three queries of \<^verbatim>\<open>assertEncoding\<close>
  (\<^verbatim>\<open>user_version\<close>, how many tables are called \<^verbatim>\<open>facts\<close>, how many rows that table has).\<close>

datatype statement =
  Busy_timeout int
| Journal_mode_WAL
| Synchronous_FULL
| Foreign_keys_ON
| Set_user_version int
| Create_facts

record 'db sqlite_file =
  sf_Open :: "string \<Rightarrow> 'db result"
  sf_Exec :: "'db \<Rightarrow> statement \<Rightarrow> 'db result"
  sf_user_version :: "'db \<Rightarrow> int result"
  sf_facts_tables :: "'db \<Rightarrow> int result"
  sf_facts_rows :: "'db \<Rightarrow> int result"

definition schema :: statement where
  "schema = Create_facts"

definition pragmas :: "statement list" where
  "pragmas = [Busy_timeout 5000, Journal_mode_WAL, Synchronous_FULL, Foreign_keys_ON]"

fun exec_all :: "'db sqlite_file \<Rightarrow> 'db \<Rightarrow> statement list \<Rightarrow> 'db result" where
  "exec_all D db [] = Inr db"
| "exec_all D db (st # sts) = bindR (sf_Exec D db st) (\<lambda>db'. exec_all D db' sts)"

definition assertEncoding :: "'db sqlite_file \<Rightarrow> 'db \<Rightarrow> 'db result" where
  "assertEncoding D db =
     bindR (sf_user_version D db) (\<lambda>version.
       if version = encodingOrderableInteger then Inr db
       else if version = 0 then
         bindR (sf_facts_tables D db) (\<lambda>facts.
         bindR (if facts > 0 then sf_facts_rows D db else Inr 0) (\<lambda>rows.
           if rows > 0 then Inl [ErrEncodingVersion]
           else sf_Exec D db (Set_user_version encodingOrderableInteger)))
       else Inl [ErrEncodingVersion])"

definition sqlite_Open :: "'db sqlite_file \<Rightarrow> string \<Rightarrow> 'db result" where
  "sqlite_Open D dsn =
     bindR (sf_Open D (dsn @ ''?_txlock=immediate'')) (\<lambda>db.
     bindR (exec_all D db pragmas) (\<lambda>db.
     bindR (assertEncoding D db) (\<lambda>db. sf_Exec D db schema)))"

text \<open>What SQL says of those statements: a pragma changes neither the marker nor the table, setting
  the marker sets it and leaves the table, and creating the table leaves the marker.\<close>

definition sqlite_file_law :: "'db sqlite_file \<Rightarrow> bool" where
  "sqlite_file_law D \<longleftrightarrow>
     (\<forall>db st db'. sf_Exec D db st = Inr db' \<longrightarrow>
        sf_user_version D db' = (case st of Set_user_version v \<Rightarrow> Inr v | _ \<Rightarrow> sf_user_version D db) \<and>
        (st \<noteq> Create_facts \<longrightarrow> sf_facts_tables D db' = sf_facts_tables D db \<and>
           sf_facts_rows D db' = sf_facts_rows D db))"

section \<open>Encoding\<close>

text \<open>\<^verbatim>\<open>UnixNano\<close>, an \<^verbatim>\<open>int64\<close> that wraps outside the years 1678 to 2262.\<close>

definition nanos :: "Instant \<Rightarrow> int" where
  "nanos i = sint (word_of_int (Time i - 62135596800 * 1000000000) :: 64 word)"

definition sqlite_encodeFact :: "('db, 'blob, 'ts, 'any, 'd) libs \<Rightarrow> 'd Fact \<Rightarrow> 'blob result" where
  "sqlite_encodeFact L f =
     bindR (EncodeFact (lb_time L) (lb_any L) (lb_apd L) f) (pr_Marshal (lb_proto L))"

definition sqlite_decodeFact :: "('db, 'blob, 'ts, 'any, 'd) libs \<Rightarrow> 'blob \<Rightarrow> 'd Fact result" where
  "sqlite_decodeFact L encoded =
     bindR (pr_Unmarshal (lb_proto L) encoded) (\<lambda>wire.
       DecodeFact (lb_unicode L) (lb_time L) (lb_any L) (lb_apd L) (Some wire))"

section \<open>Reading\<close>

fun replay ::
  "('db, 'blob, 'ts, 'any, 'd) libs \<Rightarrow> 'd Stream \<Rightarrow> (int \<times> 'blob) list \<Rightarrow> 'd Stream result" where
  "replay L stream [] = Inr stream"
| "replay L stream ((stored, encoded) # rows) =
     bindR (sqlite_decodeFact L encoded) (\<lambda>fact.
       let expected = (word_of_nat (Stream_Len stream) + 1 :: u64) in
       if stored < 0 \<or> word_of_int stored \<noteq> expected then Inl [ErrGap]
       else if fr_Sequence (f_ref fact) \<noteq> expected then Inl [ErrGap]
       else bindR (Stream_Append stream (f_envelope fact) (f_kind fact) (Some (f_payload fact)))
         (\<lambda>(stream', _). replay L stream' rows))"

text \<open>The iteration over the result rows is one query result here: an error in the middle of it is an error of
  the query, so it comes before the checks on the rows already read where the code would come to those
  first. Either way the load is refused.\<close>

definition loadFrom :: "('db, 'blob, 'ts, 'any, 'd) libs \<Rightarrow> 'db \<Rightarrow> string \<Rightarrow> 'd Stream result" where
  "loadFrom L db name =
     bindR (db_facts (lb_sqlite L) db name) (\<lambda>rows.
     bindR (NewStream name) (\<lambda>stream.
     bindR (replay L stream rows) (\<lambda>loaded.
       if rows = [] then Inl [ErrStreamNotFound] else Inr loaded)))"

section \<open>Writing\<close>

definition appendWithin ::
  "('db, 'blob, 'ts, 'any, 'd) libs \<Rightarrow> 'db \<Rightarrow> string \<Rightarrow> Expectation \<Rightarrow> Envelope \<Rightarrow> FactKind \<Rightarrow>
   'd Payload option \<Rightarrow> 'db \<times> FactRef result" where
  "appendWithin L db name expect envelope kind payload =
     (case db_extent (lb_sqlite L) db name of
        Inl e \<Rightarrow> (db, Inl e)
      | Inr (len, highest, lastKnowledge) \<Rightarrow>
        if highest \<noteq> None \<and> highest \<noteq> Some len then (db, Inl [ErrGap])
        else case Expectation_Length expect of (want, checked) \<Rightarrow>
        if checked \<and> len \<noteq> want then (db, Inl [ErrStaleRead])
        else let know = knowledge (ev_coordinates envelope) in
        if (case lastKnowledge of None \<Rightarrow> False | Some latest \<Rightarrow> nanos know \<le> latest)
        then (db, Inl [ErrNonMonotonicKnowledge])
        else let top = (case highest of None \<Rightarrow> 0 | Some h \<Rightarrow> h) in
        if top < 0 then (db, Inl [])
        else let ref = \<lparr>fr_Stream = name, fr_Sequence = word_of_int top + 1\<rparr> in
        (case bindR (NewFact ref envelope kind payload) (sqlite_encodeFact L) of
           Inl e \<Rightarrow> (db, Inl e)
         | Inr encoded \<Rightarrow>
           (case db_insert (lb_sqlite L) db \<lparr>row_stream = name, row_sequence = uint (fr_Sequence ref),
                row_effective_from = nanos (iv_from (effective (ev_coordinates envelope))),
                row_knowledge = nanos know, row_encoded = encoded\<rparr> of
              Inl e \<Rightarrow> (db, Inl e)
            | Inr db' \<Rightarrow> (db', Inr ref))))"

text \<open>
  How a transaction ends: the deferred function rolls it back unless it was committed, and joins the
  error of a rollback that fails to the one being returned. After a \<^verbatim>\<open>Commit\<close>, successful or not, the
  rollback answers \<^verbatim>\<open>sql.ErrTxDone\<close>, which is not an error here.
\<close>

definition ErrTxDone :: sentinel where
  "ErrTxDone = ''sql: transaction has already been committed or rolled back''"

definition rollback :: "('db, 'blob) sqlite \<Rightarrow> 'db \<Rightarrow> go_error \<Rightarrow> go_error" where
  "rollback D tx err =
     (case db_rollback D tx of
        Inr _ \<Rightarrow> err
      | Inl rerr \<Rightarrow> if errors_Is rerr ErrTxDone then err else err @ rerr)"

text \<open>How a transaction ends. A rollback that itself fails is an error joined to the first one, as in the code;
  the value of the database is the one at \<^verbatim>\<open>BEGIN\<close> all the same, since what was never committed is not
  in the file, whatever became of the connection.\<close>

definition end_tx :: "('db, 'blob) sqlite \<Rightarrow> 'db \<Rightarrow> 'db \<Rightarrow> FactRef result \<Rightarrow> 'db \<times> FactRef result" where
  "end_tx D db tx res =
     (case res of
        Inl err \<Rightarrow> (db, Inl (rollback D tx err))
      | Inr ref \<Rightarrow> (case db_commit D db tx of (db', Inl err) \<Rightarrow> (db', Inl err) | (db', Inr _) \<Rightarrow> (db', Inr ref)))"

definition sqlite_Append ::
  "('db, 'blob, 'ts, 'any, 'd) libs \<Rightarrow> 'db \<Rightarrow> string \<Rightarrow> Expectation \<Rightarrow> Envelope \<Rightarrow> FactKind \<Rightarrow>
   'd Payload option \<Rightarrow> 'db \<times> FactRef result" where
  "sqlite_Append L db name expect envelope kind payload =
     (case db_begin (lb_sqlite L) db of
        Inl e \<Rightarrow> (db, Inl e)
      | Inr _ \<Rightarrow>
        (case appendWithin L db name expect envelope kind payload of (tx, res) \<Rightarrow> end_tx (lb_sqlite L) db tx res))"

definition regional :: "('db, 'blob, 'ts, 'any, 'd) libs \<Rightarrow> ('d, 'db) Region" where
  "regional L = \<lparr>rg_Load = loadFrom L, rg_Append = appendWithin L,
     rg_Serialise = (\<lambda>_. Inl [ErrNestedSerialise])\<rparr>"

definition sqlite_Serialise ::
  "('db, 'blob, 'ts, 'any, 'd) libs \<Rightarrow> string \<Rightarrow> ('d, 'db, 'k) region_fn \<Rightarrow> 'db \<times> 'k \<Rightarrow>
   ('db \<times> 'k) \<times> FactRef result" where
  "sqlite_Serialise L name fn st =
     (case db_begin (lb_sqlite L) (fst st) of
        Inl e \<Rightarrow> (st, Inl e)
      | Inr _ \<Rightarrow>
        (case fn (regional L) st of ((tx, k), res) \<Rightarrow>
           (case end_tx (lb_sqlite L) (fst st) tx res of (db', res') \<Rightarrow> ((db', k), res'))))"

definition sqlite_store :: "('db, 'blob, 'ts, 'any, 'd) libs \<Rightarrow> ('d, 'db, 'k) Store" where
  "sqlite_store L = \<lparr>so_Load = loadFrom L, so_Append = sqlite_Append L, so_Serialise = sqlite_Serialise L\<rparr>"

section \<open>What the rows of a stream say\<close>

text \<open>The instants whose nanoseconds since 1970 fit an \<^verbatim>\<open>int64\<close>.\<close>

definition nanos_exact :: "Instant \<Rightarrow> bool" where
  "nanos_exact i \<longleftrightarrow> nanos i = Time i - 62135596800 * 1000000000"

definition row_holds :: "('db, 'blob, 'ts, 'any, 'd) libs \<Rightarrow> 'blob Row \<Rightarrow> 'd Fact \<Rightarrow> bool" where
  "row_holds L r f \<longleftrightarrow> row_stream r = fr_Stream (f_ref f) \<and> row_sequence r = uint (fr_Sequence (f_ref f)) \<and>
     row_knowledge r = nanos (fact_knowledge f) \<and> sqlite_encodeFact L f = Inr (row_encoded r)"

definition facts_stored :: "('db, 'blob, 'ts, 'any, 'd) libs \<Rightarrow> string \<Rightarrow> 'd Fact list \<Rightarrow> bool" where
  "facts_stored L n fs \<longleftrightarrow> (fs \<noteq> [] \<longrightarrow> n \<noteq> []) \<and> length fs < 2 ^ 63 \<and>
     list_all (\<lambda>f. fact_value_ok (lb_unicode L) (lb_apd L) f \<and> nanos_exact (fact_knowledge f)) fs \<and>
     (\<forall>i < length fs. f_ref (fs ! i) = \<lparr>fr_Stream = n, fr_Sequence = word_of_nat (i + 1)\<rparr>) \<and>
     sorted_wrt (<) (map fact_knowledge fs)"

definition sqlite_inv ::
  "('db, 'blob, 'ts, 'any, 'd) libs \<Rightarrow> ('db \<Rightarrow> 'blob Row list) \<Rightarrow> 'db \<Rightarrow> bool" where
  "sqlite_inv L table db \<longleftrightarrow>
     (\<forall>n. \<exists>fs. list_all2 (row_holds L) (stream_rows (table db) n) fs \<and> facts_stored L n fs)"

definition sqlite_view :: "('db, 'blob, 'ts, 'any, 'd) libs \<Rightarrow> 'db \<Rightarrow> string \<Rightarrow> 'd Stream option" where
  "sqlite_view L db n = (case loadFrom L db n of Inl _ \<Rightarrow> None | Inr stream \<Rightarrow> Some stream)"

text \<open>The runtime marshals the fact this transaction would append, the next of its stream.\<close>

definition marshals ::
  "('db, 'blob, 'ts, 'any, 'd) libs \<Rightarrow> ('db \<Rightarrow> 'blob Row list) \<Rightarrow> 'db \<Rightarrow> string \<Rightarrow> Envelope \<Rightarrow> 'd Payload \<Rightarrow> bool" where
  "marshals L table db n e p \<longleftrightarrow> (\<forall>kd. FactKind_Valid kd \<longrightarrow>
     is_ok (sqlite_encodeFact L \<lparr>f_ref = \<lparr>fr_Stream = n, fr_Sequence = word_of_nat (length (stream_rows (table db) n) + 1)\<rparr>,
       f_envelope = e, f_kind = kd, f_payload = p\<rparr>))"

definition sqlite_storable ::
  "('db, 'blob, 'ts, 'any, 'd) libs \<Rightarrow> ('db \<Rightarrow> 'blob Row list) \<Rightarrow> 'db \<Rightarrow> string \<Rightarrow> Envelope \<Rightarrow> 'd Payload \<Rightarrow> bool" where
  "sqlite_storable L table db n e p \<longleftrightarrow> n \<noteq> [] \<and> length (stream_rows (table db) n) + 1 < 2 ^ 63 \<and>
     envelope_value_ok e \<and> payload_value_ok (lb_unicode L) (lb_apd L) p \<and>
     nanos_exact (knowledge (ev_coordinates e)) \<and>
     marshals L table db n e p"

definition sqlite_absent :: "string \<Rightarrow> go_error" where
  "sqlite_absent n = (if n = [] then [ErrEmptyType] else [ErrStreamNotFound])"

section \<open>The durable store keeps the contract\<close>

lemma uint_sequence: "m < 2 ^ 63 \<Longrightarrow> uint (word_of_nat m :: u64) = int m"
  by (simp add: unsigned_of_nat take_bit_nat_eq_self)

lemma stored_sequences:
  assumes "list_all2 (row_holds L) rows fs" "facts_stored L n fs"
  shows "map row_sequence rows = map (\<lambda>i. int (i + 1)) [0..<length fs]"
proof (rule nth_equalityI)
  show len: "length (map row_sequence rows) = length (map (\<lambda>i. int (i + 1)) [0..<length fs])"
    using list_all2_lengthD [OF assms(1)] by simp
  fix i
  assume "i < length (map row_sequence rows)"
  then have i: "i < length fs" "i < length rows" using len by simp_all
  then have "row_sequence (rows ! i) = uint (fr_Sequence (f_ref (fs ! i)))"
    using list_all2_nthD2 [OF assms(1)] by (simp add: row_holds_def)
  also have "\<dots> = uint (word_of_nat (i + 1) :: u64)" using assms(2) i by (simp add: facts_stored_def)
  also have "\<dots> = int (i + 1)" using assms(2) i by (intro uint_sequence) (simp add: facts_stored_def)
  finally show "map row_sequence rows ! i = map (\<lambda>i. int (i + 1)) [0..<length fs] ! i" using i by simp
qed

lemma max_of_sequences: "max_of (map (\<lambda>i. int (i + 1)) [0..<m]) = (if m = 0 then None else Some (int m))"
proof (cases m)
  case (Suc k)
  have "Max (set (map (\<lambda>i. int (i + 1)) [0..<m])) = int m"
    by (rule Max_eqI) (use Suc in auto)
  then show ?thesis using Suc by (simp add: max_of_def)
qed (simp add: max_of_def)

lemma max_of_last:
  assumes "sorted_wrt (<) xs" "xs \<noteq> []"
  shows "max_of xs = Some (last xs)"
proof -
  have "y \<le> last xs" if "y \<in> set xs" for y
    using assms(1) that sorted_wrt_last_less [of xs y "last xs + 1"] by (simp add: add1_zle_eq)
  then have "Max (set xs) = last xs" using assms(2) by (intro Max_eqI) auto
  then show ?thesis using assms(2) by (simp add: max_of_def)
qed

lemma stored_knowledge:
  assumes "list_all2 (row_holds L) rows fs" "facts_stored L n fs"
  shows "max_of (map row_knowledge rows) = (if fs = [] then None else Some (nanos (fact_knowledge (last fs))))"
proof (cases "fs = []")
  case True
  then show ?thesis using assms(1) by (simp add: max_of_def)
next
  case False
  have rows: "map row_knowledge rows = map (\<lambda>f. nanos (fact_knowledge f)) fs"
    using assms(1) by (induction rule: list_all2_induct) (simp_all add: row_holds_def)
  have exact: "nanos (fact_knowledge f) = Time (fact_knowledge f) - 62135596800 * 1000000000" if "f \<in> set fs" for f
    using assms(2) that by (simp add: facts_stored_def list_all_iff nanos_exact_def)
  have "sorted_wrt (\<lambda>f g. fact_knowledge f < fact_knowledge g) fs"
    using assms(2) by (simp add: facts_stored_def sorted_wrt_map)
  then have "sorted_wrt (<) (map (\<lambda>f. nanos (fact_knowledge f)) fs)"
    unfolding sorted_wrt_map by (rule sorted_wrt_mono_rel [rotated]) (simp add: exact less_Instant_def)
  from max_of_last [OF this] False show ?thesis by (simp add: rows last_map)
qed

locale durable_store =
  fixes L :: "('db, 'blob, 'ts, 'any, 'd) libs"
    and table :: "'db \<Rightarrow> 'blob Row list"
  assumes engine: "sqlite_law (lb_sqlite L) table"
    and runtime: "proto_law (lb_proto L)" "timestamppb_exact (lb_time L)" "anypb_exact (lb_any L)"
begin

lemma facts_query:
  "db_facts (lb_sqlite L) db n =
     Inr (map (\<lambda>r. (row_sequence r, row_encoded r)) (sort_key row_sequence (stream_rows (table db) n)))"
  using engine by (simp add: sqlite_law_def)

lemma extent_query:
  "db_extent (lb_sqlite L) db n =
     Inr (int (length (stream_rows (table db) n)), max_of (map row_sequence (stream_rows (table db) n)),
          max_of (map row_knowledge (stream_rows (table db) n)))"
  using engine by (simp add: sqlite_law_def)

lemma transactions [simp]:
  "db_begin (lb_sqlite L) db = Inr ()"
  "end_tx (lb_sqlite L) db tx res = (case res of Inl e \<Rightarrow> (db, Inl e) | Inr ref \<Rightarrow> (tx, Inr ref))"
  using engine by (auto simp: sqlite_law_def end_tx_def rollback_def split: sum.splits)

lemma insert_row:
  "0 \<le> row_sequence row \<Longrightarrow> row_sequence row < 2 ^ 63 \<Longrightarrow>
   row_sequence row \<notin> set (map row_sequence (stream_rows (table db) (row_stream row))) \<Longrightarrow>
   \<exists>db'. db_insert (lb_sqlite L) db row = Inr db' \<and> table db' = table db @ [row]"
  using engine unfolding sqlite_law_def by blast

lemma decode_stored:
  assumes "fact_value_ok (lb_unicode L) (lb_apd L) f" "sqlite_encodeFact L f = Inr b"
  shows "sqlite_decodeFact L b = Inr f"
proof -
  obtain w where w: "EncodeFact (lb_time L) (lb_any L) (lb_apd L) f = Inr w" "pr_Marshal (lb_proto L) w = Inr b"
    using assms(2) by (auto simp: sqlite_encodeFact_def)
  have "pr_Unmarshal (lb_proto L) b = Inr w" using runtime(1) w(2) by (simp add: proto_law_def)
  then show ?thesis
    using fact_codec [OF runtime(2,3) assms(1) w(1)] by (simp add: sqlite_decodeFact_def)
qed

lemma replay_rows:
  assumes "list_all2 (row_holds L) rows fs" "list_all (fact_value_ok (lb_unicode L) (lb_apd L)) fs"
    and "\<forall>i < length fs. f_ref (fs ! i) = \<lparr>fr_Stream = n, fr_Sequence = word_of_nat (length pre + i + 1)\<rparr>"
  shows "replay L \<lparr>st_name = n, st_facts = pre\<rparr> (map (\<lambda>r. (row_sequence r, row_encoded r)) rows) =
    Inr \<lparr>st_name = n, st_facts = pre @ fs\<rparr>"
  using assms
proof (induction rows fs arbitrary: pre rule: list_all2_induct)
  case Nil
  then show ?case by simp
next
  case (Cons r rows f fs)
  have ref: "f_ref f = \<lparr>fr_Stream = n, fr_Sequence = word_of_nat (length pre) + 1\<rparr>"
    using Cons.prems(2) by force
  have ok: "fact_value_ok (lb_unicode L) (lb_apd L) f" using Cons.prems(1) by simp
  have "sqlite_decodeFact L (row_encoded r) = Inr f"
    using Cons.hyps(1) ok by (intro decode_stored) (simp_all add: row_holds_def)
  moreover have "row_sequence r = uint (word_of_nat (length pre) + 1 :: u64)"
    using Cons.hyps(1) ref by (simp add: row_holds_def)
  moreover have "Stream_Append \<lparr>st_name = n, st_facts = pre\<rparr> (f_envelope f) (f_kind f) (Some (f_payload f)) =
      Inr (\<lparr>st_name = n, st_facts = pre @ [f]\<rparr>, f_ref f)"
    using NewFact_rebuilds [OF ok] ref by (simp add: Stream_Append_def)
  moreover have "replay L \<lparr>st_name = n, st_facts = pre @ [f]\<rparr> (map (\<lambda>r. (row_sequence r, row_encoded r)) rows) =
      Inr \<lparr>st_name = n, st_facts = (pre @ [f]) @ fs\<rparr>"
  proof (rule Cons.IH)
    show "list_all (fact_value_ok (lb_unicode L) (lb_apd L)) fs" using Cons.prems(1) by simp
    show "\<forall>i < length fs. f_ref (fs ! i) = \<lparr>fr_Stream = n, fr_Sequence = word_of_nat (length (pre @ [f]) + i + 1)\<rparr>"
      using Cons.prems(2) by (auto dest: spec [of _ "Suc _"])
  qed
  ultimately show ?case by (simp add: Stream_Len_def ref)
qed

lemma loadFrom_stored:
  assumes "list_all2 (row_holds L) (stream_rows (table db) n) fs" "facts_stored L n fs"
  shows "loadFrom L db n = (if n = [] then Inl [ErrEmptyType] else if fs = [] then Inl [ErrStreamNotFound]
    else Inr \<lparr>st_name = n, st_facts = fs\<rparr>)"
proof (cases "n = []")
  case True
  then show ?thesis by (simp add: loadFrom_def facts_query NewStream_def)
next
  case False
  let ?rows = "stream_rows (table db) n"
  have "sorted (map row_sequence ?rows)" unfolding stored_sequences [OF assms] by (simp add: sorted_iff_nth_mono)
  then have sorted: "sort_key row_sequence ?rows = ?rows" by (rule sort_key_id_if_sorted)
  have ok: "list_all (fact_value_ok (lb_unicode L) (lb_apd L)) fs"
    using assms(2) by (auto simp: facts_stored_def elim: list.pred_mono_strong)
  have "replay L \<lparr>st_name = n, st_facts = []\<rparr> (map (\<lambda>r. (row_sequence r, row_encoded r)) ?rows) =
      Inr \<lparr>st_name = n, st_facts = [] @ fs\<rparr>"
    using assms(2) by (intro replay_rows [OF assms(1) ok]) (simp add: facts_stored_def)
  moreover have "?rows = [] \<longleftrightarrow> fs = []" using assms(1) by auto
  ultimately show ?thesis using False by (auto simp: loadFrom_def facts_query sorted NewStream_def)
qed

lemma view_stored:
  assumes "list_all2 (row_holds L) (stream_rows (table db) n) fs" "facts_stored L n fs"
  shows "sqlite_view L db n = (if fs = [] then None else Some \<lparr>st_name = n, st_facts = fs\<rparr>)"
  using loadFrom_stored [OF assms] assms(2) by (auto simp: sqlite_view_def facts_stored_def)

lemma loadFrom_view:
  assumes "sqlite_inv L table db"
  shows "loadFrom L db n = (case sqlite_view L db n of None \<Rightarrow> Inl (sqlite_absent n) | Some st \<Rightarrow> Inr st)"
proof -
  obtain fs where fs: "list_all2 (row_holds L) (stream_rows (table db) n) fs" "facts_stored L n fs"
    using assms by (auto simp: sqlite_inv_def)
  then show ?thesis
    using loadFrom_stored [OF fs] view_stored [OF fs] by (auto simp: sqlite_absent_def facts_stored_def)
qed

text \<open>The abstract append on a stream held as rows.\<close>

lemma append_spec_stored:
  assumes "list_all2 (row_holds L) (stream_rows (table db) n) fs" "facts_stored L n fs" "n \<noteq> []"
  shows "append_spec (sqlite_view L db n) n ex e kd (Some p) =
    (if ex_checked ex \<and> int (length fs) \<noteq> ex_length ex then Inl [ErrStaleRead]
     else if fs \<noteq> [] \<and> \<not> fact_knowledge (last fs) < knowledge (ev_coordinates e) then Inl [ErrNonMonotonicKnowledge]
     else bindR (NewFact \<lparr>fr_Stream = n, fr_Sequence = word_of_nat (length fs) + 1\<rparr> e kd (Some p)) (\<lambda>f.
       Inr (\<lparr>st_name = n, st_facts = fs @ [f]\<rparr>, \<lparr>fr_Stream = n, fr_Sequence = word_of_nat (length fs) + 1\<rparr>)))"
  using assms(3)
  by (cases "fs = []")
     (auto simp: view_stored [OF assms(1,2)] append_spec_def NewStream_def Stream_Append_def Stream_Len_def Let_def)

text \<open>The code's append on the same rows, up to the insertion.\<close>

lemma appendWithin_stored:
  assumes "list_all2 (row_holds L) (stream_rows (table db) n) fs" "facts_stored L n fs"
    and "nanos_exact (knowledge (ev_coordinates e))"
  shows "appendWithin L db n ex e kd (Some p) =
    (if ex_checked ex \<and> int (length fs) \<noteq> ex_length ex then (db, Inl [ErrStaleRead])
     else if fs \<noteq> [] \<and> \<not> fact_knowledge (last fs) < knowledge (ev_coordinates e)
     then (db, Inl [ErrNonMonotonicKnowledge])
     else let ref = \<lparr>fr_Stream = n, fr_Sequence = word_of_nat (length fs) + 1\<rparr> in
       case bindR (NewFact ref e kd (Some p)) (sqlite_encodeFact L) of
         Inl err \<Rightarrow> (db, Inl err)
       | Inr encoded \<Rightarrow>
         (case db_insert (lb_sqlite L) db \<lparr>row_stream = n, row_sequence = uint (fr_Sequence ref),
              row_effective_from = nanos (iv_from (effective (ev_coordinates e))),
              row_knowledge = nanos (knowledge (ev_coordinates e)), row_encoded = encoded\<rparr> of
            Inl err \<Rightarrow> (db, Inl err)
          | Inr db' \<Rightarrow> (db', Inr ref)))"
proof -
  have len: "length (stream_rows (table db) n) = length fs" using list_all2_lengthD [OF assms(1)] .
  have top: "max_of (map row_sequence (stream_rows (table db) n)) = (if fs = [] then None else Some (int (length fs)))"
    unfolding stored_sequences [OF assms(1,2)] max_of_sequences by simp
  have late: "nanos (knowledge (ev_coordinates e)) \<le> nanos (fact_knowledge (last fs)) \<longleftrightarrow>
      \<not> fact_knowledge (last fs) < knowledge (ev_coordinates e)" if "fs \<noteq> []"
  proof -
    have "nanos_exact (fact_knowledge (last fs))"
      using assms(2) last_in_set [OF that] by (simp add: facts_stored_def list_all_iff)
    then show ?thesis using assms(3) by (simp add: nanos_exact_def less_Instant_def not_less)
  qed
  show ?thesis
    by (cases "fs = []")
       (simp_all add: appendWithin_def extent_query len top stored_knowledge [OF assms(1,2)] late Expectation_Length_def Let_def)
qed

lemma rows_snoc: "stream_rows (rows @ [r]) m = stream_rows rows m @ (if row_stream r = m then [r] else [])"
  by (simp add: stream_rows_def)

lemma append_refused:
  assumes "sqlite_inv L table db" "sqlite_storable L table db n e p"
    and "append_spec (sqlite_view L db n) n ex e kd (Some p) = Inl err"
  shows "appendWithin L db n ex e kd (Some p) = (db, Inl err)"
proof -
  obtain fs where fs: "list_all2 (row_holds L) (stream_rows (table db) n) fs" "facts_stored L n fs"
    using assms(1) by (auto simp: sqlite_inv_def)
  have n: "n \<noteq> []" "nanos_exact (knowledge (ev_coordinates e))" using assms(2) by (simp_all add: sqlite_storable_def)
  from assms(3) show ?thesis
    unfolding append_spec_stored [OF fs n(1)] appendWithin_stored [OF fs n(2)]
    by (auto simp: bindR_Inl_iff split: if_splits)
qed

lemma append_stored:
  assumes "sqlite_inv L table db" "sqlite_storable L table db n e p"
    and "append_spec (sqlite_view L db n) n ex e kd (Some p) = Inr (st, r)"
  shows "\<exists>db'. appendWithin L db n ex e kd (Some p) = (db', Inr r) \<and> sqlite_inv L table db' \<and>
    sqlite_view L db' = (sqlite_view L db)(n \<mapsto> st)"
proof -
  obtain fs where fs: "list_all2 (row_holds L) (stream_rows (table db) n) fs" "facts_stored L n fs"
    using assms(1) by (auto simp: sqlite_inv_def)
  have ok: "n \<noteq> []" "nanos_exact (knowledge (ev_coordinates e))" "envelope_value_ok e"
    "payload_value_ok (lb_unicode L) (lb_apd L) p" and room: "length fs + 1 < 2 ^ 63"
    using assms(2) list_all2_lengthD [OF fs(1)] by (simp_all add: sqlite_storable_def)
  let ?ref = "\<lparr>fr_Stream = n, fr_Sequence = word_of_nat (length fs) + 1\<rparr>"
  from assms(3) obtain f where checks: "\<not> (ex_checked ex \<and> int (length fs) \<noteq> ex_length ex)"
      "\<not> (fs \<noteq> [] \<and> \<not> fact_knowledge (last fs) < knowledge (ev_coordinates e))"
    and f: "NewFact ?ref e kd (Some p) = Inr f" "st = \<lparr>st_name = n, st_facts = fs @ [f]\<rparr>" "r = ?ref"
    unfolding append_spec_stored [OF fs ok(1)] by (auto split: if_splits)
  from f(1) have fact: "f = \<lparr>f_ref = ?ref, f_envelope = e, f_kind = kd, f_payload = p\<rparr>" "FactKind_Valid kd"
    by (auto simp: NewFact_def split: if_splits)
  then have "is_ok (sqlite_encodeFact L f)"
    using assms(2) list_all2_lengthD [OF fs(1)] by (simp add: sqlite_storable_def marshals_def add.commute)
  then obtain b where b: "sqlite_encodeFact L f = Inr b" by (auto simp: is_ok_iff)
  have seq: "uint (fr_Sequence ?ref) = int (length fs + 1)"
    using uint_sequence [OF room] by (simp add: add.commute)
  let ?row = "\<lparr>row_stream = n, row_sequence = uint (fr_Sequence ?ref),
      row_effective_from = nanos (iv_from (effective (ev_coordinates e))),
      row_knowledge = nanos (knowledge (ev_coordinates e)), row_encoded = b\<rparr>"
  have "\<exists>db'. db_insert (lb_sqlite L) db ?row = Inr db' \<and> table db' = table db @ [?row]"
    using room seq stored_sequences [OF fs] by (intro insert_row) auto
  then obtain db' where db': "db_insert (lb_sqlite L) db ?row = Inr db'" "table db' = table db @ [?row]" by blast
  have run: "appendWithin L db n ex e kd (Some p) = (db', Inr r)"
    unfolding appendWithin_stored [OF fs ok(2)] using checks f(1,3) b db'(1) by (simp add: Let_def)
  have rows: "list_all2 (row_holds L) (stream_rows (table db') n) (fs @ [f])"
    using fs(1) b by (simp add: db'(2) rows_snoc list_all2_appendI row_holds_def fact(1))
  have stored: "facts_stored L n (fs @ [f])"
  proof -
    have "fact_knowledge g < fact_knowledge f" if "g \<in> set fs" for g
      using fs(2) checks(2) that knowledge_before [of fs "knowledge (ev_coordinates e)" g]
      by (auto simp: facts_stored_def fact(1))
    moreover have "word_of_nat (length fs) + 1 \<noteq> (0 :: u64)" using seq by force
    ultimately show ?thesis
      using fs(2) ok fact room
      by (auto simp: facts_stored_def fact_value_ok_def ref_value_ok_def sorted_wrt_append nth_append less_Suc_eq)
  qed
  have others: "stream_rows (table db') m = stream_rows (table db) m" if "m \<noteq> n" for m
    using that by (simp add: db'(2) rows_snoc)
  have "sqlite_inv L table db'"
    unfolding sqlite_inv_def using assms(1) rows stored others unfolding sqlite_inv_def by metis
  moreover have "sqlite_view L db' m = ((sqlite_view L db)(n \<mapsto> st)) m" for m
  proof (cases "m = n")
    case True
    then show ?thesis using view_stored [OF rows stored] f(2) by simp
  next
    case False
    obtain gs where "list_all2 (row_holds L) (stream_rows (table db) m) gs" "facts_stored L m gs"
      using assms(1) by (auto simp: sqlite_inv_def)
    then show ?thesis using view_stored [of db m gs] view_stored [of db' m gs] others [OF False] False by simp
  qed
  ultimately show ?thesis using run by blast
qed

end

sublocale durable_store \<subseteq> durable: store_contract "sqlite_store L" "regional L" "sqlite_inv L table" "sqlite_view L"
  "sqlite_storable L table" sqlite_absent
proof unfold_locales
  fix n
  show "sqlite_absent n = [ErrStreamNotFound] \<or> n = [] \<and> sqlite_absent n = [ErrEmptyType]"
    by (simp add: sqlite_absent_def)
next
  fix db n
  assume "sqlite_inv L table db"
  then show "so_Load (sqlite_store L) db n = (case sqlite_view L db n of None \<Rightarrow> Inl (sqlite_absent n) | Some st \<Rightarrow> Inr st)"
    "rg_Load (regional L) db n = (case sqlite_view L db n of None \<Rightarrow> Inl (sqlite_absent n) | Some st \<Rightarrow> Inr st)"
    by (simp_all add: sqlite_store_def regional_def loadFrom_view)
next
  fix db e p n ex kd st r
  assume "sqlite_inv L table db" "sqlite_storable L table db n e p"
    "append_spec (sqlite_view L db n) n ex e kd (Some p) = Inr (st, r)"
  then show "\<exists>db'. rg_Append (regional L) db n ex e kd (Some p) = (db', Inr r) \<and> sqlite_inv L table db' \<and>
      sqlite_view L db' = (sqlite_view L db)(n \<mapsto> st)"
    using append_stored by (simp add: regional_def)
next
  fix db e p n ex kd err
  assume "sqlite_inv L table db" "sqlite_storable L table db n e p"
    "append_spec (sqlite_view L db n) n ex e kd (Some p) = Inl err"
  then show "\<exists>db'. rg_Append (regional L) db n ex e kd (Some p) = (db', Inl err) \<and> sqlite_inv L table db' \<and>
      sqlite_view L db' = sqlite_view L db"
    using append_refused by (simp add: regional_def)
next
  fix db k n db1 k1 res and fn :: "('d, 'db, 'k) region_fn"
  assume "sqlite_inv L table db" "fn (regional L) (db, k) = ((db1, k1), res)" "sqlite_inv L table db1"
  then show "\<exists>db2. so_Serialise (sqlite_store L) n fn (db, k) = ((db2, k1), res) \<and> sqlite_inv L table db2 \<and>
      (sqlite_view L db2 = sqlite_view L db1 \<or> \<not> is_ok res \<and> sqlite_view L db2 = sqlite_view L db)"
    by (cases res) (simp_all add: sqlite_store_def sqlite_Serialise_def)
qed

context durable_store
begin

text \<open>The append outside a region is the append inside one, in a transaction of its own.\<close>

lemma sqlite_Append_refines:
  assumes "sqlite_inv L table db" "sqlite_storable L table db n e p"
  shows "\<exists>db'. sqlite_Append L db n ex e kd (Some p) = (db', snd (memory_Append (sqlite_view L db) n ex e kd (Some p))) \<and>
    sqlite_inv L table db' \<and> sqlite_view L db' = fst (memory_Append (sqlite_view L db) n ex e kd (Some p))"
proof (cases "append_spec (sqlite_view L db n) n ex e kd (Some p)")
  case (Inl err)
  then show ?thesis
    using append_refused [OF assms Inl] assms(1) by (simp add: sqlite_Append_def memory_Append_spec)
next
  case (Inr x)
  obtain st r where x: "x = (st, r)" by (cases x)
  from append_stored [OF assms Inr [unfolded x]] show ?thesis
    by (auto simp: sqlite_Append_def memory_Append_spec Inr x)
qed

lemma memory_view_load:
  assumes "sqlite_inv L table db" "n \<noteq> []"
  shows "loadFrom L db n = memory_Load (sqlite_view L db) n"
  using loadFrom_view [OF assms(1), of n] assms(2) by (simp add: memory_Load_def sqlite_absent_def split: option.split)

text \<open>A durable and an in-memory ledger that start from the same streams and do the same append.\<close>

lemma same_performs:
  assumes "durable.performs db n (durable.outcome db n ex kd built) db' res"
    and "memory.performs (sqlite_view L db) n (memory.outcome (sqlite_view L db) n ex kd built) s' res'"
  shows "sqlite_inv L table db' \<and> sqlite_view L db' = s' \<and> res = res'"
  using assms
  by (auto simp: durable.performs_def memory.performs_def durable.outcome_def memory.outcome_def split: sum.splits)

definition agrees :: "('db \<times> 'k) \<times> FactRef result \<Rightarrow> ('d MemStore \<times> 'k) \<times> FactRef result \<Rightarrow> bool" where
  "agrees dur mem \<longleftrightarrow> sqlite_inv L table (fst (fst dur)) \<and> sqlite_view L (fst (fst dur)) = fst (fst mem) \<and>
     snd (fst dur) = snd (fst mem) \<and> (snd dur = snd mem \<or> \<not> is_ok (snd dur) \<and> \<not> is_ok (snd mem))"

lemma same_agrees:
  assumes "durable.performs db n (durable.outcome db n ex kd built) db' res"
    and "memory.performs (sqlite_view L db) n (memory.outcome (sqlite_view L db) n ex kd built) s' res'"
  shows "agrees ((db', k), res) ((s', k), res')"
  using same_performs [OF assms] by (simp add: agrees_def)

text \<open>What a command decides from the stream it loads: the same on both, or a refusal on both (the two
  stores refuse an unnamed stream with different errors).\<close>

lemma same_plan:
  assumes "sqlite_inv L table db"
  shows "command_plan uc rules c (rg_Load (regional L) db (command_stream c)) =
      command_plan uc rules c (rg_Load memory_scoped (sqlite_view L db) (command_stream c)) \<or>
    \<not> is_ok (command_plan uc rules c (rg_Load (regional L) db (command_stream c))) \<and>
    \<not> is_ok (command_plan uc rules c (rg_Load memory_scoped (sqlite_view L db) (command_stream c)))"
proof (cases "command_stream c = []")
  case True
  have "sqlite_view L db [] = None" by (simp add: sqlite_view_def loadFrom_def facts_query NewStream_def)
  then have "rg_Load (regional L) db [] = Inl [ErrEmptyType]" "rg_Load memory_scoped (sqlite_view L db) [] = Inl [ErrStreamNotFound]"
    using loadFrom_view [OF assms, of "[]"] by (simp_all add: regional_def memory_scoped_def memory_Load_def sqlite_absent_def)
  with True show ?thesis by (cases c) (auto simp: NewStream_def errors_Is_def sentinel_defs)
next
  case False
  then show ?thesis using memory_view_load [OF assms False] by (simp add: regional_def memory_scoped_def)
qed

lemma region_agrees:
  assumes "sqlite_inv L table db" "lg_clock l' = lg_clock l" "lg_rules l' = lg_rules l"
    and carried: "\<And>ex kd built e p. command_plan uc (lg_rules l) c (memory_Load (sqlite_view L db) (command_stream c)) = Inr (ex, kd, built) \<Longrightarrow>
      built (fst (ck_Now (lg_clock l) k)) = Inr (e, p) \<Longrightarrow> sqlite_storable L table db (command_stream c) e p"
  shows "agrees (so_Serialise (sqlite_store L) (command_stream c) (command_region uc l c) (db, k))
    (so_Serialise memory_store (command_stream c) (command_region uc l' c) (sqlite_view L db, k))"
proof -
  let ?n = "command_stream c" and ?rules = "lg_rules l"
  let ?dp = "command_plan uc ?rules c (rg_Load (regional L) db ?n)"
  let ?mp = "command_plan uc ?rules c (rg_Load memory_scoped (sqlite_view L db) ?n)"
  obtain now k1 where now: "ck_Now (lg_clock l) k = (now, k1)" by (cases "ck_Now (lg_clock l) k")
  consider pl where "?dp = Inr pl" "?mp = Inr pl" | e e' where "?dp = Inl e" "?mp = Inl e'"
    using same_plan [OF assms(1), of uc ?rules c] by (cases ?dp; cases ?mp) auto
  then show ?thesis
  proof cases
    case (1 pl)
    obtain ex kd built where pl: "pl = (ex, kd, built)" by (cases pl)
    have sto: "\<forall>e p. built now = Inr (e, p) \<longrightarrow> sqlite_storable L table db ?n e p"
      using carried [of ex kd built] 1(2) now by (simp add: pl memory_scoped_def)
    have dur: "command_region uc l c (regional L) (db, k) = commit (regional L) (db, k1) ?n ex kd (built now)"
      using 1(1) now by (simp add: region_planned pl)
    have mem: "command_region uc l' c memory_scoped (sqlite_view L db, k) = commit memory_scoped (sqlite_view L db, k1) ?n ex kd (built now)"
      using 1(2) now assms(2,3) by (simp add: region_planned pl)
    from durable.serialise_commit [where fn = "command_region uc l c" and m = ?n, OF assms(1) dur sto]
      memory.serialise_commit [where fn = "command_region uc l' c" and m = ?n, OF TrueI mem] same_agrees
    show ?thesis by fastforce
  next
    case (2 e e')
    have dur: "command_region uc l c (regional L) (db, k) = ((db, k), Inl e)"
      using 2(1) by (simp add: region_planned)
    have mem: "command_region uc l' c memory_scoped (sqlite_view L db, k) = ((sqlite_view L db, k), Inl e')"
      using 2(2) assms(3) by (simp add: region_planned)
    from durable.serialise_fails [where fn = "command_region uc l c" and m = ?n, OF assms(1) dur]
      memory.serialise_fails [where fn = "command_region uc l' c" and m = ?n, OF TrueI mem]
    show ?thesis by (auto simp: agrees_def)
  qed
qed

lemma run_agrees:
  assumes "sqlite_inv L table db" "lg_store l = sqlite_store L" "lg_store l' = memory_store"
    and "lg_clock l' = lg_clock l" "lg_rules l' = lg_rules l"
    and "\<And>ex kd built e p. command_plan uc (lg_rules l) c (memory_Load (sqlite_view L db) (command_stream c)) = Inr (ex, kd, built) \<Longrightarrow>
      built (fst (ck_Now (lg_clock l) k)) = Inr (e, p) \<Longrightarrow> sqlite_storable L table db (command_stream c) e p"
  shows "agrees (run uc l c (db, k)) (run uc l' c (sqlite_view L db, k))"
  using region_agrees [OF assms(1,4,5,6)] assms(1-3)
  by (auto simp: run_guarded agrees_def split: sum.split)

end

end
