(* ===== verification/Sqlite_Ledger.thy ===== *)
theory Sqlite_Ledger
  imports Sqlite_Store
begin

text \<open>
  What the durable store guarantees: it simulates the in-memory store, a ledger over it answers every
  command as one over memory does, a stream whose rows are not numbered 1, 2, 3, ... is refused by
  reads and by writes, and a file of another encoding is never opened. The last section instantiates
  the engine with a list of rows, \<open>list_libs\<close>, on which every law holds.
\<close>

section \<open>The range of the temporal columns\<close>

lemma nanos_exact_iff:
  "nanos_exact i \<longleftrightarrow> - (2 ^ 63) \<le> Time i - 62135596800 * 1000000000 \<and> Time i - 62135596800 * 1000000000 < 2 ^ 63"
  unfolding nanos_exact_def nanos_def signed_of_int by (simp add: signed_take_bit_int_eq_self_iff)

lemma nanos_exact_instant: "nanos_exact i \<Longrightarrow> instant_value_ok i"
  unfolding nanos_exact_iff instant_value_ok_def time_in_range_def by linarith

text \<open>What a well-made admission writes is carried by the encoding.\<close>

lemma accept_storable:
  assumes "command_value_ok (lb_unicode L) (lb_apd L) cmd" "accept_built cmd (Inr t) = Inr (e, p)" "nanos_exact t"
    and "ac_Stream cmd \<noteq> []" "length (stream_rows (table db) (ac_Stream cmd)) + 1 < 2 ^ 63"
    and "marshals L table db (ac_Stream cmd) e p"
  shows "sqlite_storable L table db (ac_Stream cmd) e p"
  using assms nanos_exact_instant [OF assms(3)]
  by (auto simp: sqlite_storable_def accept_built_def with_payload_Inr_iff envelope_for_Inr_iff Observed_Inr_iff
      command_value_ok_def envelope_value_ok_def coordinates_value_ok_def provenance_value_ok_def wf_provenance_def
      instant_value_ok_def time_in_range_def zeroInstant_def)

section \<open>Gaps\<close>

lemma replay_checks:
  assumes "replay L st rows = Inr st'"
  shows "st_name st' = st_name st \<and> length (st_facts st') = length (st_facts st) + length rows \<and>
    take (length (st_facts st)) (st_facts st') = st_facts st \<and>
    (\<forall>i < length rows. 0 \<le> fst (rows ! i) \<and>
       word_of_int (fst (rows ! i)) = (word_of_nat (length (st_facts st) + i + 1) :: u64) \<and>
       (\<exists>f. sqlite_decodeFact L (snd (rows ! i)) = Inr f \<and>
         fr_Sequence (f_ref f) = word_of_nat (length (st_facts st) + i + 1) \<and>
         st_facts st' ! (length (st_facts st) + i) =
           f\<lparr>f_ref := \<lparr>fr_Stream = st_name st, fr_Sequence = word_of_nat (length (st_facts st) + i + 1)\<rparr>\<rparr>))"
  using assms
proof (induction L st rows rule: replay.induct)
  case (2 L st stored encoded rows)
  let ?n = "length (st_facts st)"
  let ?seq = "word_of_nat (?n + 1) :: u64"
  from "2.prems" obtain f st1 r where f: "sqlite_decodeFact L encoded = Inr f" "0 \<le> stored"
      "word_of_int stored = ?seq" "fr_Sequence (f_ref f) = ?seq"
      "Stream_Append st (f_envelope f) (f_kind f) (Some (f_payload f)) = Inr (st1, r)" "replay L st1 rows = Inr st'"
    by (auto simp: Let_def Stream_Len_def add.commute split: if_splits)
  let ?g = "f\<lparr>f_ref := \<lparr>fr_Stream = st_name st, fr_Sequence = ?seq\<rparr>\<rparr>"
  from f(5) have st1: "st1 = st\<lparr>st_facts := st_facts st @ [?g]\<rparr>"
    by (auto simp: Stream_Append_def NewFact_def Stream_Len_def Let_def add.commute split: if_splits)
  have IH: "st_name st' = st_name st1 \<and> length (st_facts st') = length (st_facts st1) + length rows \<and>
    take (length (st_facts st1)) (st_facts st') = st_facts st1 \<and>
    (\<forall>i < length rows. 0 \<le> fst (rows ! i) \<and>
       word_of_int (fst (rows ! i)) = (word_of_nat (length (st_facts st1) + i + 1) :: u64) \<and>
       (\<exists>f. sqlite_decodeFact L (snd (rows ! i)) = Inr f \<and>
         fr_Sequence (f_ref f) = word_of_nat (length (st_facts st1) + i + 1) \<and>
         st_facts st' ! (length (st_facts st1) + i) =
           f\<lparr>f_ref := \<lparr>fr_Stream = st_name st1, fr_Sequence = word_of_nat (length (st_facts st1) + i + 1)\<rparr>\<rparr>))"
    by (rule "2.IH" [OF refl _ _ f(6), where x = f]) (use f in \<open>simp_all add: Stream_Len_def add.commute\<close>)
  then have pre: "take (Suc ?n) (st_facts st') = st_facts st @ [?g]" and len: "?n < length (st_facts st')"
    by (auto simp: st1)
  have "take ?n (st_facts st') = st_facts st" using arg_cong [OF pre, of "take ?n"] by simp
  moreover have "st_facts st' ! ?n = ?g" using arg_cong [OF pre, of "\<lambda>xs. xs ! ?n"] by simp
  ultimately show ?case using IH f(1-4) by (auto simp: st1 nth_Cons split: nat.split)
qed simp

lemma replay_append: "replay L st (xs @ ys) = bindR (replay L st xs) (\<lambda>st'. replay L st' ys)"
proof (induction L st xs rule: replay.induct)
  case (2 L st stored encoded rows)
  show ?case
  proof (cases "sqlite_decodeFact L encoded")
    case (Inr f)
    then show ?thesis
      using 2 by (cases "Stream_Append st (f_envelope f) (f_kind f) (Some (f_payload f))") (auto simp: Let_def)
  qed simp
qed simp

context durable_store
begin

text \<open>The rows of a good stream without the one at position \<open>length as + 1\<close>, which is not the last.\<close>

lemma missing_row:
  assumes stored: "list_all2 (row_holds L) (as @ r # b # bs) fs" "facts_stored L n fs"
    and rows: "stream_rows (table db) n = as @ b # bs"
  shows "loadFrom L db n = Inl [ErrGap]" "appendWithin L db n ex e kd p = (db, Inl [ErrGap])"
proof -
  let ?k = "length as"
  let ?out = "map (\<lambda>r. (row_sequence r, row_encoded r))"
  have len: "length fs = ?k + length bs + 2" using list_all2_lengthD [OF stored(1)] by simp
  have seqs: "map row_sequence (as @ r # b # bs) = map (\<lambda>i. int (i + 1)) [0..<length fs]"
    by (rule stored_sequences [OF stored])
  have n: "n \<noteq> []" using stored(2) len by (auto simp: facts_stored_def)
  have "sorted (map row_sequence (as @ r # b # bs))" unfolding seqs by (simp add: sorted_iff_nth_mono)
  then have sorted: "sort_key row_sequence (as @ b # bs) = as @ b # bs"
    by (intro sort_key_id_if_sorted) (simp add: sorted_append)
  obtain gs g gs' where fs: "fs = gs @ g # gs'" "list_all2 (row_holds L) as gs" "list_all2 (row_holds L) (r # b # bs) (g # gs')"
    using stored(1) by (auto simp: list_all2_append1 list_all2_Cons1)
  have gs: "length gs = ?k" using list_all2_lengthD [OF fs(2)] by simp
  obtain h hs where h: "gs' = h # hs" "row_holds L b h" using fs(3) by (auto simp: list_all2_Cons1)
  have ok: "list_all (fact_value_ok (lb_unicode L) (lb_apd L)) fs"
    using stored(2) by (auto simp: facts_stored_def elim: list.pred_mono_strong)
  have "replay L \<lparr>st_name = n, st_facts = []\<rparr> (?out as) = Inr \<lparr>st_name = n, st_facts = [] @ gs\<rparr>"
  proof (rule replay_rows [OF fs(2)])
    show "list_all (fact_value_ok (lb_unicode L) (lb_apd L)) gs" using ok fs(1) by simp
    have "f_ref (gs ! i) = \<lparr>fr_Stream = n, fr_Sequence = word_of_nat (i + 1)\<rparr>" if "i < length gs" for i
    proof -
      have "f_ref (fs ! i) = \<lparr>fr_Stream = n, fr_Sequence = word_of_nat (i + 1)\<rparr>"
        using stored(2) that fs(1) by (auto simp: facts_stored_def)
      then show ?thesis using that by (simp add: fs(1) nth_append)
    qed
    then show "\<forall>i < length gs. f_ref (gs ! i) = \<lparr>fr_Stream = n, fr_Sequence = word_of_nat (length ([] :: 'd Fact list) + i + 1)\<rparr>"
      by simp
  qed
  moreover have "sqlite_decodeFact L (row_encoded b) = Inr h"
    using h ok fs(1) by (intro decode_stored) (simp_all add: row_holds_def)
  moreover have b: "row_sequence b = int (?k + 2)"
  proof -
    have "?k + 1 < length fs" using len by simp
    then show ?thesis using arg_cong [OF seqs, of "\<lambda>xs. xs ! (?k + 1)"] by (simp add: nth_append del: upt_Suc)
  qed
  moreover have "word_of_int (int (?k + 2)) \<noteq> (word_of_nat ?k + 1 :: u64)"
  proof
    assume "word_of_int (int (?k + 2)) = (word_of_nat ?k + 1 :: u64)"
    moreover have "word_of_int (int (?k + 2)) = (word_of_nat ?k + 2 :: u64)" by simp
    ultimately show False by simp
  qed
  ultimately show "loadFrom L db n = Inl [ErrGap]"
    using n gs by (simp add: loadFrom_def facts_query rows sorted NewStream_def replay_append Let_def Stream_Len_def)
  have bound: "x \<le> int (length fs)" if "x \<in> set (map row_sequence (as @ r # b # bs))" for x
    using that unfolding seqs by auto
  have "map row_sequence (b # bs) = map (\<lambda>i. int (i + 1)) [?k + 1..<length fs]"
    using arg_cong [OF seqs, of "drop (?k + 1)"] by (simp add: drop_map)
  then have "int (length fs) \<in> set (map row_sequence (b # bs))" using len by (auto simp: image_iff)
  then have "Max (set (map row_sequence (as @ b # bs))) = int (length fs)"
    using bound by (intro Max_eqI) auto
  then have "max_of (map row_sequence (as @ b # bs)) = Some (int (length fs))" by (simp add: max_of_def)
  then show "appendWithin L db n ex e kd p = (db, Inl [ErrGap])"
    by (simp add: appendWithin_def extent_query rows len)
qed

lemma empty_inv: "table db = [] \<Longrightarrow> sqlite_inv L table db"
  unfolding sqlite_inv_def by (intro allI exI [of _ "[]"]) (simp add: stream_rows_def facts_stored_def)

lemma unnamed_append:
  assumes "stream_rows (table db) [] = []" "\<not> (ex_checked ex \<and> ex_length ex \<noteq> 0)"
    and "NewFact \<lparr>fr_Stream = [], fr_Sequence = 1\<rparr> e kd (Some p) = Inr f" "sqlite_encodeFact L f = Inr b"
  shows "\<exists>db'. sqlite_Append L db [] ex e kd (Some p) = (db', Inr \<lparr>fr_Stream = [], fr_Sequence = 1\<rparr>) \<and>
    length (table db') = length (table db) + 1"
proof -
  let ?row = "\<lparr>row_stream = [], row_sequence = 1, row_effective_from = nanos (iv_from (effective (ev_coordinates e))),
      row_knowledge = nanos (knowledge (ev_coordinates e)), row_encoded = b\<rparr>"
  have "\<exists>db'. db_insert (lb_sqlite L) db ?row = Inr db' \<and> table db' = table db @ [?row]"
    by (rule insert_row) (simp_all add: assms(1))
  then obtain db' where "db_insert (lb_sqlite L) db ?row = Inr db'" "table db' = table db @ [?row]" by blast
  then show ?thesis
    using assms by (auto simp: sqlite_Append_def appendWithin_def extent_query max_of_def Expectation_Length_def Let_def)
qed

end

lemma exec_all_keeps:
  assumes "sqlite_file_law D" "exec_all D db sts = Inr db'" "list_all (\<lambda>st. st \<noteq> Create_facts \<and> (\<forall>v. st \<noteq> Set_user_version v)) sts"
  shows "sf_user_version D db' = sf_user_version D db \<and> sf_facts_tables D db' = sf_facts_tables D db \<and>
    sf_facts_rows D db' = sf_facts_rows D db"
  using assms(2,1,3)
proof (induction D db sts rule: exec_all.induct)
  case (2 D db st sts)
  then obtain db1 where "sf_Exec D db st = Inr db1" "exec_all D db1 sts = Inr db'" by auto
  moreover have "sf_user_version D db1 = sf_user_version D db \<and> sf_facts_tables D db1 = sf_facts_tables D db \<and>
      sf_facts_rows D db1 = sf_facts_rows D db"
    using "2.prems"(2,3) \<open>sf_Exec D db st = Inr db1\<close> by (cases st) (simp_all add: sqlite_file_law_def)
  ultimately show ?case using 2 by simp
qed simp

lemma exec_marks:
  "sqlite_file_law D \<Longrightarrow> sf_Exec D db (Set_user_version v) = Inr db' \<Longrightarrow> sf_user_version D db' = Inr v"
  by (auto simp: sqlite_file_law_def dest: spec)

lemma exec_schema: "sqlite_file_law D \<Longrightarrow> sf_Exec D db schema = Inr db' \<Longrightarrow> sf_user_version D db' = sf_user_version D db"
  by (auto simp: sqlite_file_law_def schema_def dest: spec)

text \<open>The marker of a file, once opened.\<close>

lemma sqlite_Open_marked:
  assumes "sqlite_file_law D" "sqlite_Open D dsn = Inr db"
  shows "sf_user_version D db = Inr encodingOrderableInteger"
proof -
  from assms(2) obtain db1 db2 where db: "assertEncoding D db1 = Inr db2" "sf_Exec D db2 schema = Inr db"
    by (auto simp: sqlite_Open_def)
  have "sf_user_version D db2 = Inr encodingOrderableInteger"
    using db(1) by (auto simp: assertEncoding_def exec_marks [OF assms(1)] split: if_splits)
  then show ?thesis using exec_schema [OF assms(1) db(2)] by simp
qed

section \<open>An engine that may fail\<close>

lemma max_of_less: "(case max_of xs of None \<Rightarrow> False | Some m \<Rightarrow> y \<le> m) \<longleftrightarrow> \<not> (\<forall>x \<in> set xs. x < y)"
  by (auto simp: max_of_def Max_ge_iff not_less split: if_splits)

text \<open>The row a transaction adds, numbered after the rows its stream has, and later than all of them.\<close>

definition extends_by ::
  "('db, 'blob, 'ts, 'any, 'd) libs \<Rightarrow> 'blob Row list \<Rightarrow> string \<Rightarrow> 'blob Row \<Rightarrow> FactRef \<Rightarrow> bool" where
  "extends_by L rows n row ref \<longleftrightarrow> ref = \<lparr>fr_Stream = n, fr_Sequence = word_of_nat (length (stream_rows rows n) + 1)\<rparr> \<and>
     (\<exists>f. f_ref f = ref \<and> row_holds L row f) \<and> (\<forall>r \<in> set (stream_rows rows n). row_knowledge r < row_knowledge row)"

lemma appendWithin_failstop:
  assumes "sqlite_failstop (lb_sqlite L) table" "appendWithin L db n ex e kd p = (tx, res)"
  shows "case res of Inl _ \<Rightarrow> tx = db | Inr ref \<Rightarrow> \<exists>row f. table tx = table db @ [row] \<and> extends_by L (table db) n row ref \<and>
    row_holds L row f \<and> NewFact ref e kd p = Inr f"
proof (cases res)
  case (Inl err)
  then show ?thesis using assms(2)
    by (auto simp: appendWithin_def Let_def split: sum.splits prod.splits if_splits)
next
  case (Inr ref)
  let ?len = "int (length (stream_rows (table db) n))"
  let ?highest = "max_of (map row_sequence (stream_rows (table db) n))"
  let ?latest = "max_of (map row_knowledge (stream_rows (table db) n))"
  let ?know = "nanos (knowledge (ev_coordinates e))"
  let ?top = "case ?highest of None \<Rightarrow> 0 | Some h \<Rightarrow> h"
  obtain x where x: "db_extent (lb_sqlite L) db n = Inr x"
    using assms(2) Inr by (cases "db_extent (lb_sqlite L) db n") (simp_all add: appendWithin_def)
  have extent: "db_extent (lb_sqlite L) db n = Inr (?len, ?highest, ?latest)"
    using assms(1) x unfolding sqlite_failstop_def by blast
  have top: "?top = ?len" if "?highest = None \<or> ?highest = Some ?len"
    using that by (auto simp: max_of_def split: if_splits)
  obtain f b where f: "?highest = None \<or> ?highest = Some ?len" "\<not> (case ?latest of None \<Rightarrow> False | Some m \<Rightarrow> ?know \<le> m)"
      "ref = \<lparr>fr_Stream = n, fr_Sequence = word_of_int ?top + 1\<rparr>" "NewFact ref e kd p = Inr f" "sqlite_encodeFact L f = Inr b"
      "db_insert (lb_sqlite L) db \<lparr>row_stream = n, row_sequence = uint (fr_Sequence ref),
         row_effective_from = nanos (iv_from (effective (ev_coordinates e))), row_knowledge = ?know, row_encoded = b\<rparr> = Inr tx"
    using assms(2) Inr extent
    by (auto simp: appendWithin_def Let_def split: sum.splits prod.splits if_splits)
  have "row_holds L \<lparr>row_stream = n, row_sequence = uint (fr_Sequence ref),
      row_effective_from = nanos (iv_from (effective (ev_coordinates e))), row_knowledge = ?know, row_encoded = b\<rparr> f"
    "f_ref f = ref"
    using f(3-5) by (auto simp: NewFact_def row_holds_def split: if_splits option.splits)
  moreover from calculation have "extends_by L (table db) n \<lparr>row_stream = n, row_sequence = uint (fr_Sequence ref),
      row_effective_from = nanos (iv_from (effective (ev_coordinates e))), row_knowledge = ?know, row_encoded = b\<rparr> ref"
    using f(2,3) top [OF f(1)] unfolding extends_by_def max_of_less by (auto simp: add.commute)
  moreover have "table tx = table db @ [\<lparr>row_stream = n, row_sequence = uint (fr_Sequence ref),
      row_effective_from = nanos (iv_from (effective (ev_coordinates e))), row_knowledge = ?know, row_encoded = b\<rparr>]"
    using assms(1) f(6) unfolding sqlite_failstop_def by blast
  ultimately show ?thesis using Inr f(4) by auto
qed

text \<open>A transaction that ends with an error leaves the table it began with, whichever statement failed.\<close>

lemma end_tx_failstop:
  assumes "sqlite_failstop D table" "end_tx D db tx res = (db', res')"
  shows "case res' of Inl _ \<Rightarrow> table db' = table db | Inr ref \<Rightarrow> res = Inr ref \<and> table db' = table tx"
  using assms unfolding end_tx_def sqlite_failstop_def
  by (auto split: sum.splits prod.splits)

lemma region_failstop:
  assumes "sqlite_failstop (lb_sqlite L) table" "command_region uc l c (regional L) (db, k) = ((tx, k'), Inr ref)"
  shows "\<exists>row f kd e p. table tx = table db @ [row] \<and> extends_by L (table db) (command_stream c) row ref \<and>
    row_holds L row f \<and> NewFact ref e kd (Some p) = Inr f \<and>
    (\<exists>ex built. command_plan uc (lg_rules l) c (loadFrom L db (command_stream c)) = Inr (ex, kd, built) \<and>
      built (fst (ck_Now (lg_clock l) k)) = Inr (e, p) \<and> k' = snd (ck_Now (lg_clock l) k))"
proof -
  obtain ex kd built where pl: "command_plan uc (lg_rules l) c (loadFrom L db (command_stream c)) = Inr (ex, kd, built)"
    using assms(2) by (auto simp: region_planned regional_def split: sum.splits)
  then have c: "commit (regional L) (db, snd (ck_Now (lg_clock l) k)) (command_stream c) ex kd (built (fst (ck_Now (lg_clock l) k))) =
      ((tx, k'), Inr ref)"
    using assms(2) by (simp add: region_planned regional_def split_def)
  then obtain e p where ep: "built (fst (ck_Now (lg_clock l) k)) = Inr (e, p)"
    by (cases "built (fst (ck_Now (lg_clock l) k))") (auto simp: commit_def)
  with c have "appendWithin L db (command_stream c) ex e kd (Some p) = (tx, Inr ref)" "k' = snd (ck_Now (lg_clock l) k)"
    by (auto simp: commit_def regional_def split: prod.splits)
  with appendWithin_failstop [OF assms(1) this(1)] pl ep show ?thesis by auto
qed

text \<open>Whatever fails, a command that answers an error has left the table alone, and one that answers a
  reference has added the row of the fact its plan builds at the clock's reading.\<close>

lemma run_failstop:
  assumes "sqlite_failstop (lb_sqlite L) table" "lg_store l = sqlite_store L" "run uc l c (db, k) = ((db', k'), res)"
  shows "case res of
      Inl _ \<Rightarrow> table db' = table db
    | Inr ref \<Rightarrow> \<exists>row f kd e p. table db' = table db @ [row] \<and> extends_by L (table db) (command_stream c) row ref \<and>
        row_holds L row f \<and> NewFact ref e kd (Some p) = Inr f \<and>
        (\<exists>ex built. command_plan uc (lg_rules l) c (loadFrom L db (command_stream c)) = Inr (ex, kd, built) \<and>
          built (fst (ck_Now (lg_clock l) k)) = Inr (e, p) \<and> k' = snd (ck_Now (lg_clock l) k))"
proof (cases res)
  case (Inl e)
  then show ?thesis using assms(2,3) end_tx_failstop [OF assms(1)]
    by (auto simp: run_guarded sqlite_store_def sqlite_Serialise_def split: sum.splits prod.splits) force
next
  case (Inr ref)
  then obtain tx res1 where tx: "command_region uc l c (regional L) (db, k) = ((tx, k'), res1)"
      "end_tx (lb_sqlite L) db tx res1 = (db', Inr ref)"
    using assms(2,3) by (auto simp: run_guarded sqlite_store_def sqlite_Serialise_def split: sum.splits prod.splits)
  have ended: "res1 = Inr ref" "table db' = table tx" using end_tx_failstop [OF assms(1) tx(2)] by simp_all
  show ?thesis using region_failstop [OF assms(1) tx(1) [unfolded ended(1)]] ended(2) Inr by simp
qed

lemma few_rows: "length rows + 1 < 2 ^ 63 \<Longrightarrow> length (stream_rows rows n) + 1 < 2 ^ 63"
  using length_filter_le [of "\<lambda>r. row_stream r = n" rows] unfolding stream_rows_def by linarith

section \<open>Properties\<close>

text \<open>C14: the durable store refines the in-memory one. Writing a fact the encoding can carry answers
  exactly what the in-memory store answers on the streams the table holds, the same reference or the
  same refusal, leaves a table that holds exactly the streams the in-memory store then holds, and
  every named stream reads back the same from both.\<close>

theorem durable_append_refines:
  assumes laws: "sqlite_law (lb_sqlite L) table" "proto_law (lb_proto L)" "timestamppb_exact (lb_time L)" "anypb_exact (lb_any L)"
    and state: "sqlite_inv L table db" "sqlite_storable L table db n e p"
  shows "\<exists>db' s' res. sqlite_Append L db n ex e kd (Some p) = (db', res) \<and>
    memory_Append (sqlite_view L db) n ex e kd (Some p) = (s', res) \<and> sqlite_inv L table db' \<and> sqlite_view L db' = s' \<and>
    (\<forall>m. m \<noteq> [] \<longrightarrow> loadFrom L db' m = memory_Load s' m)"
proof -
  have d: "durable_store L table" by (rule durable_store.intro [OF laws])
  show ?thesis
    using durable_store.sqlite_Append_refines [OF d state, of ex kd] durable_store.memory_view_load [OF d]
    by (metis prod.collapse)
qed

text \<open>C9: a ledger over the durable store and a ledger over the in-memory store that hold the same
  streams and have the same clock and rules do the same. Every command, all five use cases, leaves
  them holding the same streams and the clock in the same state, and both answer with the same
  reference, or both refuse; provided the fact the command would write is one the encoding carries.\<close>

theorem durable_ledger_agrees:
  assumes laws: "sqlite_law (lb_sqlite L) table" "proto_law (lb_proto L)" "timestamppb_exact (lb_time L)" "anypb_exact (lb_any L)"
    and ledgers: "lg_store l = sqlite_store L" "lg_store l' = memory_store" "lg_clock l' = lg_clock l" "lg_rules l' = lg_rules l"
    and state: "sqlite_inv L table db"
    and carried: "\<And>ex kd built e p. command_plan uc (lg_rules l) c (memory_Load (sqlite_view L db) (command_stream c)) = Inr (ex, kd, built) \<Longrightarrow>
      built (fst (ck_Now (lg_clock l) k)) = Inr (e, p) \<Longrightarrow> sqlite_storable L table db (command_stream c) e p"
  shows "\<exists>db' k' res s' res'. run uc l c (db, k) = ((db', k'), res) \<and> run uc l' c (sqlite_view L db, k) = ((s', k'), res') \<and>
    sqlite_inv L table db' \<and> sqlite_view L db' = s' \<and> (res = res' \<or> \<not> is_ok res \<and> \<not> is_ok res')"
proof -
  have d: "durable_store L table" by (rule durable_store.intro [OF laws])
  have "durable_store.agrees L table (run uc l c (db, k)) (run uc l' c (sqlite_view L db, k))"
    by (rule durable_store.run_agrees [OF d state ledgers]) (rule carried)
  then show ?thesis
    by (cases "run uc l c (db, k)"; cases "run uc l' c (sqlite_view L db, k)") (auto simp: durable_store.agrees_def [OF d])
qed

text \<open>C18: a row lost from the middle of a stream is never papered over. When one row that is not the
  last of a good stream is missing, reading the stream and appending to it both answer that it has a
  gap, whatever the caller expects and whatever it appends, and the table is left as it is.\<close>

theorem missing_row_refused:
  assumes laws: "sqlite_law (lb_sqlite L) table" "proto_law (lb_proto L)" "timestamppb_exact (lb_time L)" "anypb_exact (lb_any L)"
    and good: "sqlite_inv L table db"
    and rows: "stream_rows (table db) n = as @ r # bs" "bs \<noteq> []" "stream_rows (table db') n = as @ bs"
  shows "loadFrom L db' n = Inl [ErrGap] \<and> sqlite_Append L db' n ex e kd p = (db', Inl [ErrGap]) \<and>
    appendWithin L db' n ex e kd p = (db', Inl [ErrGap])"
proof -
  have d: "durable_store L table" by (rule durable_store.intro [OF laws])
  obtain b bs' where bs: "bs = b # bs'" using rows(2) by (cases bs) auto
  obtain fs where fs: "list_all2 (row_holds L) (as @ r # b # bs') fs" "facts_stored L n fs"
    using good rows(1) bs unfolding sqlite_inv_def by metis
  note m = durable_store.missing_row [OF d fs rows(3) [unfolded bs]]
  then show ?thesis by (simp add: sqlite_Append_def durable_store.transactions [OF d])
qed

text \<open>C19: a stream that loads is the stream the rows say. Whatever the table holds, tampered with or
  not, when a load returns a stream its rows were numbered 1, 2, 3, ... without a gap, each row's
  fact carries the row's own number, and the stream is those facts in that order under that name:
  replay never renumbers.\<close>

theorem load_never_renumbers:
  assumes "db_facts (lb_sqlite L) db n = Inr rows" "length rows < 2 ^ 63" "\<forall>(stored, _) \<in> set rows. stored < 2 ^ 63"
    and "loadFrom L db n = Inr st"
  shows "rows \<noteq> [] \<and> st_name st = n \<and> map fst rows = map (\<lambda>i. int (i + 1)) [0..<length rows] \<and>
    length (st_facts st) = length rows \<and>
    (\<forall>i < length rows. \<exists>f. sqlite_decodeFact L (snd (rows ! i)) = Inr f \<and> uint (fr_Sequence (f_ref f)) = fst (rows ! i) \<and>
       st_facts st ! i = f\<lparr>f_ref := \<lparr>fr_Stream = n, fr_Sequence = word_of_nat (i + 1)\<rparr>\<rparr>)"
proof -
  from assms(1,4) have r: "replay L \<lparr>st_name = n, st_facts = []\<rparr> rows = Inr st" "rows \<noteq> []"
    by (auto simp: loadFrom_def NewStream_def split: if_splits)
  note checks = replay_checks [OF r(1), simplified]
  have seq: "fst (rows ! i) = int (i + 1)" if "i < length rows" for i
  proof -
    have range: "0 \<le> fst (rows ! i)" "fst (rows ! i) < 2 ^ 63"
      using checks that assms(3) nth_mem [OF that] by (auto simp: case_prod_beta)
    have "word_of_int (fst (rows ! i)) = (word_of_nat (i + 1) :: u64)" using checks that by auto
    then have "uint (word_of_int (fst (rows ! i)) :: u64) = uint (word_of_nat (i + 1) :: u64)" by simp
    also have "\<dots> = int (i + 1)" using that assms(2) by (intro uint_sequence) simp
    finally show ?thesis using range by (simp add: unsigned_of_int take_bit_int_eq_self)
  qed
  then have "map fst rows = map (\<lambda>i. int (i + 1)) [0..<length rows]" by (auto intro: nth_equalityI)
  moreover have "\<exists>f. sqlite_decodeFact L (snd (rows ! i)) = Inr f \<and> uint (fr_Sequence (f_ref f)) = fst (rows ! i) \<and>
       st_facts st ! i = f\<lparr>f_ref := \<lparr>fr_Stream = n, fr_Sequence = word_of_nat (i + 1)\<rparr>\<rparr>" if "i < length rows" for i
  proof -
    have "uint (word_of_nat (i + 1) :: u64) = int (i + 1)" using that assms(2) by (intro uint_sequence) simp
    then show ?thesis using checks that seq [OF that] by (auto dest!: spec [of _ i])
  qed
  ultimately show ?thesis using r(2) checks by simp
qed

text \<open>C31: a file whose facts this build cannot order is never opened. When opening succeeds the file
  carries the current encoding's marker, and it carried it already or it held no fact; a file that
  holds facts and no marker, and a file marked with any other encoding, are refused by name.\<close>

theorem open_checks_encoding:
  assumes "sqlite_file_law D" "sf_Open D (dsn @ ''?_txlock=immediate'') = Inr file"
  shows "(\<forall>db. sqlite_Open D dsn = Inr db \<longrightarrow>
      sf_user_version D db = Inr encodingOrderableInteger \<and>
      (sf_user_version D file = Inr encodingOrderableInteger \<or>
       sf_user_version D file = Inr 0 \<and>
       (\<exists>facts rows. sf_facts_tables D file = Inr facts \<and>
          (facts \<le> 0 \<or> sf_facts_rows D file = Inr rows \<and> rows \<le> 0)))) \<and>
    (\<forall>version facts rows. is_ok (exec_all D file pragmas) \<and> sf_user_version D file = Inr version \<and>
       version \<noteq> encodingOrderableInteger \<and>
       (version = 0 \<longrightarrow> sf_facts_tables D file = Inr facts \<and> facts > 0 \<and> sf_facts_rows D file = Inr rows \<and> rows > 0) \<longrightarrow>
       sqlite_Open D dsn = Inl [ErrEncodingVersion])"
proof (cases "exec_all D file pragmas")
  case (Inl e)
  then show ?thesis using assms(2) by (simp add: sqlite_Open_def)
next
  case (Inr db1)
  have kept: "sf_user_version D db1 = sf_user_version D file" "sf_facts_tables D db1 = sf_facts_tables D file"
    "sf_facts_rows D db1 = sf_facts_rows D file"
    using exec_all_keeps [OF assms(1) Inr] by (simp_all add: pragmas_def)
  note marked = sqlite_Open_marked [OF assms(1), unfolded encodingOrderableInteger_def]
  have "sqlite_Open D dsn = bindR (assertEncoding D db1) (\<lambda>db. sf_Exec D db schema)"
    using assms(2) Inr by (simp add: sqlite_Open_def)
  then show ?thesis using Inr
    by (auto simp: assertEncoding_def kept encodingOrderableInteger_def dest: marked split: if_splits)
qed

text \<open>C36: the durable store accepts a stream with no name and can never read it back. Under the
  empty name, which the in-memory store refuses before writing, the durable append succeeds, returns
  a reference and adds a row; every load of the stream then fails.\<close>

theorem unnamed_stream_unreadable:
  assumes laws: "sqlite_law (lb_sqlite L) table" "proto_law (lb_proto L)" "timestamppb_exact (lb_time L)" "anypb_exact (lb_any L)"
    and fresh: "stream_rows (table db) [] = []"
    and fact: "NewFact \<lparr>fr_Stream = [], fr_Sequence = 1\<rparr> e kd (Some p) = Inr f" "is_ok (sqlite_encodeFact L f)"
  shows "\<exists>db'. sqlite_Append L db [] Any e kd (Some p) = (db', Inr \<lparr>fr_Stream = [], fr_Sequence = 1\<rparr>) \<and>
    length (table db') = length (table db) + 1 \<and> loadFrom L db' [] = Inl [ErrEmptyType] \<and>
    memory_Append NewStore [] Any e kd (Some p) = (NewStore, Inl [ErrEmptyType])"
proof -
  have d: "durable_store L table" by (rule durable_store.intro [OF laws])
  obtain b where "sqlite_encodeFact L f = Inr b" using fact(2) by (auto simp: is_ok_iff)
  from durable_store.unnamed_append [OF d fresh _ fact(1) this, of Any] show ?thesis
    by (auto simp: Any_def loadFrom_def durable_store.facts_query [OF d] NewStream_def memory_Append_spec append_spec_def NewStore_def)
qed

text \<open>C10: no fault of the engine makes the ledger lie. Let any statement fail at any moment, \<^verbatim>\<open>BEGIN\<close>, a
  query, the insert, \<^verbatim>\<open>COMMIT\<close> or a rollback, whatever the rows of the table are. A command, any of the five, that
  answers an error has left the table as it was; one that answers a reference has added exactly one
  row, in the command's stream, numbered as the reference says and just after the stream's rows, later in
  knowledge than each of them, which holds the encoding of a fact with that reference.\<close>

theorem faults_never_lie:
  assumes "sqlite_failstop (lb_sqlite L) table" "lg_store l = sqlite_store L" "run uc l c (db, k) = ((db', k'), res)"
    and "length (table db) + 1 < 2 ^ 63"
  shows "case res of
      Inl _ \<Rightarrow> table db' = table db
    | Inr ref \<Rightarrow> \<exists>row f. table db' = table db @ [row] \<and> f_ref f = ref \<and> sqlite_encodeFact L f = Inr (row_encoded row) \<and>
        fr_Stream ref = command_stream c \<and> row_stream row = command_stream c \<and> row_sequence row = uint (fr_Sequence ref) \<and>
        row_sequence row = int (length (stream_rows (table db) (command_stream c))) + 1 \<and> row_knowledge row = nanos (fact_knowledge f) \<and>
        (\<forall>r \<in> set (stream_rows (table db) (command_stream c)). row_knowledge r < row_knowledge row)"
proof (cases res)
  case (Inl e)
  then show ?thesis using run_failstop [OF assms(1-3)] by simp
next
  case (Inr ref)
  then obtain row where "table db' = table db @ [row]" "extends_by L (table db) (command_stream c) row ref"
    using run_failstop [OF assms(1-3)] by auto
  then show ?thesis using Inr uint_sequence [OF few_rows [OF assms(4)], of "command_stream c"]
    by (auto simp: extends_by_def row_holds_def)
qed

section \<open>A table held as a list of rows\<close>

definition list_sqlite :: "('blob Row list, 'blob) sqlite" where
  "list_sqlite = \<lparr>
     db_facts = (\<lambda>db n. Inr (map (\<lambda>r. (row_sequence r, row_encoded r)) (sort_key row_sequence (stream_rows db n)))),
     db_extent = (\<lambda>db n. Inr (int (length (stream_rows db n)), max_of (map row_sequence (stream_rows db n)),
       max_of (map row_knowledge (stream_rows db n)))),
     db_insert = (\<lambda>db row. if row_sequence row \<in> set (map row_sequence (stream_rows db (row_stream row)))
       then Inl [''UNIQUE constraint failed''] else Inr (db @ [row])),
     db_begin = (\<lambda>_. Inr ()), db_commit = (\<lambda>db tx. (tx, Inr ())), db_rollback = (\<lambda>_. Inr ())\<rparr>"

definition direct_proto :: "(('ts, 'any) pb_Fact, 'ts, 'any) proto" where
  "direct_proto = \<lparr>pr_Marshal = Inr, pr_Unmarshal = Inr\<rparr>"

definition list_libs ::
  "(((64 word \<times> 32 word, PayloadMsg) pb_Fact) Row list, (64 word \<times> 32 word, PayloadMsg) pb_Fact,
    64 word \<times> 32 word, PayloadMsg, int) libs" where
  "list_libs = \<lparr>lb_sqlite = list_sqlite, lb_proto = direct_proto, lb_time = unix_timestamppb, lb_any = direct_anypb,
     lb_apd = int_apd, lb_unicode = unicode_ascii\<rparr>"

lemma list_laws:
  "sqlite_law (lb_sqlite list_libs) (\<lambda>db. db)" "proto_law (lb_proto list_libs)"
  "timestamppb_exact (lb_time list_libs)" "anypb_exact (lb_any list_libs)"
  by (simp_all add: list_libs_def sqlite_law_def list_sqlite_def proto_law_def direct_proto_def unix_timestamppb_exact
      direct_anypb_exact)

interpretation list_durable: durable_store list_libs "\<lambda>db. db"
  by (rule durable_store.intro [OF list_laws])

section \<open>Witnesses\<close>

lemma list_encodes: "is_ok (sqlite_encodeFact list_libs f)"
  by (simp add: sqlite_encodeFact_def list_libs_def EncodeFact_def direct_anypb_def direct_proto_def)

lemma list_marshals: "marshals list_libs table db n e p"
  by (simp add: marshals_def list_encodes)

text \<open>Facts known in 1997, at the second the argument adds.\<close>

definition durable_known :: "int \<Rightarrow> Instant" where
  "durable_known s = Instant ((63000000000 + s) * 1000000000)"

definition durable_envelope :: "int \<Rightarrow> Envelope" where
  "durable_envelope s = \<lparr>ev_coordinates = wire_coordinates\<lparr>knowledge := durable_known s\<rparr>, ev_provenance = wire_provenance,
     ev_references = [wire_binding]\<rparr>"

definition durable_fact :: "u64 \<Rightarrow> int \<Rightarrow> int Fact" where
  "durable_fact q s = \<lparr>f_ref = \<lparr>fr_Stream = ''l'', fr_Sequence = q\<rparr>, f_envelope = durable_envelope s,
     f_kind = KindObservation, f_payload = f_payload wire_fact\<rparr>"

definition durable_row :: "int Fact \<Rightarrow> (64 word \<times> 32 word, PayloadMsg) pb_Fact Row" where
  "durable_row f = \<lparr>row_stream = fr_Stream (f_ref f), row_sequence = uint (fr_Sequence (f_ref f)),
     row_effective_from = nanos (iv_from (effective (ev_coordinates (f_envelope f)))),
     row_knowledge = nanos (fact_knowledge f), row_encoded = projr (sqlite_encodeFact list_libs f)\<rparr>"

lemma durable_known_ok:
  assumes "0 \<le> s" "s < 1000"
  shows "nanos_exact (durable_known s)" "instant_value_ok (durable_known s)" "durable_known s \<noteq> zeroInstant"
  using assms
  by (auto simp: nanos_exact_iff durable_known_def zeroInstant_def intro!: nanos_exact_instant)

lemma durable_envelope_ok: "0 \<le> s \<Longrightarrow> s < 1000 \<Longrightarrow> envelope_value_ok (durable_envelope s)"
  using wire_coordinates_ok wire_provenance_ok wire_binding_ok durable_known_ok [of s]
  by (simp add: durable_envelope_def envelope_value_ok_def coordinates_value_ok_def)

lemma durable_payload_ok: "payload_value_ok unicode_ascii int_apd (f_payload wire_fact)"
  using wire_fact_ok [of unicode_ascii] by (simp add: fact_value_ok_def)

lemma durable_storable: "sqlite_storable list_libs (\<lambda>db. db) [] ''l'' (durable_envelope 0) (f_payload wire_fact)"
  using durable_envelope_ok [of 0] durable_payload_ok durable_known_ok [of 0] list_marshals
  by (simp add: sqlite_storable_def stream_rows_def list_libs_def) (simp add: durable_envelope_def)

theorem durable_append_refines_witness:
  "\<exists>db' res. sqlite_Append list_libs [] ''l'' Any (durable_envelope 0) KindObservation (Some (f_payload wire_fact)) = (db', res) \<and>
     snd (memory_Append (sqlite_view list_libs []) ''l'' Any (durable_envelope 0) KindObservation (Some (f_payload wire_fact))) = res"
  using durable_append_refines [OF list_laws list_durable.empty_inv [OF refl] durable_storable, of Any KindObservation] by auto

definition durable_command :: "int AcceptHoldingClaimCommand" where
  "durable_command = wire_command\<lparr>ac_Source := sample_source\<rparr>"

lemma durable_command_ok: "command_value_ok unicode_ascii int_apd durable_command"
proof -
  have zeros: "replicate 64 (CHR ''0'') = ''0000000000000000000000000000000000000000000000000000000000000000''"
    by (simp add: numeral_eq_Suc)
  have "NewSource (Source_value sample_source) = Inr sample_source"
    by (simp only: sample_source_def Source.sel) (simp add: NewSource_def ascii_eval zeros)
  then show ?thesis using wire_command_ok by (simp add: durable_command_def command_value_ok_def)
qed

definition durable_ledger where
  "durable_ledger = \<lparr>lg_store = sqlite_store list_libs, lg_clock = \<lparr>ck_Now = Fixed_Now\<rparr>, lg_rules = shipped_ruleset\<rparr>"

lemma durable_view_empty: "sqlite_view list_libs [] = NewStore"
  by (rule ext) (simp add: sqlite_view_def loadFrom_def NewStore_def list_libs_def list_sqlite_def stream_rows_def NewStream_def)

theorem durable_ledger_agrees_witness:
  "\<exists>db' k' res s' res'. run unicode_ascii durable_ledger (AcceptHoldingClaimC durable_command) ([], durable_known 0) = ((db', k'), res) \<and>
     run unicode_ascii sample_ledger (AcceptHoldingClaimC durable_command) (NewStore, durable_known 0) = ((s', k'), res') \<and>
     sqlite_view list_libs db' = s' \<and> (res = res' \<or> \<not> is_ok res \<and> \<not> is_ok res')"
proof -
  have "sqlite_storable list_libs (\<lambda>db. db) [] (ac_Stream durable_command) e p"
    if "accept_built durable_command (Inr (durable_known 0)) = Inr (e, p)" for e p
    using that durable_command_ok durable_known_ok [of 0] list_marshals
    by (intro accept_storable) (simp_all add: list_libs_def durable_command_def wire_command_def stream_rows_def)
  then show ?thesis
    using durable_ledger_agrees [OF list_laws _ _ _ _ list_durable.empty_inv [OF refl], of durable_ledger sample_ledger unicode_ascii
        "AcceptHoldingClaimC durable_command" "durable_known 0"]
    by (fastforce simp: durable_ledger_def sample_ledger_def durable_view_empty Fixed_Now_def)
qed

lemma durable_row_stream [simp]: "row_stream (durable_row (durable_fact q s)) = ''l''"
  by (simp add: durable_row_def durable_fact_def)

lemma durable_rows_good:
  "sqlite_inv list_libs (\<lambda>db. db) [durable_row (durable_fact 1 0), durable_row (durable_fact 2 1)]"
proof -
  have rows: "row_holds list_libs (durable_row f) f" for f
    using list_encodes [of f] by (auto simp: row_holds_def durable_row_def is_ok_iff)
  have fs: "facts_stored list_libs ''l'' [durable_fact 1 0, durable_fact 2 1]"
    using durable_envelope_ok [of 0] durable_envelope_ok [of 1] durable_payload_ok durable_known_ok [of 0] durable_known_ok [of 1]
    by (simp add: facts_stored_def fact_value_ok_def ref_value_ok_def durable_fact_def list_libs_def FactKind_Valid_def
        less_Suc_eq all_conj_distrib)
       (simp add: durable_envelope_def durable_known_def less_Instant_def)
  show ?thesis
    unfolding sqlite_inv_def
  proof
    fix n
    show "\<exists>fs. list_all2 (row_holds list_libs) (stream_rows [durable_row (durable_fact 1 0), durable_row (durable_fact 2 1)] n) fs \<and>
        facts_stored list_libs n fs"
    proof (cases "n = ''l''")
      case True
      then show ?thesis using rows fs
        by (intro exI [of _ "[durable_fact 1 0, durable_fact 2 1]"]) (simp add: stream_rows_def)
    next
      case False
      then show ?thesis
        by (intro exI [of _ "[]"]) (simp add: stream_rows_def facts_stored_def)
    qed
  qed
qed

theorem missing_row_refused_witness:
  "loadFrom list_libs [durable_row (durable_fact 2 1)] ''l'' = Inl [ErrGap] \<and>
   snd (sqlite_Append list_libs [durable_row (durable_fact 2 1)] ''l'' Any (durable_envelope 2) KindObservation
     (Some (f_payload wire_fact))) = Inl [ErrGap]"
  using missing_row_refused [OF list_laws durable_rows_good, of "''l''" "[]" "durable_row (durable_fact 1 0)"
      "[durable_row (durable_fact 2 1)]" "[durable_row (durable_fact 2 1)]" Any "durable_envelope 2" KindObservation
      "Some (f_payload wire_fact)"]
  by (simp add: stream_rows_def)

lemma durable_rows_load:
  "\<exists>st. loadFrom list_libs [durable_row (durable_fact 1 0), durable_row (durable_fact 2 1)] ''l'' = Inr st"
proof -
  obtain fs where fs: "list_all2 (row_holds list_libs)
      (stream_rows [durable_row (durable_fact 1 0), durable_row (durable_fact 2 1)] ''l'') fs" "facts_stored list_libs ''l'' fs"
    using durable_rows_good unfolding sqlite_inv_def by metis
  then have "fs \<noteq> []" by (auto simp: stream_rows_def)
  with list_durable.loadFrom_stored [OF fs] show ?thesis by simp
qed

theorem load_never_renumbers_witness:
  "\<exists>st. loadFrom list_libs [durable_row (durable_fact 1 0), durable_row (durable_fact 2 1)] ''l'' = Inr st \<and>
     st_name st = ''l'' \<and> length (st_facts st) = 2"
proof -
  let ?db = "[durable_row (durable_fact 1 0), durable_row (durable_fact 2 1)]"
  obtain st where st: "loadFrom list_libs ?db ''l'' = Inr st" using durable_rows_load by blast
  have q: "row_sequence (durable_row (durable_fact 1 0)) = 1" "row_sequence (durable_row (durable_fact 2 1)) = 2"
    by (simp_all add: durable_row_def durable_fact_def)
  have "db_facts (lb_sqlite list_libs) ?db ''l'' = Inr (map (\<lambda>r. (row_sequence r, row_encoded r)) ?db)"
    by (simp add: list_libs_def list_sqlite_def stream_rows_def q)
  from load_never_renumbers [OF this _ _ st] st show ?thesis by (simp add: q)
qed

definition triple_file :: "int \<times> int \<times> int \<Rightarrow> (int \<times> int \<times> int) sqlite_file" where
  "triple_file file = \<lparr>sf_Open = (\<lambda>_. Inr file),
     sf_Exec = (\<lambda>(v, t, r) st. Inr (case st of Set_user_version v' \<Rightarrow> (v', t, r) | Create_facts \<Rightarrow> (v, 1, r) | _ \<Rightarrow> (v, t, r))),
     sf_user_version = (\<lambda>(v, t, r). Inr v), sf_facts_tables = (\<lambda>(v, t, r). Inr t), sf_facts_rows = (\<lambda>(v, t, r). Inr r)\<rparr>"

lemma triple_file_law: "sqlite_file_law (triple_file file)"
  by (auto simp: sqlite_file_law_def triple_file_def split: statement.splits prod.splits)

theorem open_checks_encoding_witness:
  "sqlite_Open (triple_file (0, 1, 5)) ''ledger.db'' = Inl [ErrEncodingVersion]"
proof -
  have "is_ok (exec_all (triple_file (0, 1, 5)) (0, 1, 5) pragmas)" by (simp add: pragmas_def triple_file_def)
  with open_checks_encoding [OF triple_file_law, of "(0, 1, 5)" "''ledger.db''" "(0, 1, 5)"] show ?thesis
    by (simp add: triple_file_def encodingOrderableInteger_def)
qed

theorem unnamed_stream_unreadable_witness:
  "\<exists>db'. sqlite_Append list_libs [] [] Any (durable_envelope 0) KindObservation (Some (f_payload wire_fact)) =
     (db', Inr \<lparr>fr_Stream = [], fr_Sequence = 1\<rparr>) \<and> loadFrom list_libs db' [] = Inl [ErrEmptyType]"
proof -
  let ?f = "(durable_fact 1 0)\<lparr>f_ref := \<lparr>fr_Stream = [], fr_Sequence = 1\<rparr>\<rparr>"
  have "NewFact (f_ref (durable_fact 1 0)) (f_envelope (durable_fact 1 0)) (f_kind (durable_fact 1 0))
      (Some (f_payload (durable_fact 1 0))) = Inr (durable_fact 1 0)"
    using durable_envelope_ok [of 0] durable_payload_ok
    by (intro NewFact_rebuilds [of unicode_ascii int_apd])
       (simp add: fact_value_ok_def durable_fact_def ref_value_ok_def FactKind_Valid_def)
  then have "NewFact \<lparr>fr_Stream = [], fr_Sequence = 1\<rparr> (durable_envelope 0) KindObservation (Some (f_payload wire_fact)) = Inr ?f"
    by (auto simp: NewFact_def durable_fact_def split: if_splits)
  from unnamed_stream_unreadable [OF list_laws _ this list_encodes, of "[]"] show ?thesis
    by (auto simp: stream_rows_def)
qed

text \<open>An engine whose every commit fails.\<close>

definition faulty_libs where
  "faulty_libs = list_libs\<lparr>lb_sqlite := list_sqlite\<lparr>db_commit := \<lambda>db tx. (db, Inl [''disk I/O error''])\<rparr>\<rparr>"

lemma faulty_failstop: "sqlite_failstop (lb_sqlite faulty_libs) (\<lambda>db. db)"
  by (auto simp: sqlite_failstop_def faulty_libs_def list_sqlite_def split: if_splits)

lemma list_failstop: "sqlite_failstop (lb_sqlite list_libs) (\<lambda>db. db)"
  by (auto simp: sqlite_failstop_def list_libs_def list_sqlite_def split: if_splits)

lemma durable_admits:
  "\<exists>db' k' ref. run unicode_ascii durable_ledger (AcceptHoldingClaimC durable_command) ([], durable_known 0) = ((db', k'), Inr ref)"
proof -
  have ok: "command_value_ok unicode_ascii int_apd durable_command" by (rule durable_command_ok)
  have "sqlite_storable list_libs (\<lambda>db. db) [] (ac_Stream durable_command) e p"
    if "accept_built durable_command (Inr (durable_known 0)) = Inr (e, p)" for e p
    using that ok durable_known_ok [of 0] list_marshals
    by (intro accept_storable) (simp_all add: list_libs_def durable_command_def wire_command_def stream_rows_def)
  moreover have "\<exists>prov. Observed (ac_Source durable_command) (ac_CollectedAt durable_command) (ac_Interpreter durable_command)
      (ac_Confidence durable_command) = Inr prov"
    by (simp add: Observed_def durable_command_def wire_command_def wire_provenance_def sample_source_def Confidence_Valid_def
        enum_defs Instant_IsZero_def zeroInstant_def)
  moreover have "CheckContentAddress (ac_Source durable_command) = Inr ()" "\<not> Claim_IsZero (ac_Account durable_command)"
      "\<not> Claim_IsZero (ac_Instrument durable_command)" "iv_from (ac_Effective durable_command) \<noteq> zeroInstant"
      "ac_Stream durable_command \<noteq> []"
    using sample_source_ok
    by (simp_all add: durable_command_def wire_command_def wire_claim_def wire_coordinates_def Claim_IsZero_def zeroInstant_def)
  ultimately show ?thesis
    using list_durable.durable.AcceptHoldingClaim_admits [of durable_ledger "[]" durable_command "durable_known 0" "durable_known 0" "durable_known 0"]
      durable_known_ok [of 0] durable_view_empty
    by (fastforce simp: durable_ledger_def Fixed_Now_def NewStore_def list_durable.empty_inv)
qed

theorem faults_never_lie_witness:
  "fst (fst (run unicode_ascii (durable_ledger\<lparr>lg_store := sqlite_store faulty_libs\<rparr>) (AcceptHoldingClaimC durable_command)
     ([], durable_known 0))) = [] \<and>
   length (fst (fst (run unicode_ascii durable_ledger (AcceptHoldingClaimC durable_command) ([], durable_known 0)))) = 1"
proof -
  let ?c = "AcceptHoldingClaimC durable_command"
  let ?l = "durable_ledger\<lparr>lg_store := sqlite_store faulty_libs\<rparr>"
  obtain db' k' res where r: "run unicode_ascii ?l ?c ([], durable_known 0) = ((db', k'), res)" by (metis prod.collapse)
  then have "\<not> is_ok res"
    by (auto simp: run_guarded sqlite_store_def sqlite_Serialise_def end_tx_def faulty_libs_def list_sqlite_def
        split: sum.splits prod.splits)
  then have "db' = []" using faults_never_lie [OF faulty_failstop _ r] by (auto split: sum.splits)
  moreover obtain db1 k1 ref where a: "run unicode_ascii durable_ledger ?c ([], durable_known 0) = ((db1, k1), Inr ref)"
    using durable_admits by blast
  moreover have "length db1 = 1" using faults_never_lie [OF list_failstop _ a] by (auto simp: durable_ledger_def)
  ultimately show ?thesis using r by simp
qed

end
