(* ===== verification/Store_Suite.thy ===== *)
theory Store_Suite
  imports Sqlite_Ledger "HOL-Library.Monad_Syntax"
begin

text \<open>
  \<^verbatim>\<open>src/libs/ledger/storetest/storetest.go\<close>: the conformance suite every store must pass, the fifteen
  cases as programs over a store. A case is given the store's operations and the state of a fresh one
  and returns \<open>Some ()\<close> when it reports nothing and \<open>None\<close> when it calls \<^verbatim>\<open>t.Error\<close> or \<^verbatim>\<open>t.Fatal\<close> or a
  fixture panics. The two cases with goroutines take the order the scheduler picks: the region of
  \<^verbatim>\<open>serialiseRemovesTheRetry\<close> runs whole under the store's serialisation, so its schedule is a list of
  writers; the retry loop of \<^verbatim>\<open>concurrentAppendsSerialise\<close> interleaves ticks and appends, so it is the
  step relation \<open>retry_step\<close>.

  That both stores pass is the subject of the theory that follows.
\<close>

section \<open>The fixture\<close>

definition time_Hour :: int where
  "time_Hour = 3600 * 1000000000"

text \<open>Nanoseconds from the zero time to the first of March 2026.\<close>

definition days_before_year :: "int \<Rightarrow> int" where
  "days_before_year y = 365 * (y - 1) + (y - 1) div 4 - (y - 1) div 100 + (y - 1) div 400"

definition epoch :: time where
  "epoch = (days_before_year 2026 + 31 + 28) * 86400 * 1000000000"

definition suite_claim :: "unicode \<Rightarrow> 'd apd \<Rightarrow> string \<Rightarrow> 'd HoldingClaimed result" where
  "suite_claim uc A ticker =
     bindR (MustClaim uc ''account_number'' ''0001234-5'') (\<lambda>account.
     bindR (MustClaim uc ''ticker'' ticker) (\<lambda>instrument.
     bindR (MustParseQuantity A ''100'' ''share'') (\<lambda>quantity.
       Inr \<lparr>hc_Account = account, hc_Instrument = instrument, hc_Quantity = quantity\<rparr>)))"

definition envelopeAfter :: "int \<Rightarrow> Envelope result" where
  "envelopeAfter d =
     bindR (MustAt epoch) (\<lambda>eff.
     bindR (MustAt (epoch + d)) (\<lambda>know.
     bindR (OpenFrom eff) (\<lambda>interval.
     bindR (Assign interval know) (\<lambda>coordinates.
     bindR (NewSource ''sha256:0123456789abcdef0123456789abcdef0123456789abcdef0123456789abcdef'') (\<lambda>source.
     bindR (Observed source eff Unmediated ConfidenceAsserted) (\<lambda>prov.
       NewEnvelope coordinates prov []))))))"

definition envelopeAt :: "int \<Rightarrow> Envelope result" where
  "envelopeAt hour = envelopeAfter (hour * time_Hour)"

definition suite_asOf :: "int \<Rightarrow> AsOf result" where
  "suite_asOf hour =
     bindR (MustAt (epoch + time_Hour)) (\<lambda>eff.
     bindR (MustAt (epoch + hour * time_Hour)) (\<lambda>know. NewAsOf eff know))"

definition check :: "bool \<Rightarrow> unit option" where
  "check b = (if b then Some () else None)"

definition must :: "'a result \<Rightarrow> 'a option" where
  "must r = (case r of Inl _ \<Rightarrow> None | Inr x \<Rightarrow> Some x)"

definition fails_with :: "'a result \<Rightarrow> sentinel \<Rightarrow> unit option" where
  "fails_with r err = check (case r of Inl e \<Rightarrow> errors_Is e err | Inr _ \<Rightarrow> False)"

text \<open>The call \<^verbatim>\<open>store.Append(ctx, "acct-1", expect, envelopeAfter(t, d), KindObservation, claim(t, ticker))\<close>.\<close>

definition suite_append ::
  "unicode \<Rightarrow> 'd apd \<Rightarrow> ('d, 's, unit) Store \<Rightarrow> 's \<Rightarrow> Expectation \<Rightarrow> Envelope result \<Rightarrow> string \<Rightarrow> ('s \<times> FactRef result) option" where
  "suite_append uc A store s expect env ticker = do {
     e \<leftarrow> must env;
     c \<leftarrow> must (suite_claim uc A ticker);
     Some (so_Append store s ''acct-1'' expect e KindObservation (Some (HoldingClaimedP c)))
   }"

definition mustAppend ::
  "unicode \<Rightarrow> 'd apd \<Rightarrow> ('d, 's, unit) Store \<Rightarrow> 's \<Rightarrow> Expectation \<Rightarrow> int \<Rightarrow> string \<Rightarrow> ('s \<times> FactRef) option" where
  "mustAppend uc A store s expect hour ticker = do {
     (s, res) \<leftarrow> suite_append uc A store s expect (envelopeAt hour) ticker;
     ref \<leftarrow> must res;
     Some (s, ref)
   }"

fun mustAppendAll ::
  "unicode \<Rightarrow> 'd apd \<Rightarrow> ('d, 's, unit) Store \<Rightarrow> 's \<Rightarrow> int \<Rightarrow> string list \<Rightarrow> ('s \<times> FactRef list) option" where
  "mustAppendAll uc A store s i [] = Some (s, [])"
| "mustAppendAll uc A store s i (ticker # tickers) = do {
     (s, ref) \<leftarrow> mustAppend uc A store s Any (i + 1) ticker;
     (s, refs) \<leftarrow> mustAppendAll uc A store s (i + 1) tickers;
     Some (s, ref # refs)
   }"

text \<open>The instrument a claimed holding names, the type assertion \<^verbatim>\<open>Payload().(domain.HoldingClaimed)\<close> failing on any other payload.\<close>

definition held_instrument :: "'d Fact \<Rightarrow> string option" where
  "held_instrument f = (case f_payload f of HoldingClaimedP held \<Rightarrow> Some (cl_value (hc_Instrument held)) | _ \<Rightarrow> None)"

section \<open>The cases without goroutines\<close>

definition appendsGetConsecutiveRefs :: "unicode \<Rightarrow> 'd apd \<Rightarrow> ('d, 's, unit) Store \<Rightarrow> 's \<Rightarrow> unit option" where
  "appendsGetConsecutiveRefs uc A store s = do {
     (s, first) \<leftarrow> mustAppend uc A store s Any 1 ''PETR4'';
     (s, second) \<leftarrow> mustAppend uc A store s Any 2 ''VALE3'';
     check (first \<noteq> second);
     check (fr_Sequence first = 1 \<and> fr_Sequence second = 2)
   }"

definition unknownStreamIsNotFound :: "('d, 's, unit) Store \<Rightarrow> 's \<Rightarrow> unit option" where
  "unknownStreamIsNotFound store s = fails_with (so_Load store s ''never-written'') ErrStreamNotFound"

definition firstAppendCreatesTheStream :: "unicode \<Rightarrow> 'd apd \<Rightarrow> ('d, 's, unit) Store \<Rightarrow> 's \<Rightarrow> unit option" where
  "firstAppendCreatesTheStream uc A store s = do {
     (s, res) \<leftarrow> suite_append uc A store s (AtLength 0) (envelopeAt 1) ''PETR4'';
     must res;
     must (so_Load store s ''acct-1'');
     Some ()
   }"

definition expectationHolds :: "unicode \<Rightarrow> 'd apd \<Rightarrow> ('d, 's, unit) Store \<Rightarrow> 's \<Rightarrow> unit option" where
  "expectationHolds uc A store s = do {
     (s, _) \<leftarrow> mustAppend uc A store s (AtLength 0) 1 ''PETR4'';
     (s, _) \<leftarrow> mustAppend uc A store s (AtLength 1) 2 ''VALE3'';
     stream \<leftarrow> must (so_Load store s ''acct-1'');
     check (Stream_Len stream = 2)
   }"

definition staleReadIsRefused :: "unicode \<Rightarrow> 'd apd \<Rightarrow> ('d, 's, unit) Store \<Rightarrow> 's \<Rightarrow> unit option" where
  "staleReadIsRefused uc A store s = do {
     (s, _) \<leftarrow> mustAppend uc A store s (AtLength 0) 1 ''PETR4'';
     (s, res) \<leftarrow> suite_append uc A store s (AtLength 0) (envelopeAt 2) ''VALE3'';
     fails_with res ErrStaleRead;
     stream \<leftarrow> must (so_Load store s ''acct-1'');
     check (Stream_Len stream = 1);
     check (held_instrument (st_facts stream ! 0) = Some ''PETR4'')
   }"

definition anyAppendsRegardless :: "unicode \<Rightarrow> 'd apd \<Rightarrow> ('d, 's, unit) Store \<Rightarrow> 's \<Rightarrow> unit option" where
  "anyAppendsRegardless uc A store s = do {
     (s, _) \<leftarrow> mustAppendAll uc A store s 0 [''PETR4'', ''VALE3'', ''ITUB4''];
     stream \<leftarrow> must (so_Load store s ''acct-1'');
     check (Stream_Len stream = 3)
   }"

text \<open>A Go map is iterated in any order: \<open>hours\<close> is the order of its two values.\<close>

fun refused_hours :: "unicode \<Rightarrow> 'd apd \<Rightarrow> ('d, 's, unit) Store \<Rightarrow> 's \<Rightarrow> int list \<Rightarrow> unit option" where
  "refused_hours uc A store s [] = Some ()"
| "refused_hours uc A store s (hour # hours) = do {
     (s, res) \<leftarrow> suite_append uc A store s Any (envelopeAt hour) ''VALE3'';
     fails_with res ErrNonMonotonicKnowledge;
     refused_hours uc A store s hours
   }"

definition knowledgeCannotGoBackwards :: "unicode \<Rightarrow> 'd apd \<Rightarrow> ('d, 's, unit) Store \<Rightarrow> 's \<Rightarrow> int list \<Rightarrow> unit option" where
  "knowledgeCannotGoBackwards uc A store s hours = do {
     (s, _) \<leftarrow> mustAppend uc A store s Any 5 ''PETR4'';
     refused_hours uc A store s hours
   }"

definition subSecondKnowledgeOrders :: "unicode \<Rightarrow> 'd apd \<Rightarrow> ('d, 's, unit) Store \<Rightarrow> 's \<Rightarrow> unit option" where
  "subSecondKnowledgeOrders uc A store fresh = do {
     (s, res) \<leftarrow> suite_append uc A store fresh Any (envelopeAfter time_Hour) ''PETR4'';
     must res;
     (s, res) \<leftarrow> suite_append uc A store s Any (envelopeAfter (time_Hour + 1)) ''VALE3'';
     must res;
     (s, res) \<leftarrow> suite_append uc A store fresh Any (envelopeAfter (time_Hour + 500 * 1000000)) ''PETR4'';
     must res;
     (s, res) \<leftarrow> suite_append uc A store s Any (envelopeAfter time_Hour) ''VALE3'';
     fails_with res ErrNonMonotonicKnowledge
   }"

definition reloaded_intact :: "string list \<Rightarrow> FactRef list \<Rightarrow> nat \<Rightarrow> 'd Fact \<Rightarrow> bool" where
  "reloaded_intact want refs i f \<longleftrightarrow>
     f_ref f = refs ! i \<and> held_instrument f = Some (want ! i) \<and>
     \<not> Provenance_IsZero (ev_provenance (f_envelope f)) \<and>
     \<not> Instant_IsZero (knowledge (ev_coordinates (f_envelope f)))"

definition factsReloadIntact :: "unicode \<Rightarrow> 'd apd \<Rightarrow> ('d, 's, unit) Store \<Rightarrow> 's \<Rightarrow> unit option" where
  "factsReloadIntact uc A store s = (let want = [''PETR4'', ''VALE3'', ''ITUB4''] in do {
     (s, refs) \<leftarrow> mustAppendAll uc A store s 0 want;
     stream \<leftarrow> must (so_Load store s ''acct-1'');
     check (length (st_facts stream) = length want);
     check (list_all (\<lambda>(i, f). reloaded_intact want refs i f) (enumerate 0 (st_facts stream)))
   })"

definition asOfMatchesProjection :: "unicode \<Rightarrow> 'd apd \<Rightarrow> ('d, 's, unit) Store \<Rightarrow> 's \<Rightarrow> unit option" where
  "asOfMatchesProjection uc A store s = do {
     (s, _) \<leftarrow> mustAppendAll uc A store s 0 [''PETR4'', ''VALE3'', ''ITUB4''];
     stream \<leftarrow> must (so_Load store s ''acct-1'');
     two \<leftarrow> must (suite_asOf 2);
     check (length (VisibleAt stream two) = 2);
     later \<leftarrow> must (suite_asOf 99);
     check (length (VisibleAt stream later) = 3)
   }"

text \<open>A region's function returns an error or nil; \<open>nil_result\<close> is nil, with no fact to name.\<close>

definition nil_result :: "FactRef result" where
  "nil_result = Inr \<lparr>fr_Stream = [], fr_Sequence = 0\<rparr>"

definition nestedSerialiseIsRefused :: "('d, 's, unit) Store \<Rightarrow> 's \<Rightarrow> unit option" where
  "nestedSerialiseIsRefused store s =
     (case so_Serialise store ''acct-1'' (\<lambda>rg st. (st, rg_Serialise rg ''acct-1'')) (s, ()) of
        (_, res) \<Rightarrow> fails_with res ErrNestedSerialise)"

definition serialiseReturnsTheError :: "unicode \<Rightarrow> 'd apd \<Rightarrow> ('d, 's, unit) Store \<Rightarrow> 's \<Rightarrow> unit option" where
  "serialiseReturnsTheError uc A store s = (let sentinel = ''storetest: the callback said no'' in
     case so_Serialise store ''acct-1'' (\<lambda>_ st. (st, Inl [sentinel])) (s, ()) of
       ((s, _), res) \<Rightarrow> do {
         fails_with res sentinel;
         (s, seed) \<leftarrow> suite_append uc A store s Any (envelopeAt 1) ''PETR4'';
         must seed;
         e \<leftarrow> must (envelopeAt 2);
         c \<leftarrow> must (suite_claim uc A ''VALE3'');
         (case so_Serialise store ''acct-1'' (\<lambda>rg (s, k).
             case rg_Append rg s ''acct-1'' (AtLength 99) e KindObservation (Some (HoldingClaimedP c)) of
               (s', r) \<Rightarrow> ((s', k), r)) (s, ()) of
            (_, res) \<Rightarrow> fails_with res ErrStaleRead)
       })"

definition serialiseAppendsNothing :: "('d, 's, unit) Store \<Rightarrow> 's \<Rightarrow> unit option" where
  "serialiseAppendsNothing store s =
     (case so_Serialise store ''acct-1'' (\<lambda>_ st. (st, nil_result)) (s, ()) of
        ((s, _), res) \<Rightarrow> do {
          must res;
          fails_with (so_Load store s ''acct-1'') ErrStreamNotFound
        })"

section \<open>The cases with goroutines\<close>

definition writers :: nat where
  "writers = 8"

definition writer_ticker :: "nat \<Rightarrow> string" where
  "writer_ticker n = ''T'' @ dec_int (int n)"

text \<open>Read the length, append at it, inside the region.\<close>

definition retry_region :: "unicode \<Rightarrow> 'd apd \<Rightarrow> nat \<Rightarrow> ('d, 's, unit) region_fn" where
  "retry_region uc A n rg = (\<lambda>(s, k).
     case (case rg_Load rg s ''acct-1'' of
             Inr stream \<Rightarrow> Inr (int (Stream_Len stream))
           | Inl e \<Rightarrow> if \<not> errors_Is e ErrStreamNotFound then Inl e else Inr 0) of
       Inl e \<Rightarrow> ((s, k), Inl e)
     | Inr len \<Rightarrow>
       (case bindR (envelopeAt (len + 1)) (\<lambda>e. bindR (suite_claim uc A (writer_ticker n)) (\<lambda>c. Inr (e, HoldingClaimedP c))) of
          Inl e \<Rightarrow> ((s, k), Inl e)
        | Inr (e, p) \<Rightarrow>
            (case rg_Append rg s ''acct-1'' (AtLength len) e KindObservation (Some p) of (s', r) \<Rightarrow> ((s', k), r))))"

fun serialise_each ::
  "unicode \<Rightarrow> 'd apd \<Rightarrow> ('d, 's, unit) Store \<Rightarrow> 's \<Rightarrow> nat list \<Rightarrow> 's option" where
  "serialise_each uc A store s [] = Some s"
| "serialise_each uc A store s (n # order) =
     (case so_Serialise store ''acct-1'' (retry_region uc A n) (s, ()) of
        ((s', _), res) \<Rightarrow> do { must res; serialise_each uc A store s' order })"

definition serialiseRemovesTheRetry :: "unicode \<Rightarrow> 'd apd \<Rightarrow> ('d, 's, unit) Store \<Rightarrow> 's \<Rightarrow> nat list \<Rightarrow> unit option" where
  "serialiseRemovesTheRetry uc A store s order = do {
     s \<leftarrow> serialise_each uc A store s order;
     stream \<leftarrow> must (so_Load store s ''acct-1'');
     check (Stream_Len stream = writers);
     check (list_all (\<lambda>(i, f). fr_Sequence (f_ref f) = word_of_nat (i + 1)) (enumerate 0 (st_facts stream)))
   }"

datatype retry = Trying nat | Ticked nat int | Landed | GaveUp go_error

record 's Racing =
  rc_store :: 's
  rc_tick :: int
  rc_writer :: "nat \<Rightarrow> retry"

definition attempts :: nat where
  "attempts = 200"

definition race_goto :: "nat \<Rightarrow> retry \<Rightarrow> 's Racing \<Rightarrow> 's Racing" where
  "race_goto i w c = c\<lparr>rc_writer := (rc_writer c)(i := w)\<rparr>"

text \<open>A writer adds one to the shared tick, then appends at that hour; a refusal for monotonicity is
  another attempt, any other is reported.\<close>

inductive retry_step :: "unicode \<Rightarrow> 'd apd \<Rightarrow> ('d, 's, unit) Store \<Rightarrow> 's Racing \<Rightarrow> 's Racing \<Rightarrow> bool"
  for uc A store where
  tick: "i < writers \<Longrightarrow> rc_writer c i = Trying a \<Longrightarrow> a < attempts \<Longrightarrow>
    retry_step uc A store c (race_goto i (Ticked a (rc_tick c + 1)) (c\<lparr>rc_tick := rc_tick c + 1\<rparr>))"
| never_landed: "i < writers \<Longrightarrow> rc_writer c i = Trying a \<Longrightarrow> \<not> a < attempts \<Longrightarrow>
    retry_step uc A store c (race_goto i (GaveUp []) c)"
| land: "i < writers \<Longrightarrow> rc_writer c i = Ticked a h \<Longrightarrow>
    suite_append uc A store (rc_store c) Any (envelopeAt h) (writer_ticker i) = Some (s', Inr ref) \<Longrightarrow>
    retry_step uc A store c (race_goto i Landed (c\<lparr>rc_store := s'\<rparr>))"
| overtaken: "i < writers \<Longrightarrow> rc_writer c i = Ticked a h \<Longrightarrow>
    suite_append uc A store (rc_store c) Any (envelopeAt h) (writer_ticker i) = Some (s', Inl e) \<Longrightarrow>
    errors_Is e ErrNonMonotonicKnowledge \<Longrightarrow>
    retry_step uc A store c (race_goto i (Trying (a + 1)) (c\<lparr>rc_store := s'\<rparr>))"
| broken: "i < writers \<Longrightarrow> rc_writer c i = Ticked a h \<Longrightarrow>
    suite_append uc A store (rc_store c) Any (envelopeAt h) (writer_ticker i) = Some (s', Inl e) \<Longrightarrow>
    \<not> errors_Is e ErrNonMonotonicKnowledge \<Longrightarrow>
    retry_step uc A store c (race_goto i (GaveUp e) (c\<lparr>rc_store := s'\<rparr>))"

text \<open>A configuration in which every goroutine has returned: none of them can step.\<close>

definition race_over :: "unicode \<Rightarrow> 'd apd \<Rightarrow> ('d, 's, unit) Store \<Rightarrow> 's Racing \<Rightarrow> bool" where
  "race_over uc A store c \<longleftrightarrow> (\<nexists>c'. retry_step uc A store c c')"

definition racing_start :: "'s \<Rightarrow> 's Racing" where
  "racing_start s = \<lparr>rc_store = s, rc_tick = 1, rc_writer = (\<lambda>_. Trying 0)\<rparr>"

text \<open>What the case checks once every goroutine has returned.\<close>

definition concurrentAppendsSerialise :: "('d, 's, unit) Store \<Rightarrow> 's Racing \<Rightarrow> unit option" where
  "concurrentAppendsSerialise store c = do {
     check (list_all (\<lambda>i. rc_writer c i = Landed) [0..<writers]);
     stream \<leftarrow> must (so_Load store (rc_store c) ''acct-1'');
     check (Stream_Len stream = writers);
     check (distinct (map (\<lambda>f. fr_Sequence (f_ref f)) (st_facts stream)));
     check (list_all (\<lambda>i. word_of_nat i \<in> set (map (\<lambda>f. fr_Sequence (f_ref f)) (st_facts stream))) [1..<writers + 1])
   }"

section \<open>The suite\<close>

text \<open>The suite on a fresh store, with the order of the map, the configuration the racing goroutines end in
  and the order the regions are entered in.\<close>

definition suite_Run ::
  "unicode \<Rightarrow> 'd apd \<Rightarrow> ('d, 's, unit) Store \<Rightarrow> 's \<Rightarrow> int list \<Rightarrow> 's Racing \<Rightarrow> nat list \<Rightarrow> unit option" where
  "suite_Run uc A store s hours race order = do {
     appendsGetConsecutiveRefs uc A store s;
     unknownStreamIsNotFound store s;
     firstAppendCreatesTheStream uc A store s;
     expectationHolds uc A store s;
     staleReadIsRefused uc A store s;
     anyAppendsRegardless uc A store s;
     knowledgeCannotGoBackwards uc A store s hours;
     subSecondKnowledgeOrders uc A store s;
     factsReloadIntact uc A store s;
     asOfMatchesProjection uc A store s;
     concurrentAppendsSerialise store race;
     serialiseRemovesTheRetry uc A store s order;
     nestedSerialiseIsRefused store s;
     serialiseReturnsTheError uc A store s;
     serialiseAppendsNothing store s
   }"

end
