(* ===== verification/Store_Conformance.thy ===== *)
theory Store_Conformance
  imports Store_Suite
begin

text \<open>
  The conformance suite passes. The fixture is evaluated once and for all; the locale \<open>suite_store\<close>
  extends the store contract with the operations the suite calls outside a region, and \<open>holds\<close> abstracts
  a store's state to the appends it accepted, so each case is run symbolically with three rules: an append
  is accepted, is stale, or goes backwards. The retry loop is analysed by an invariant that counts how often a writer
  was overtaken. Both stores keep the contract.
\<close>

section \<open>The fixture never fails\<close>

lemma epoch_eq: "epoch = 63907920000 * 1000000000"
  by (simp add: epoch_def days_before_year_def)

definition suite_envelope :: "int \<Rightarrow> Envelope" where
  "suite_envelope d = \<lparr>ev_coordinates = \<lparr>effective = \<lparr>iv_from = Instant epoch, iv_to = zeroInstant\<rparr>, knowledge = Instant (epoch + d)\<rparr>,
     ev_provenance = \<lparr>pv_source = Source ''sha256:0123456789abcdef0123456789abcdef0123456789abcdef0123456789abcdef'',
       pv_collectedAt = Instant epoch, pv_publishedAt = zeroInstant, pv_interpreter = Unmediated, pv_derivation = None,
       pv_confidence = ConfidenceAsserted\<rparr>, ev_references = []\<rparr>"

lemma suite_source: "NewSource ''sha256:0123456789abcdef0123456789abcdef0123456789abcdef0123456789abcdef'' =
  Inr (Source ''sha256:0123456789abcdef0123456789abcdef0123456789abcdef0123456789abcdef'')"
proof -
  let ?s = "''sha256:0123456789abcdef0123456789abcdef0123456789abcdef0123456789abcdef''"
  have "TrimSpace ?s = ?s" by (rule TrimSpace_no_space) (simp add: tokens_ascii IsSpace_def)
  then show ?thesis by (simp add: NewSource_def)
qed

lemma envelopeAfter_eq: "0 \<le> d \<Longrightarrow> envelopeAfter d = Inr (suite_envelope d)"
  by (simp add: envelopeAfter_def suite_envelope_def epoch_eq MustAt_def At_def OpenFrom_def NewInterval_def Assign_def
      suite_source Observed_def NewEnvelope_def Provenance_IsZero_def Unmediated_def UnmediatedName_def Confidence_Valid_def
      enum_defs instant_defs)

definition suite_ticker :: "string \<Rightarrow> bool" where
  "suite_ticker tk \<longleftrightarrow> tk \<noteq> [] \<and> ascii tk"

lemma suite_tickers [simp]: "suite_ticker ''PETR4''" "suite_ticker ''VALE3''" "suite_ticker ''ITUB4''"
  by (simp_all add: suite_ticker_def ascii_def)

lemma writer_ticker_ok [simp]: "suite_ticker (writer_ticker n)"
  using dec_nat_digits [of _ n]
  by (force simp: suite_ticker_def writer_ticker_def dec_int_def ascii_def list_all_iff)

lemma writer_ticker_nonempty [simp]: "writer_ticker n \<noteq> []"
  by (simp add: writer_ticker_def)

definition suite_held :: "'d apd \<Rightarrow> string \<Rightarrow> 'd HoldingClaimed" where
  "suite_held A ticker = \<lparr>hc_Account = \<lparr>cl_scheme = ''account_number'', cl_value = ''0001234-5''\<rparr>,
     hc_Instrument = \<lparr>cl_scheme = ''ticker'', cl_value = ticker\<rparr>,
     hc_Quantity = \<lparr>q_amount = projr (apd_NewFromString A ''100''), q_unit = ''share''\<rparr>\<rparr>"

lemma suite_schemes:
  "NewClaim uc ''account_number'' ''0001234-5'' = Inr \<lparr>cl_scheme = ''account_number'', cl_value = ''0001234-5''\<rparr>"
  "ticker \<noteq> [] \<Longrightarrow> NewClaim uc ''ticker'' ticker = Inr \<lparr>cl_scheme = ''ticker'', cl_value = ticker\<rparr>"
  by (simp_all add: NewClaim_Inr_iff ascii_eval)

lemma suite_claim_eq:
  assumes "is_ok (apd_NewFromString A ''100'')" "ticker \<noteq> []"
  shows "suite_claim uc A ticker = Inr (suite_held A ticker)"
proof -
  have "validateCanonical ''100'' = Inr ()"
    by (simp add: validateCanonical_def ascii_eval ContainsAny_def TrimPrefix_def HasSuffix_def)
  then show ?thesis
    using assms by (auto simp: suite_claim_def suite_held_def MustClaim_def suite_schemes MustParseQuantity_def ParseQuantity_def is_ok_iff)
qed


section \<open>The contract the suite asks for\<close>

definition suite_fact :: "'d apd \<Rightarrow> nat \<Rightarrow> int \<times> string \<Rightarrow> 'd Fact" where
  "suite_fact A i x = \<lparr>f_ref = \<lparr>fr_Stream = ''acct-1'', fr_Sequence = word_of_nat i\<rparr>, f_envelope = suite_envelope (fst x),
     f_kind = KindObservation, f_payload = HoldingClaimedP (suite_held A (snd x))\<rparr>"

text \<open>The stream after accepted appends at the given times past the epoch, of the given tickers.\<close>

definition suite_stream :: "'d apd \<Rightarrow> (int \<times> string) list \<Rightarrow> 'd Stream" where
  "suite_stream A ds = \<lparr>st_name = ''acct-1'', st_facts = map (\<lambda>i. suite_fact A (i + 1) (ds ! i)) [0..<length ds]\<rparr>"

lemma suite_stream_snoc:
  "suite_stream A (ds @ [x]) = \<lparr>st_name = ''acct-1'', st_facts = st_facts (suite_stream A ds) @ [suite_fact A (length ds + 1) x]\<rparr>"
  by (simp add: suite_stream_def nth_append)

lemma suite_stream_simps [simp]:
  "st_name (suite_stream A ds) = ''acct-1''" "length (st_facts (suite_stream A ds)) = length ds"
  "st_facts (suite_stream A ds) = [] \<longleftrightarrow> ds = []" "Stream_Len (suite_stream A ds) = length ds"
  by (simp_all add: suite_stream_def Stream_Len_def)

lemma suite_stream_last: "ds \<noteq> [] \<Longrightarrow> last (st_facts (suite_stream A ds)) = suite_fact A (length ds) (last ds)"
  by (simp add: suite_stream_def last_map last_conv_nth)

definition suite_holds :: "'d apd \<Rightarrow> (int \<times> string) list \<Rightarrow> 'd Stream option" where
  "suite_holds A ds = (if ds = [] then None else Some (suite_stream A ds))"

lemma suite_append_spec:
  "append_spec (suite_holds A ds) ''acct-1'' ex (suite_envelope d) KindObservation (Some (HoldingClaimedP (suite_held A tk))) =
     (if ex_checked ex \<and> int (length ds) \<noteq> ex_length ex then Inl [ErrStaleRead]
      else if ds \<noteq> [] \<and> \<not> fst (last ds) < d then Inl [ErrNonMonotonicKnowledge]
      else Inr (suite_stream A (ds @ [(d, tk)]), \<lparr>fr_Stream = ''acct-1'', fr_Sequence = word_of_nat (length ds + 1)\<rparr>))"
proof -
  have cur: "(case suite_holds A ds of None \<Rightarrow> NewStream ''acct-1'' | Some st \<Rightarrow> Inr st) = Inr (suite_stream A ds)"
    by (simp add: suite_holds_def NewStream_def suite_stream_def)
  have "Stream_Append (suite_stream A ds) (suite_envelope d) KindObservation (Some (HoldingClaimedP (suite_held A tk))) =
    Inr (suite_stream A (ds @ [(d, tk)]), \<lparr>fr_Stream = ''acct-1'', fr_Sequence = word_of_nat (length ds + 1)\<rparr>)"
    by (simp add: Stream_Append_Inr_iff suite_stream_snoc suite_fact_def suite_envelope_def Provenance_IsZero_def FactKind_Valid_def)
  moreover have "ds \<noteq> [] \<Longrightarrow> fact_knowledge (last (st_facts (suite_stream A ds))) < knowledge (ev_coordinates (suite_envelope d)) \<longleftrightarrow> fst (last ds) < d"
    by (simp add: suite_stream_last suite_fact_def suite_envelope_def less_Instant_def)
  ultimately show ?thesis by (auto simp: append_spec_def cur)
qed

text \<open>The stream three appends leave.\<close>

abbreviation three :: "(int \<times> string) list" where
  "three \<equiv> [(time_Hour, ''PETR4''), (2 * time_Hour, ''VALE3''), (3 * time_Hour, ''ITUB4'')]"

section \<open>What the retry loop keeps\<close>

text \<open>
  An attempt fails only because another writer landed after it ticked. So a writer that has failed
  \<open>a\<close> times has seen \<open>a\<close> other writers land: it succeeds within as many attempts as there are writers.
\<close>

fun retry_ok :: "(int \<times> string) list \<Rightarrow> int \<Rightarrow> retry \<Rightarrow> bool" where
  "retry_ok ds tick (Trying a) \<longleftrightarrow> a \<le> length ds"
| "retry_ok ds tick (Ticked a h) \<longleftrightarrow> 0 \<le> h \<and> h \<le> tick \<and> a \<le> length (filter (\<lambda>x. fst x < h * time_Hour) ds)"
| "retry_ok ds tick Landed \<longleftrightarrow> True"
| "retry_ok ds tick (GaveUp e) \<longleftrightarrow> False"

fun ticks_left :: "retry \<Rightarrow> nat" where
  "ticks_left (Trying a) = writers - a"
| "ticks_left (Ticked a h) = writers - a - 1"
| "ticks_left _ = 0"

definition landed_writers :: "'s Racing \<Rightarrow> nat set" where
  "landed_writers c = {i. i < writers \<and> rc_writer c i = Landed}"

fun steps_left :: "retry \<Rightarrow> nat" where
  "steps_left (Trying a) = 2 * (writers - a)"
| "steps_left (Ticked a h) = 2 * (writers - a) - 1"
| "steps_left _ = 0"

lemma race_goto_simps [simp]:
  "rc_store (race_goto i w c) = rc_store c" "rc_tick (race_goto i w c) = rc_tick c"
  "rc_writer (race_goto i w c) = (rc_writer c)(i := w)"
  by (simp_all add: race_goto_def)

lemma landed_goto:
  "i < writers \<Longrightarrow> landed_writers (race_goto i w c) = (if w = Landed then insert i (landed_writers c) else landed_writers c - {i})"
  by (auto simp: landed_writers_def)

lemma landed_frame [simp]:
  "landed_writers (c\<lparr>rc_store := s\<rparr>) = landed_writers c" "landed_writers (c\<lparr>rc_tick := t\<rparr>) = landed_writers c"
  by (simp_all add: landed_writers_def)

lemma ticks_left_upd:
  assumes "i < writers"
  shows "(\<Sum>j < writers. int (ticks_left ((f(i := w)) j))) = (\<Sum>j < writers. int (ticks_left (f j))) - int (ticks_left (f i)) + int (ticks_left w)"
  using sum.remove [of "{..<writers}" i "\<lambda>j. int (ticks_left ((f(i := w)) j))"] sum.remove [of "{..<writers}" i "\<lambda>j. int (ticks_left (f j))"] assms
  by simp

lemma retry_ok_more:
  "retry_ok ds tick w \<Longrightarrow> tick \<le> tick' \<Longrightarrow> retry_ok (ds @ es) tick' w"
  by (cases w) auto

lemma landed_bound:
  assumes "i < writers" "rc_writer c i \<noteq> Landed"
  shows "card (landed_writers c) < writers"
proof -
  have "landed_writers c \<subseteq> {..<writers} - {i}" using assms by (auto simp: landed_writers_def)
  from card_mono [OF _ this] assms(1) show ?thesis by simp
qed

locale suite_store = store_contract store region inv view storable absent
  for store :: "('d, 's, unit) Store" and region :: "('d, 's) Region" and inv :: "'s \<Rightarrow> bool"
    and view :: "'s \<Rightarrow> string \<Rightarrow> 'd Stream option" and storable :: "'s \<Rightarrow> string \<Rightarrow> Envelope \<Rightarrow> 'd Payload \<Rightarrow> bool"
    and absent :: "string \<Rightarrow> go_error" +
  fixes uc :: unicode and A :: "'d apd"
  assumes direct_accepts:
      "inv s \<Longrightarrow> storable s n e p \<Longrightarrow> append_spec (view s n) n ex e kd (Some p) = Inr (st, r) \<Longrightarrow>
       \<exists>s'. so_Append store s n ex e kd (Some p) = (s', Inr r) \<and> inv s' \<and> view s' = (view s)(n \<mapsto> st)"
    and direct_refuses:
      "inv s \<Longrightarrow> storable s n e p \<Longrightarrow> append_spec (view s n) n ex e kd (Some p) = Inl err \<Longrightarrow>
       \<exists>s'. so_Append store s n ex e kd (Some p) = (s', Inl err) \<and> inv s' \<and> view s' = view s"
    and nested_refused: "rg_Serialise region n = Inl [ErrNestedSerialise]"
    and fixture_storable:
      "inv s \<Longrightarrow> view s ''acct-1'' = suite_holds A ds \<Longrightarrow> length ds \<le> 100 \<Longrightarrow> 0 \<le> d \<Longrightarrow> d \<le> 1000 * time_Hour \<Longrightarrow> suite_ticker tk \<Longrightarrow>
       storable s ''acct-1'' (suite_envelope d) (HoldingClaimedP (suite_held A tk))"
    and fixture_quantity: "is_ok (apd_NewFromString A ''100'')"
begin

definition holds :: "'s \<Rightarrow> (int \<times> string) list \<Rightarrow> bool" where
  "holds s ds \<longleftrightarrow> inv s \<and> view s ''acct-1'' = suite_holds A ds \<and> length ds \<le> 100"

lemma suite_load:
  assumes "holds s ds"
  shows "so_Load store s ''acct-1'' = (if ds = [] then Inl [ErrStreamNotFound] else Inr (suite_stream A ds))"
    "rg_Load region s ''acct-1'' = (if ds = [] then Inl [ErrStreamNotFound] else Inr (suite_stream A ds))"
  using assms absent_error [of "''acct-1''"] by (simp_all add: holds_def load region_load suite_holds_def)

lemma fixture_call:
  assumes "0 \<le> d" "suite_ticker tk"
  shows "suite_append uc A store s ex (envelopeAfter d) tk =
    Some (so_Append store s ''acct-1'' ex (suite_envelope d) KindObservation (Some (HoldingClaimedP (suite_held A tk))))"
  using assms fixture_quantity by (simp add: suite_append_def must_def envelopeAfter_eq suite_claim_eq suite_ticker_def)

text \<open>The three answers to an append of the fixture.\<close>

lemma fixture_accepted:
  assumes "holds s ds" "length ds < 100" "ex_checked ex \<longrightarrow> ex_length ex = int (length ds)" "ds \<noteq> [] \<longrightarrow> fst (last ds) < d"
    and "\<And>st r. append_spec (view s ''acct-1'') ''acct-1'' ex (suite_envelope d) KindObservation (Some (HoldingClaimedP (suite_held A tk))) = Inr (st, r) \<Longrightarrow>
      \<exists>s'. out = (s', Inr r) \<and> inv s' \<and> view s' = (view s)(''acct-1'' \<mapsto> st)"
  shows "\<exists>s'. out = (s', Inr \<lparr>fr_Stream = ''acct-1'', fr_Sequence = word_of_nat (length ds + 1)\<rparr>) \<and> holds s' (ds @ [(d, tk)])"
proof -
  have "append_spec (view s ''acct-1'') ''acct-1'' ex (suite_envelope d) KindObservation (Some (HoldingClaimedP (suite_held A tk))) =
      Inr (suite_stream A (ds @ [(d, tk)]), \<lparr>fr_Stream = ''acct-1'', fr_Sequence = word_of_nat (length ds + 1)\<rparr>)"
    using assms(1,3,4) by (auto simp: holds_def suite_append_spec)
  from assms(5) [OF this] assms(2) show ?thesis by (auto simp: holds_def suite_holds_def)
qed

lemma suite_accepts:
  assumes "holds s ds" "length ds < 100" "0 \<le> d" "d \<le> 1000 * time_Hour" "suite_ticker tk"
    and "ex_checked ex \<longrightarrow> ex_length ex = int (length ds)" "ds \<noteq> [] \<longrightarrow> fst (last ds) < d"
  shows "\<exists>s'. suite_append uc A store s ex (envelopeAfter d) tk =
      Some (s', Inr \<lparr>fr_Stream = ''acct-1'', fr_Sequence = word_of_nat (length ds + 1)\<rparr>) \<and> holds s' (ds @ [(d, tk)])"
  unfolding fixture_call [OF assms(3,5)] option.inject
  by (rule fixture_accepted [OF assms(1,2,6,7)])
     (use assms(1,3-5) fixture_storable direct_accepts in \<open>auto simp: holds_def\<close>)

lemma region_accepts:
  assumes "holds s ds" "length ds < 100" "0 \<le> d" "d \<le> 1000 * time_Hour" "suite_ticker tk"
    and "ex_checked ex \<longrightarrow> ex_length ex = int (length ds)" "ds \<noteq> [] \<longrightarrow> fst (last ds) < d"
  shows "\<exists>s'. rg_Append region s ''acct-1'' ex (suite_envelope d) KindObservation (Some (HoldingClaimedP (suite_held A tk))) =
      (s', Inr \<lparr>fr_Stream = ''acct-1'', fr_Sequence = word_of_nat (length ds + 1)\<rparr>) \<and> holds s' (ds @ [(d, tk)])"
  by (rule fixture_accepted [OF assms(1,2,6,7)])
     (use assms(1,3-5) fixture_storable append_accepts in \<open>auto simp: holds_def\<close>)

lemma suite_refuses:
  assumes "holds s ds" "0 \<le> d" "d \<le> 1000 * time_Hour" "suite_ticker tk"
    and "append_spec (suite_holds A ds) ''acct-1'' ex (suite_envelope d) KindObservation (Some (HoldingClaimedP (suite_held A tk))) = Inl err"
  shows "\<exists>s'. suite_append uc A store s ex (envelopeAfter d) tk = Some (s', Inl err) \<and> holds s' ds"
proof -
  have st: "inv s" "storable s ''acct-1'' (suite_envelope d) (HoldingClaimedP (suite_held A tk))" "view s ''acct-1'' = suite_holds A ds"
    using assms fixture_storable by (auto simp: holds_def)
  from direct_refuses [OF st(1,2) assms(5) [folded st(3)]] obtain s' where
    s': "so_Append store s ''acct-1'' ex (suite_envelope d) KindObservation (Some (HoldingClaimedP (suite_held A tk))) = (s', Inl err)"
      "inv s'" "view s' = view s" by blast
  have "holds s' ds" using s'(2,3) assms(1) by (simp add: holds_def)
  with s'(1) fixture_call [OF assms(2,4)] show ?thesis by simp
qed

lemma suite_stale:
  assumes "holds s ds" "0 \<le> d" "d \<le> 1000 * time_Hour" "suite_ticker tk" "ex_checked ex" "ex_length ex \<noteq> int (length ds)"
  shows "\<exists>s'. suite_append uc A store s ex (envelopeAfter d) tk = Some (s', Inl [ErrStaleRead]) \<and> holds s' ds"
  using suite_refuses [OF assms(1-4)] assms(5,6) by (simp add: suite_append_spec)

lemma suite_backwards:
  assumes "holds s ds" "0 \<le> d" "d \<le> 1000 * time_Hour" "suite_ticker tk" "ds \<noteq> []" "d \<le> fst (last ds)"
  shows "\<exists>s'. suite_append uc A store s Any (envelopeAfter d) tk = Some (s', Inl [ErrNonMonotonicKnowledge]) \<and> holds s' ds"
  using suite_refuses [OF assms(1-4), of Any] assms(5,6) by (simp add: suite_append_spec Any_def not_less)

lemma suite_must:
  assumes "holds s ds" "length ds < 100" "0 \<le> hour" "hour \<le> 1000" "suite_ticker tk"
    and "ex_checked ex \<longrightarrow> ex_length ex = int (length ds)" "ds \<noteq> [] \<longrightarrow> fst (last ds) < hour * time_Hour"
  shows "\<exists>s'. mustAppend uc A store s ex hour tk =
      Some (s', \<lparr>fr_Stream = ''acct-1'', fr_Sequence = word_of_nat (length ds + 1)\<rparr>) \<and> holds s' (ds @ [(hour * time_Hour, tk)])"
  using suite_accepts [OF assms(1,2) _ _ assms(5-7)] assms(3,4)
  by (fastforce simp: mustAppend_def must_def envelopeAt_def time_Hour_def)

lemma suite_three:
  assumes "holds s []"
  shows "\<exists>s'. mustAppendAll uc A store s 0 [''PETR4'', ''VALE3'', ''ITUB4''] =
      Some (s', map (\<lambda>i. \<lparr>fr_Stream = ''acct-1'', fr_Sequence = word_of_nat (i + 1)\<rparr>) [0..<3]) \<and> holds s' three"
proof -
  obtain s1 where s1: "mustAppend uc A store s Any 1 ''PETR4'' = Some (s1, \<lparr>fr_Stream = ''acct-1'', fr_Sequence = 1\<rparr>)"
    "holds s1 [(time_Hour, ''PETR4'')]"
    using suite_must [OF assms, of 1 "''PETR4''" Any] by (auto simp: Any_def)
  obtain s2 where s2: "mustAppend uc A store s1 Any 2 ''VALE3'' = Some (s2, \<lparr>fr_Stream = ''acct-1'', fr_Sequence = 2\<rparr>)"
    "holds s2 [(time_Hour, ''PETR4''), (2 * time_Hour, ''VALE3'')]"
    using suite_must [OF s1(2), of 2 "''VALE3''" Any] by (auto simp: Any_def time_Hour_def)
  obtain s3 where s3: "mustAppend uc A store s2 Any 3 ''ITUB4'' = Some (s3, \<lparr>fr_Stream = ''acct-1'', fr_Sequence = 3\<rparr>)"
    "holds s3 three"
    using suite_must [OF s2(2), of 3 "''ITUB4''" Any] by (auto simp: Any_def time_Hour_def)
  show ?thesis using s1(1) s2(1) s3 by (simp add: upt_rec)
qed

section \<open>Every case passes\<close>

lemma case_consecutive: "holds s [] \<Longrightarrow> appendsGetConsecutiveRefs uc A store s = Some ()"
proof -
  assume "holds s []"
  then obtain s1 where s1: "mustAppend uc A store s Any 1 ''PETR4'' = Some (s1, \<lparr>fr_Stream = ''acct-1'', fr_Sequence = 1\<rparr>)"
    "holds s1 [(time_Hour, ''PETR4'')]"
    using suite_must [of s "[]" 1 "''PETR4''" Any] by (auto simp: Any_def)
  obtain s2 where "mustAppend uc A store s1 Any 2 ''VALE3'' = Some (s2, \<lparr>fr_Stream = ''acct-1'', fr_Sequence = 2\<rparr>)"
    using suite_must [OF s1(2), of 2 "''VALE3''" Any] by (auto simp: Any_def time_Hour_def)
  with s1(1) show ?thesis by (simp add: appendsGetConsecutiveRefs_def check_def)
qed

lemma case_not_found: "inv s \<Longrightarrow> view s ''never-written'' = None \<Longrightarrow> unknownStreamIsNotFound store s = Some ()"
  using absent_error [of "''never-written''"]
  by (simp add: unknownStreamIsNotFound_def load fails_with_def check_def errors_Is_def)

lemma case_first: "holds s [] \<Longrightarrow> firstAppendCreatesTheStream uc A store s = Some ()"
proof -
  assume "holds s []"
  then obtain s1 where s1: "suite_append uc A store s (AtLength 0) (envelopeAt 1) ''PETR4'' = Some (s1, Inr \<lparr>fr_Stream = ''acct-1'', fr_Sequence = 1\<rparr>)"
    "holds s1 [(time_Hour, ''PETR4'')]"
    using suite_accepts [of s "[]" time_Hour "''PETR4''" "AtLength 0"] by (auto simp: AtLength_def envelopeAt_def time_Hour_def)
  then show ?thesis by (simp add: firstAppendCreatesTheStream_def must_def suite_load)
qed

lemma case_expectation: "holds s [] \<Longrightarrow> expectationHolds uc A store s = Some ()"
proof -
  assume "holds s []"
  then obtain s1 where s1: "mustAppend uc A store s (AtLength 0) 1 ''PETR4'' = Some (s1, \<lparr>fr_Stream = ''acct-1'', fr_Sequence = 1\<rparr>)"
    "holds s1 [(time_Hour, ''PETR4'')]"
    using suite_must [of s "[]" 1 "''PETR4''" "AtLength 0"] by (auto simp: AtLength_def)
  obtain s2 where s2: "mustAppend uc A store s1 (AtLength 1) 2 ''VALE3'' = Some (s2, \<lparr>fr_Stream = ''acct-1'', fr_Sequence = 2\<rparr>)"
    "holds s2 [(time_Hour, ''PETR4''), (2 * time_Hour, ''VALE3'')]"
    using suite_must [OF s1(2), of 2 "''VALE3''" "AtLength 1"] by (auto simp: AtLength_def time_Hour_def)
  from s1(1) s2 show ?thesis by (simp add: expectationHolds_def must_def suite_load check_def)
qed

lemma case_stale: "holds s [] \<Longrightarrow> staleReadIsRefused uc A store s = Some ()"
proof -
  assume "holds s []"
  then obtain s1 where s1: "mustAppend uc A store s (AtLength 0) 1 ''PETR4'' = Some (s1, \<lparr>fr_Stream = ''acct-1'', fr_Sequence = 1\<rparr>)"
    "holds s1 [(time_Hour, ''PETR4'')]"
    using suite_must [of s "[]" 1 "''PETR4''" "AtLength 0"] by (auto simp: AtLength_def)
  obtain s2 where s2: "suite_append uc A store s1 (AtLength 0) (envelopeAt 2) ''VALE3'' = Some (s2, Inl [ErrStaleRead])"
    "holds s2 [(time_Hour, ''PETR4'')]"
    using suite_stale [OF s1(2), of "2 * time_Hour" "''VALE3''" "AtLength 0"] by (auto simp: AtLength_def time_Hour_def envelopeAt_def)
  from s1(1) s2 show ?thesis
    by (simp add: staleReadIsRefused_def must_def suite_load check_def fails_with_def errors_Is_def suite_stream_def suite_fact_def
        held_instrument_def suite_held_def Stream_Len_def)
qed

lemma case_any: "holds s [] \<Longrightarrow> anyAppendsRegardless uc A store s = Some ()"
  using suite_three [of s] by (auto simp: anyAppendsRegardless_def must_def suite_load check_def simp del: mustAppendAll.simps)

lemma refused_hours_pass:
  "holds s [(5 * time_Hour, ''PETR4'')] \<Longrightarrow> list_all (\<lambda>h. 0 \<le> h \<and> h \<le> 5) hours \<Longrightarrow> refused_hours uc A store s hours = Some ()"
proof (induction hours arbitrary: s)
  case (Cons h hours)
  then obtain s' where "suite_append uc A store s Any (envelopeAt h) ''VALE3'' = Some (s', Inl [ErrNonMonotonicKnowledge])"
    "holds s' [(5 * time_Hour, ''PETR4'')]"
    using suite_backwards [OF Cons.prems(1), of "h * time_Hour" "''VALE3''"] by (auto simp: envelopeAt_def time_Hour_def)
  with Cons show ?case by (simp add: fails_with_def check_def errors_Is_def)
qed simp

lemma case_backwards:
  assumes "holds s []" "mset hours = mset [4, 5]"
  shows "knowledgeCannotGoBackwards uc A store s hours = Some ()"
proof -
  obtain s1 where s1: "mustAppend uc A store s Any 5 ''PETR4'' = Some (s1, \<lparr>fr_Stream = ''acct-1'', fr_Sequence = 1\<rparr>)"
    "holds s1 [(5 * time_Hour, ''PETR4'')]"
    using suite_must [OF assms(1), of 5 "''PETR4''" Any] by (auto simp: Any_def)
  have "set hours = {4, 5}" using mset_eq_setD [OF assms(2)] by simp
  then have "refused_hours uc A store s1 hours = Some ()" by (intro refused_hours_pass [OF s1(2)]) (auto simp: list_all_iff)
  with s1(1) show ?thesis by (simp add: knowledgeCannotGoBackwards_def)
qed

lemma case_sub_second: "holds s [] \<Longrightarrow> subSecondKnowledgeOrders uc A store s = Some ()"
proof -
  assume s: "holds s []"
  let ?half = "time_Hour + 500 * 1000000"
  obtain s1 where s1: "suite_append uc A store s Any (envelopeAfter time_Hour) ''PETR4'' = Some (s1, Inr \<lparr>fr_Stream = ''acct-1'', fr_Sequence = 1\<rparr>)"
    "holds s1 [(time_Hour, ''PETR4'')]"
    using suite_accepts [OF s, of time_Hour "''PETR4''" Any] by (auto simp: Any_def time_Hour_def)
  obtain s2 where s2: "suite_append uc A store s1 Any (envelopeAfter (time_Hour + 1)) ''VALE3'' = Some (s2, Inr \<lparr>fr_Stream = ''acct-1'', fr_Sequence = 2\<rparr>)"
    using suite_accepts [OF s1(2), of "time_Hour + 1" "''VALE3''" Any] by (auto simp: Any_def time_Hour_def)
  obtain s3 where s3: "suite_append uc A store s Any (envelopeAfter ?half) ''PETR4'' = Some (s3, Inr \<lparr>fr_Stream = ''acct-1'', fr_Sequence = 1\<rparr>)"
    "holds s3 [(?half, ''PETR4'')]"
    using suite_accepts [OF s, of ?half "''PETR4''" Any] by (auto simp: Any_def time_Hour_def)
  obtain s4 where "suite_append uc A store s3 Any (envelopeAfter time_Hour) ''VALE3'' = Some (s4, Inl [ErrNonMonotonicKnowledge])"
    using suite_backwards [OF s3(2), of time_Hour "''VALE3''"] by (auto simp: time_Hour_def)
  with s1(1) s2 s3(1) show ?thesis
    by (simp add: subSecondKnowledgeOrders_def must_def fails_with_def check_def errors_Is_def)
qed

lemma case_reload: "holds s [] \<Longrightarrow> factsReloadIntact uc A store s = Some ()"
proof -
  assume "holds s []"
  from suite_three [OF this] obtain s' where
    s': "mustAppendAll uc A store s 0 [''PETR4'', ''VALE3'', ''ITUB4''] =
      Some (s', map (\<lambda>i. \<lparr>fr_Stream = ''acct-1'', fr_Sequence = word_of_nat (i + 1)\<rparr>) [0..<3])" "holds s' three" by blast
  then show ?thesis
    by (simp add: factsReloadIntact_def Let_def must_def suite_load check_def reloaded_intact_def suite_stream_def upt_rec suite_fact_def
        held_instrument_def suite_held_def suite_envelope_def Provenance_IsZero_def Instant_IsZero_def epoch_eq time_Hour_def
        del: mustAppendAll.simps)
qed

lemma case_as_of: "holds s [] \<Longrightarrow> asOfMatchesProjection uc A store s = Some ()"
proof -
  assume "holds s []"
  from suite_three [OF this] obtain s' where
    s': "mustAppendAll uc A store s 0 [''PETR4'', ''VALE3'', ''ITUB4''] =
      Some (s', map (\<lambda>i. \<lparr>fr_Stream = ''acct-1'', fr_Sequence = word_of_nat (i + 1)\<rparr>) [0..<3])" "holds s' three" by blast
  have "suite_asOf h = Inr \<lparr>ao_effective = Instant (epoch + time_Hour), ao_knowledge = Instant (epoch + h * time_Hour)\<rparr>" if "0 \<le> h" for h
    using that by (simp add: suite_asOf_def MustAt_def At_def NewAsOf_def Instant_IsZero_def epoch_eq time_Hour_def)
  then show ?thesis
    using s' by (simp add: asOfMatchesProjection_def must_def suite_load check_def VisibleAt_def suite_stream_def upt_rec suite_fact_def
        Fact_Visible_iff suite_envelope_def Contains_def IsOpen_def instant_defs epoch_eq time_Hour_def del: mustAppendAll.simps)
qed

text \<open>A region that ends well leaves what its function left; one that fails leaves at most that.\<close>

lemma region_runs:
  assumes "holds s ds" "fn region (s, ()) = ((s1, ()), res)" "holds s1 ds'" "is_ok res \<or> view s1 = view s"
  shows "\<exists>s2. so_Serialise store ''acct-1'' fn (s, ()) = ((s2, ()), res) \<and> holds s2 ds' \<and> (view s1 = view s \<longrightarrow> view s2 = view s)"
  using serialise_runs [of s fn "()" s1 "()" res "''acct-1''"] assms by (auto simp: holds_def)

lemma case_nested: "holds s [] \<Longrightarrow> nestedSerialiseIsRefused store s = Some ()"
  using region_runs [of s "[]" "\<lambda>rg st. (st, rg_Serialise rg ''acct-1'')" s "Inl [ErrNestedSerialise]" "[]"] nested_refused
  by (auto simp: nestedSerialiseIsRefused_def fails_with_def check_def errors_Is_def)

lemma case_nothing: "holds s [] \<Longrightarrow> serialiseAppendsNothing store s = Some ()"
proof -
  assume s: "holds s []"
  then obtain s' where "so_Serialise store ''acct-1'' (\<lambda>_ st. (st, nil_result)) (s, ()) = ((s', ()), nil_result)" "holds s' []"
    using region_runs [of s "[]" "\<lambda>_ st. (st, nil_result)" s nil_result "[]"] by auto
  then show ?thesis
    by (simp add: serialiseAppendsNothing_def nil_result_def must_def suite_load fails_with_def check_def errors_Is_def)
qed

lemma case_error: "holds s [] \<Longrightarrow> serialiseReturnsTheError uc A store s = Some ()"
proof -
  assume s: "holds s []"
  let ?no = "''storetest: the callback said no''"
  let ?fn = "\<lambda>rg (s, k). case rg_Append rg s ''acct-1'' (AtLength 99) (suite_envelope (2 * time_Hour)) KindObservation
    (Some (HoldingClaimedP (suite_held A ''VALE3''))) of (s', r) \<Rightarrow> ((s', k), r)"
  obtain s1 where s1: "so_Serialise store ''acct-1'' (\<lambda>_ st. (st, Inl [?no])) (s, ()) = ((s1, ()), Inl [?no])" "holds s1 []"
    using region_runs [OF s, of "\<lambda>_ st. (st, Inl [?no])" s "Inl [?no]" "[]"] s by auto
  obtain s2 where s2: "suite_append uc A store s1 Any (envelopeAt 1) ''PETR4'' = Some (s2, Inr \<lparr>fr_Stream = ''acct-1'', fr_Sequence = 1\<rparr>)"
    "holds s2 [(time_Hour, ''PETR4'')]"
    using suite_accepts [OF s1(2), of time_Hour "''PETR4''" Any] by (auto simp: Any_def time_Hour_def envelopeAt_def)
  have "append_spec (view s2 ''acct-1'') ''acct-1'' (AtLength 99) (suite_envelope (2 * time_Hour)) KindObservation
      (Some (HoldingClaimedP (suite_held A ''VALE3''))) = Inl [ErrStaleRead]"
    using s2(2) by (simp add: holds_def suite_append_spec AtLength_def)
  moreover have "inv s2" "storable s2 ''acct-1'' (suite_envelope (2 * time_Hour)) (HoldingClaimedP (suite_held A ''VALE3''))"
    using s2(2) fixture_storable [of s2 "[(time_Hour, ''PETR4'')]" "2 * time_Hour" "''VALE3''"] by (simp_all add: holds_def time_Hour_def)
  ultimately obtain s3 where "?fn region (s2, ()) = ((s3, ()), Inl [ErrStaleRead])" "inv s3" "view s3 = view s2"
    using append_refuses [of s2 "''acct-1''" "suite_envelope (2 * time_Hour)" _ "AtLength 99"] by fastforce
  then obtain s4 where "so_Serialise store ''acct-1'' ?fn (s2, ()) = ((s4, ()), Inl [ErrStaleRead])"
    using region_runs [OF s2(2), of ?fn s3 "Inl [ErrStaleRead]" "[(time_Hour, ''PETR4'')]"] s2(2) by (auto simp: holds_def)
  moreover have "must (envelopeAt 2) = Some (suite_envelope (2 * time_Hour))" "must (suite_claim uc A ''VALE3'') = Some (suite_held A ''VALE3'')"
    using fixture_quantity by (simp_all add: must_def envelopeAt_def envelopeAfter_eq suite_claim_eq time_Hour_def)
  ultimately show ?thesis
    using s1(1) s2(1) by (simp add: serialiseReturnsTheError_def Let_def must_def fails_with_def check_def errors_Is_def)
qed

lemma retry_region_lands:
  assumes "holds s ds" "length ds < 100" "ds \<noteq> [] \<longrightarrow> fst (last ds) = int (length ds) * time_Hour"
  shows "\<exists>s'. so_Serialise store ''acct-1'' (retry_region uc A n) (s, ()) =
      ((s', ()), Inr \<lparr>fr_Stream = ''acct-1'', fr_Sequence = word_of_nat (length ds + 1)\<rparr>) \<and>
    holds s' (ds @ [((int (length ds) + 1) * time_Hour, writer_ticker n)])"
proof -
  let ?d = "(int (length ds) + 1) * time_Hour"
  have d: "0 \<le> ?d" "?d \<le> 1000 * time_Hour" "suite_ticker (writer_ticker n)" "ds \<noteq> [] \<longrightarrow> fst (last ds) < ?d"
    using assms(2,3) by (auto simp: time_Hour_def)
  obtain s1 where s1: "rg_Append region s ''acct-1'' (AtLength (int (length ds))) (suite_envelope ?d) KindObservation
      (Some (HoldingClaimedP (suite_held A (writer_ticker n)))) =
      (s1, Inr \<lparr>fr_Stream = ''acct-1'', fr_Sequence = word_of_nat (length ds + 1)\<rparr>)" "holds s1 (ds @ [(?d, writer_ticker n)])"
    using region_accepts [OF assms(1,2) d(1-3) _ d(4), of "AtLength (int (length ds))"] by (auto simp: AtLength_def)
  have "(case rg_Load region s ''acct-1'' of Inr stream \<Rightarrow> Inr (int (Stream_Len stream))
      | Inl e \<Rightarrow> if \<not> errors_Is e ErrStreamNotFound then Inl e else Inr 0) = Inr (int (length ds))"
    using assms(1) by (simp add: suite_load errors_Is_def)
  moreover have "envelopeAt (int (length ds) + 1) = Inr (suite_envelope ?d)" using d(1) by (simp add: envelopeAt_def envelopeAfter_eq)
  ultimately have "retry_region uc A n region (s, ()) =
      ((s1, ()), Inr \<lparr>fr_Stream = ''acct-1'', fr_Sequence = word_of_nat (length ds + 1)\<rparr>)"
    using s1(1) fixture_quantity d(3) by (simp add: retry_region_def suite_claim_eq)
  from region_runs [of s ds "retry_region uc A n", OF assms(1) this s1(2)] show ?thesis by auto
qed

lemma serialise_each_lands:
  assumes "holds s ds" "length ds + length order \<le> 100" "ds \<noteq> [] \<longrightarrow> fst (last ds) = int (length ds) * time_Hour"
  shows "\<exists>s' ds'. serialise_each uc A store s order = Some s' \<and> holds s' ds' \<and> length ds' = length ds + length order"
  using assms
proof (induction order arbitrary: s ds)
  case Nil
  then show ?case by auto
next
  case (Cons n order)
  from retry_region_lands [OF Cons.prems(1), of n] Cons.prems obtain s' where
    s': "so_Serialise store ''acct-1'' (retry_region uc A n) (s, ()) =
        ((s', ()), Inr \<lparr>fr_Stream = ''acct-1'', fr_Sequence = word_of_nat (length ds + 1)\<rparr>)"
      "holds s' (ds @ [((int (length ds) + 1) * time_Hour, writer_ticker n)])" by auto
  from Cons.IH [OF s'(2)] Cons.prems(2) show ?case
    by (auto simp: s'(1) must_def)
qed

lemma suite_sequences: "i < length ds \<Longrightarrow> fr_Sequence (f_ref (st_facts (suite_stream A ds) ! i)) = word_of_nat (i + 1)"
  by (simp add: suite_stream_def suite_fact_def)

lemma case_serialise:
  assumes "holds s []" "length order = writers"
  shows "serialiseRemovesTheRetry uc A store s order = Some ()"
proof -
  obtain s' ds where s': "serialise_each uc A store s order = Some s'" "holds s' ds" "length ds = writers"
    using serialise_each_lands [OF assms(1), of order] assms(2) by (auto simp: writers_def)
  have "list_all (\<lambda>(i, f). fr_Sequence (f_ref f) = word_of_nat (i + 1)) (enumerate 0 (st_facts (suite_stream A ds)))"
    using suite_sequences by (auto simp: list_all_iff in_set_enumerate_eq)
  moreover have "ds \<noteq> []" using s'(3) by (auto simp: writers_def)
  ultimately show ?thesis using s' by (simp add: serialiseRemovesTheRetry_def must_def suite_load check_def)
qed

text \<open>The retry loop.\<close>

definition race_ok :: "'s Racing \<Rightarrow> (int \<times> string) list \<Rightarrow> bool" where
  "race_ok c ds \<longleftrightarrow> holds (rc_store c) ds \<and> 0 \<le> rc_tick c \<and> (\<forall>x \<in> set ds. fst x \<le> rc_tick c * time_Hour) \<and>
     length ds = card (landed_writers c) \<and>
     rc_tick c + (\<Sum>i < writers. int (ticks_left (rc_writer c i))) \<le> 65 \<and>
     (\<forall>i < writers. retry_ok ds (rc_tick c) (rc_writer c i))"

lemma race_started: "holds s [] \<Longrightarrow> race_ok (racing_start s) []"
  by (simp add: race_ok_def racing_start_def landed_writers_def writers_def)

lemma race_tick:
  assumes "race_ok c ds" "i < writers" "rc_writer c i = Trying a"
  shows "race_ok (race_goto i (Ticked a (rc_tick c + 1)) (c\<lparr>rc_tick := rc_tick c + 1\<rparr>)) ds"
proof -
  let ?c = "race_goto i (Ticked a (rc_tick c + 1)) (c\<lparr>rc_tick := rc_tick c + 1\<rparr>)"
  have early: "\<forall>x \<in> set ds. fst x < (rc_tick c + 1) * time_Hour"
    using assms(1) by (force simp: race_ok_def time_Hour_def)
  then have "filter (\<lambda>x. fst x < (rc_tick c + 1) * time_Hour) ds = ds" by simp
  moreover have a: "a \<le> length ds" "length ds < writers"
    using assms landed_bound [OF assms(2), of c] by (auto simp: race_ok_def dest!: spec [of _ i])
  ultimately have "retry_ok ds (rc_tick c + 1) (rc_writer ?c j)" if "j < writers" for j
    using assms(1) that retry_ok_more [of ds "rc_tick c" "rc_writer c j" "rc_tick c + 1" "[]"] by (auto simp: race_ok_def)
  moreover have "landed_writers ?c = landed_writers c" using assms(2,3) by (auto simp: landed_writers_def)
  moreover have "(\<Sum>j < writers. int (ticks_left (rc_writer ?c j))) = (\<Sum>j < writers. int (ticks_left (rc_writer c j))) - 1"
    using ticks_left_upd [OF assms(2), of "rc_writer c" "Ticked a (rc_tick c + 1)"] a assms(3) by simp
  ultimately show ?thesis using assms(1) early by (auto simp: race_ok_def intro: less_imp_le)
qed

lemma ticked_bound:
  assumes "race_ok c ds" "i < writers" "rc_writer c i = Ticked a h"
  shows "0 \<le> h" "h \<le> 65" "h \<le> rc_tick c" "a \<le> length (filter (\<lambda>x. fst x < h * time_Hour) ds)" "length ds < writers"
proof -
  have "0 \<le> (\<Sum>j < writers. int (ticks_left (rc_writer c j)))" by (rule sum_nonneg) simp
  then show "0 \<le> h" "h \<le> 65" "h \<le> rc_tick c" "a \<le> length (filter (\<lambda>x. fst x < h * time_Hour) ds)" "length ds < writers"
    using assms landed_bound [OF assms(2), of c] by (auto simp: race_ok_def dest!: spec [of _ i])
qed

lemma race_appends:
  assumes "race_ok c ds" "i < writers" "rc_writer c i = Ticked a h" "ds \<noteq> [] \<longrightarrow> fst (last ds) < h * time_Hour"
  shows "\<exists>s' ref. suite_append uc A store (rc_store c) Any (envelopeAt h) (writer_ticker i) = Some (s', Inr ref) \<and>
    race_ok (race_goto i Landed (c\<lparr>rc_store := s'\<rparr>)) (ds @ [(h * time_Hour, writer_ticker i)])"
proof -
  note h = ticked_bound [OF assms(1-3)]
  have holds: "holds (rc_store c) ds" using assms(1) by (simp add: race_ok_def)
  obtain s' ref where s': "suite_append uc A store (rc_store c) Any (envelopeAt h) (writer_ticker i) = Some (s', Inr ref)"
    "holds s' (ds @ [(h * time_Hour, writer_ticker i)])"
    using suite_accepts [OF holds _ _ _ writer_ticker_ok _ assms(4), of Any i] h
    by (auto simp: envelopeAt_def Any_def time_Hour_def writers_def)
  let ?c = "race_goto i Landed (c\<lparr>rc_store := s'\<rparr>)"
  have "retry_ok (ds @ [(h * time_Hour, writer_ticker i)]) (rc_tick c) (rc_writer ?c j)" if "j < writers" for j
    using assms(1) that retry_ok_more [of ds "rc_tick c" "rc_writer c j" "rc_tick c"] by (auto simp: race_ok_def)
  moreover have "card (landed_writers ?c) = length ds + 1"
    using assms(1-3) by (simp add: landed_goto race_ok_def) (simp add: landed_writers_def)
  moreover have "(\<Sum>j < writers. int (ticks_left (rc_writer ?c j))) \<le> (\<Sum>j < writers. int (ticks_left (rc_writer c j)))"
    using ticks_left_upd [OF assms(2), of "rc_writer c" Landed] by simp
  moreover have "h * time_Hour \<le> rc_tick c * time_Hour" using h(3) by (simp add: time_Hour_def)
  ultimately show ?thesis using assms(1) s' by (auto simp: race_ok_def)
qed

lemma race_overtaken:
  assumes "race_ok c ds" "i < writers" "rc_writer c i = Ticked a h" "ds \<noteq> []" "h * time_Hour \<le> fst (last ds)"
  shows "\<exists>s'. suite_append uc A store (rc_store c) Any (envelopeAt h) (writer_ticker i) = Some (s', Inl [ErrNonMonotonicKnowledge]) \<and>
    race_ok (race_goto i (Trying (a + 1)) (c\<lparr>rc_store := s'\<rparr>)) ds"
proof -
  note h = ticked_bound [OF assms(1-3)]
  have holds: "holds (rc_store c) ds" using assms(1) by (simp add: race_ok_def)
  obtain s' where s': "suite_append uc A store (rc_store c) Any (envelopeAt h) (writer_ticker i) = Some (s', Inl [ErrNonMonotonicKnowledge])"
    "holds s' ds"
    using suite_backwards [OF holds _ _ writer_ticker_ok assms(4,5), of i] h by (auto simp: envelopeAt_def time_Hour_def)
  let ?c = "race_goto i (Trying (a + 1)) (c\<lparr>rc_store := s'\<rparr>)"
  have "length (filter (\<lambda>x. fst x < h * time_Hour) ds) < length ds"
    using assms(4,5) last_in_set [OF assms(4)] by (intro length_filter_less [of "last ds"]) auto
  then have "retry_ok ds (rc_tick c) (rc_writer ?c j)" if "j < writers" for j
    using assms(1) that h(4) by (auto simp: race_ok_def)
  moreover have "landed_writers ?c = landed_writers c" using assms(2,3) by (auto simp: landed_writers_def)
  moreover have "(\<Sum>j < writers. int (ticks_left (rc_writer ?c j))) = (\<Sum>j < writers. int (ticks_left (rc_writer c j)))"
    using ticks_left_upd [OF assms(2), of "rc_writer c" "Trying (a + 1)"] assms(3) by simp
  ultimately show ?thesis using assms(1) s' by (auto simp: race_ok_def)
qed

lemma retry_step_ok:
  assumes "retry_step uc A store c c'" "race_ok c ds"
  shows "\<exists>ds'. race_ok c' ds'"
  using assms(1)
proof cases
  case (tick i a)
  then show ?thesis using race_tick [OF assms(2)] by blast
next
  case (never_landed i a)
  have "a \<le> length ds" "length ds < writers"
    using assms(2) never_landed landed_bound [of i c] by (auto simp: race_ok_def dest!: spec [of _ i])
  then show ?thesis using never_landed by (simp add: writers_def attempts_def)
next
  case (land i a h s' ref)
  then show ?thesis
    using race_appends [OF assms(2) land(2,3)] race_overtaken [OF assms(2) land(2,3)] by (fastforce simp: not_less)
next
  case (overtaken i a h s' e)
  then show ?thesis
    using race_appends [OF assms(2) overtaken(2,3)] race_overtaken [OF assms(2) overtaken(2,3)] by (fastforce simp: not_less)
next
  case (broken i a h s' e)
  then show ?thesis
    using race_appends [OF assms(2) broken(2,3)] race_overtaken [OF assms(2) broken(2,3)] by (fastforce simp: not_less errors_Is_def)
qed

lemma race_progress:
  assumes "race_ok c ds" "i < writers" "rc_writer c i \<noteq> Landed"
  shows "\<exists>c'. retry_step uc A store c c'"
proof (cases "rc_writer c i")
  case (Trying a)
  then show ?thesis using retry_step.tick retry_step.never_landed assms(2) by blast
next
  case (Ticked a h)
  show ?thesis
  proof (cases "ds \<noteq> [] \<longrightarrow> fst (last ds) < h * time_Hour")
    case True
    then obtain s' ref where "suite_append uc A store (rc_store c) Any (envelopeAt h) (writer_ticker i) = Some (s', Inr ref)"
      using race_appends [OF assms(1,2) Ticked] by blast
    from retry_step.land [OF assms(2) Ticked this] show ?thesis by blast
  next
    case False
    then obtain s' where "suite_append uc A store (rc_store c) Any (envelopeAt h) (writer_ticker i) = Some (s', Inl [ErrNonMonotonicKnowledge])"
      using race_overtaken [OF assms(1,2) Ticked] by (auto simp: not_less)
    from retry_step.overtaken [OF assms(2) Ticked this] show ?thesis by (auto simp: errors_Is_def)
  qed
qed (use assms in \<open>auto simp: race_ok_def\<close>)

lemma retry_step_left:
  assumes "retry_step uc A store c c'" "race_ok c ds"
  shows "(\<Sum>i < writers. steps_left (rc_writer c' i)) < (\<Sum>i < writers. steps_left (rc_writer c i))"
proof -
  have few: "a < writers" if "i < writers" "rc_writer c i = Trying a" for i a
    using assms(2) that landed_bound [of i c] by (fastforce simp: race_ok_def dest!: spec [of _ i])
  have few': "a < writers" if "i < writers" "rc_writer c i = Ticked a h" for i a h
    using ticked_bound [OF assms(2) that] length_filter_le [of "\<lambda>x. fst x < h * time_Hour" ds] by linarith
  have less: ?thesis if "i < writers" "rc_writer c' = (rc_writer c)(i := w)" "steps_left w < steps_left (rc_writer c i)" for i w
    using that by (intro sum_strict_mono_ex1) (auto intro!: bexI [of _ i])
  show ?thesis
    using assms(1)
  proof cases
    case (tick i a)
    then show ?thesis using few [OF tick(2,3)] by (intro less [of i "Ticked a (rc_tick c + 1)"]) auto
  next
    case (never_landed i a)
    then show ?thesis using few [OF never_landed(2,3)] by (intro less [of i "GaveUp []"]) auto
  next
    case (land i a h s' ref)
    then show ?thesis using few' [OF land(2,3)] by (intro less [of i Landed]) auto
  next
    case (overtaken i a h s' e)
    then show ?thesis using few' [OF overtaken(2,3)] by (intro less [of i "Trying (a + 1)"]) auto
  next
    case (broken i a h s' e)
    then show ?thesis using few' [OF broken(2,3)] by (intro less [of i "GaveUp e"]) auto
  qed
qed

lemma race_run:
  assumes "(retry_step uc A store ^^ m) (racing_start s) c" "holds s []"
  shows "(\<exists>ds. race_ok c ds) \<and> m + (\<Sum>i < writers. steps_left (rc_writer c i)) \<le> 128"
  using assms(1)
proof (induction m arbitrary: c)
  case 0
  then show ?case using race_started [OF assms(2)] by (auto simp: racing_start_def writers_def)
next
  case (Suc m)
  then obtain b where b: "(retry_step uc A store ^^ m) (racing_start s) b" "retry_step uc A store b c" by auto
  with Suc.IH obtain ds where "race_ok b ds" "m + (\<Sum>i < writers. steps_left (rc_writer b i)) \<le> 128" by blast
  with retry_step_ok [OF b(2)] retry_step_left [OF b(2)] show ?case by fastforce
qed

lemma race_passes:
  assumes "(retry_step uc A store ^^ m) (racing_start s) c" "holds s []"
  shows "m \<le> 128 \<and> (\<forall>i < writers. \<forall>a h. rc_writer c i = Trying a \<or> rc_writer c i = Ticked a h \<longrightarrow> a < writers) \<and>
    (race_over uc A store c \<longrightarrow> concurrentAppendsSerialise store c = Some ())"
proof (intro conjI)
  obtain ds where ok: "race_ok c ds" and m: "m \<le> 128" using race_run [OF assms] by auto
  show "m \<le> 128" by (rule m)
  show "\<forall>i < writers. \<forall>a h. rc_writer c i = Trying a \<or> rc_writer c i = Ticked a h \<longrightarrow> a < writers"
  proof (intro allI impI)
    fix i a h
    assume "i < writers" "rc_writer c i = Trying a \<or> rc_writer c i = Ticked a h"
    then show "a < writers"
      using ok landed_bound [of i c] ticked_bound [OF ok, of i a h] length_filter_le [of "\<lambda>x. fst x < h * time_Hour" ds]
      by (fastforce simp: race_ok_def dest!: spec [of _ i])
  qed
  show "race_over uc A store c \<longrightarrow> concurrentAppendsSerialise store c = Some ()"
  proof
    assume "race_over uc A store c"
    then have all: "\<forall>i < writers. rc_writer c i = Landed" using race_progress [OF ok] unfolding race_over_def by blast
    then have "landed_writers c = {..<writers}" by (auto simp: landed_writers_def)
    then have len: "length ds = writers" using ok by (simp add: race_ok_def)
    let ?seqs = "map (\<lambda>f. fr_Sequence (f_ref f)) (st_facts (suite_stream A ds))"
    have seqs: "?seqs = map word_of_nat [1..<writers + 1]"
      by (rule nth_equalityI) (simp_all add: len suite_stream_def suite_fact_def del: upt_Suc)
    have "distinct ?seqs" unfolding seqs by (simp add: writers_def upt_rec)
    moreover have "list_all (\<lambda>i. word_of_nat i \<in> set ?seqs) [1..<writers + 1]" unfolding seqs by (simp add: list_all_iff)
    moreover have "list_all (\<lambda>i. rc_writer c i = Landed) [0..<writers]" using all by (simp add: list_all_iff)
    moreover have "ds \<noteq> []" "holds (rc_store c) ds" using len ok by (auto simp: writers_def race_ok_def)
    then have "must (so_Load store (rc_store c) ''acct-1'') = Some (suite_stream A ds)"
      by (simp add: must_def suite_load)
    ultimately show "concurrentAppendsSerialise store c = Some ()"
      by (simp only: concurrentAppendsSerialise_def check_def bind.bind_lunit suite_stream_simps len simp_thms if_True)
  qed
qed

lemma race_ends:
  assumes "holds s []"
  shows "\<exists>c. (retry_step uc A store)\<^sup>*\<^sup>* (racing_start s) c \<and> race_over uc A store c"
proof -
  have "m \<le> 128" if "(retry_step uc A store ^^ m) (racing_start s) c" for m c
    using race_passes [OF that assms] by blast
  then show ?thesis unfolding race_over_def by (rule bounded_run_ends)
qed

lemma suite_passes:
  assumes "holds s []" "view s ''never-written'' = None" "mset hours = mset [4, 5]" "length order = writers"
    and "(retry_step uc A store)\<^sup>*\<^sup>* (racing_start s) c" "race_over uc A store c"
  shows "suite_Run uc A store s hours c order = Some ()"
proof -
  have "inv s" using assms(1) by (simp add: holds_def)
  moreover have "concurrentAppendsSerialise store c = Some ()"
    using race_passes [OF _ assms(1)] assms(5,6) by (auto dest: rtranclp_imp_relpowp)
  ultimately show ?thesis
    using assms(1-4) case_consecutive case_not_found case_first case_expectation case_stale case_any case_backwards case_sub_second
      case_reload case_as_of case_serialise case_nested case_error case_nothing
    by (simp add: suite_Run_def)
qed

end

section \<open>Both stores keep the suite's contract\<close>

lemma memory_suite_store:
  assumes "is_ok (apd_NewFromString A ''100'')"
  shows "suite_store (memory_store :: ('d, 'd MemStore, unit) Store) memory_scoped (\<lambda>_. True) (\<lambda>s. s) (\<lambda>_ _ _ _. True) (\<lambda>_. [ErrStreamNotFound]) A"
proof (intro suite_store.intro suite_store_axioms.intro)
  show "store_contract (memory_store :: ('d, 'd MemStore, unit) Store) memory_scoped (\<lambda>_. True) (\<lambda>s. s) (\<lambda>_ _ _ _. True) (\<lambda>_. [ErrStreamNotFound])"
    by (rule memory.store_contract_axioms)
qed (auto simp: memory_store_def memory_Append_spec memory_scoped_def assms)

lemma suite_value_ok:
  assumes "is_ok (apd_NewFromString A ''100'')" "apd_text A" "suite_ticker tk"
  shows "payload_value_ok uc A (HoldingClaimedP (suite_held A tk))"
proof -
  have "validateCanonical ''100'' = Inr ()"
    by (simp add: validateCanonical_def ascii_eval ContainsAny_def TrimPrefix_def HasSuffix_def)
  then have "ParseQuantity A ''100'' ''share'' = Inr (hc_Quantity (suite_held A tk))"
    using assms(1) by (auto simp: ParseQuantity_def suite_held_def is_ok_iff)
  from ParseQuantity_wf [OF assms(2) this] show ?thesis
    using assms(3) by (simp add: wf_claim_def suite_held_def suite_schemes suite_ticker_def)
qed

lemma suite_envelope_ok:
  assumes "0 \<le> d" "d \<le> 1000 * time_Hour"
  shows "envelope_value_ok (suite_envelope d)" "nanos_exact (knowledge (ev_coordinates (suite_envelope d)))"
proof -
  have "NewInterpreter UnmediatedName UnmediatedVersion = Inr \<lparr>ip_name = UnmediatedName, ip_version = UnmediatedVersion\<rparr>"
    by (simp add: NewInterpreter_def UnmediatedName_def UnmediatedVersion_def ascii_eval)
  then show "envelope_value_ok (suite_envelope d)"
    using assms suite_source
    by (simp add: envelope_value_ok_def coordinates_value_ok_def interval_value_ok_def wf_interval_def provenance_value_ok_def
        wf_provenance_def instant_value_ok_def time_in_range_def zeroInstant_def suite_envelope_def epoch_eq time_Hour_def
        Confidence_Valid_def enum_defs Unmediated_def UnmediatedName_def)
  show "nanos_exact (knowledge (ev_coordinates (suite_envelope d)))"
    using assms by (simp add: nanos_exact_iff suite_envelope_def epoch_eq time_Hour_def)
qed


text \<open>The runtime marshals the facts of the suite: its one stream, its envelopes, and claims whose ticker is
  a non-empty ASCII string, which is valid UTF-8.\<close>

definition suite_encodes :: "('db, 'blob, 'ts, 'any, 'd) libs \<Rightarrow> bool" where
  "suite_encodes L \<longleftrightarrow> (\<forall>sq d tk kd. 0 \<le> d \<and> d \<le> 1000 * time_Hour \<and> suite_ticker tk \<and> FactKind_Valid kd \<longrightarrow>
     is_ok (sqlite_encodeFact L \<lparr>f_ref = \<lparr>fr_Stream = ''acct-1'', fr_Sequence = sq\<rparr>, f_envelope = suite_envelope d, f_kind = kd,
       f_payload = HoldingClaimedP (suite_held (lb_apd L) tk)\<rparr>))"

context durable_store
begin

lemma suite_rows:
  assumes "sqlite_inv L table db" "sqlite_view L db n = suite_holds A ds" "n \<noteq> []"
  shows "length (stream_rows (table db) n) = length ds"
proof -
  obtain fs where fs: "list_all2 (row_holds L) (stream_rows (table db) n) fs" "facts_stored L n fs"
    using assms(1) unfolding sqlite_inv_def by blast
  have "sqlite_view L db n = (if fs = [] then None else Some \<lparr>st_name = n, st_facts = fs\<rparr>)"
    using loadFrom_stored [OF fs] assms(3) by (simp add: sqlite_view_def)
  then have "length fs = length ds"
    using assms(2) by (auto simp: suite_holds_def split: if_splits dest: arg_cong [where f = "\<lambda>st. length (st_facts st)"])
  then show ?thesis using list_all2_lengthD [OF fs(1)] by simp
qed

lemma fresh_view: "table db = [] \<Longrightarrow> sqlite_view L db n = None"
  by (simp add: sqlite_view_def loadFrom_def facts_query stream_rows_def NewStream_def)

lemma durable_suite_store:
  assumes "is_ok (apd_NewFromString (lb_apd L) ''100'')" "apd_text (lb_apd L)"
    and "suite_encodes L"
  shows "suite_store (sqlite_store L :: ('d, 'db, unit) Store) (regional L) (sqlite_inv L table) (sqlite_view L) (sqlite_storable L table)
    sqlite_absent (lb_apd L)"
proof (intro suite_store.intro suite_store_axioms.intro)
  show "store_contract (sqlite_store L :: ('d, 'db, unit) Store) (regional L) (sqlite_inv L table) (sqlite_view L) (sqlite_storable L table) sqlite_absent"
    by (rule durable.store_contract_axioms)
next
  fix s n e p ex kd st r
  assume a: "sqlite_inv L table s" "sqlite_storable L table s n e p" "append_spec (sqlite_view L s n) n ex e kd (Some p) = Inr (st, r)"
  then show "\<exists>s'. so_Append (sqlite_store L) s n ex e kd (Some p) = (s', Inr r) \<and> sqlite_inv L table s' \<and> sqlite_view L s' = (sqlite_view L s)(n \<mapsto> st)"
    using sqlite_Append_refines [OF a(1,2), of ex kd] by (simp add: sqlite_store_def memory_Append_spec)
next
  fix s n e p ex kd err
  assume a: "sqlite_inv L table s" "sqlite_storable L table s n e p" "append_spec (sqlite_view L s n) n ex e kd (Some p) = Inl err"
  then show "\<exists>s'. so_Append (sqlite_store L) s n ex e kd (Some p) = (s', Inl err) \<and> sqlite_inv L table s' \<and> sqlite_view L s' = sqlite_view L s"
    using sqlite_Append_refines [OF a(1,2), of ex kd] by (simp add: sqlite_store_def memory_Append_spec)
next
  fix s ds d and tk :: string
  assume a: "sqlite_inv L table s" "sqlite_view L s ''acct-1'' = suite_holds (lb_apd L) ds" "length ds \<le> 100" "0 \<le> d"
    "d \<le> 1000 * time_Hour" "suite_ticker tk"
  then show "sqlite_storable L table s ''acct-1'' (suite_envelope d) (HoldingClaimedP (suite_held (lb_apd L) tk))"
    using suite_rows [OF a(1,2)] suite_envelope_ok [OF a(4,5)] suite_value_ok [OF assms(1,2) a(6)] assms(3)
    by (auto simp: sqlite_storable_def suite_encodes_def marshals_def)
qed (simp_all add: regional_def assms(1))

lemma fresh_holds:
  assumes "is_ok (apd_NewFromString (lb_apd L) ''100'')" "apd_text (lb_apd L)" "suite_encodes L" "table db = []"
  shows "suite_store.holds (sqlite_inv L table) (sqlite_view L) (lb_apd L) db []"
  using empty_inv [OF assms(4)] fresh_view [OF assms(4)]
  by (simp add: suite_store.holds_def [OF durable_suite_store [OF assms(1-3)]] suite_holds_def)

end

lemma int_hundred: "is_ok (apd_NewFromString int_apd ''100'')"
  by (simp add: int_apd_def)

lemma list_suite: "lb_apd list_libs = int_apd" "suite_encodes list_libs"
  by (simp_all add: suite_encodes_def list_encodes) (simp add: list_libs_def)

interpretation memory_suite: suite_store "memory_store :: (int, int MemStore, unit) Store" memory_scoped "\<lambda>_. True" "\<lambda>s. s"
  "\<lambda>_ _ _ _. True" "\<lambda>_. [ErrStreamNotFound]" unicode_ascii int_apd
  by (rule memory_suite_store) (rule int_hundred)

interpretation durable_suite: suite_store "sqlite_store list_libs" "regional list_libs" "sqlite_inv list_libs (\<lambda>db. db)"
  "sqlite_view list_libs" "sqlite_storable list_libs (\<lambda>db. db)" sqlite_absent unicode_ascii "lb_apd list_libs"
  by (rule list_durable.durable_suite_store) (simp_all add: list_suite int_apd_text int_hundred)

section \<open>Properties\<close>

text \<open>C7: both stores pass the conformance suite. On a fresh in-memory store and on a fresh durable one,
  whatever order the scheduler runs the goroutines in and the map is iterated in, all fifteen cases pass:
  references are consecutive, an unknown stream is not found, a stale read is refused and not applied,
  knowledge time cannot go back by as little as a nanosecond, facts reload intact and as-of reads see what
  was known, racing writers all land, a region admits every writer on its only attempt, refuses to nest,
  returns its function's error and appends nothing of its own.\<close>

theorem stores_conform:
  assumes laws: "sqlite_law (lb_sqlite L) table" "proto_law (lb_proto L)" "timestamppb_exact (lb_time L)" "anypb_exact (lb_any L)"
    "apd_text (lb_apd L)" "is_ok (apd_NewFromString (lb_apd L) ''100'')"
    and encodes: "suite_encodes L"
    and fresh: "table db = []" and schedule: "mset hours = mset [4, 5]" "mset order = mset [0..<writers]"
    and races: "(retry_step uc (lb_apd L) memory_store)\<^sup>*\<^sup>* (racing_start NewStore) c" "race_over uc (lb_apd L) memory_store c"
      "(retry_step uc (lb_apd L) (sqlite_store L))\<^sup>*\<^sup>* (racing_start db) d" "race_over uc (lb_apd L) (sqlite_store L) d"
  shows "suite_Run uc (lb_apd L) memory_store NewStore hours c order = Some () \<and>
    suite_Run uc (lb_apd L) (sqlite_store L) db hours d order = Some ()"
proof
  have len: "length order = writers" using mset_eq_length [OF schedule(2)] by simp
  note mem = memory_suite_store [OF laws(6)]
  show "suite_Run uc (lb_apd L) memory_store NewStore hours c order = Some ()"
    by (rule suite_store.suite_passes [OF mem _ _ schedule(1) len races(1,2)])
      (simp_all add: suite_store.holds_def [OF mem] suite_holds_def NewStore_def)
  have d: "durable_store L table" by (rule durable_store.intro [OF laws(1-4)])
  note dur = durable_store.durable_suite_store [OF d laws(6,5) encodes]
  show "suite_Run uc (lb_apd L) (sqlite_store L) db hours d order = Some ()"
    by (rule suite_store.suite_passes [OF dur durable_store.fresh_holds [OF d laws(6,5) encodes fresh] _ schedule(1) len races(3,4)])
      (rule durable_store.fresh_view [OF d fresh])
qed

text \<open>C8: the retry loop always lands. Eight writers append to one stream without a region, each ticking a
  shared counter and appending at that hour, retrying when another writer overtook it; ticks and appends
  interleave in any way. On either store no writer ever fails more than seven times, far from the bound of
  200, a run takes at most 128 steps, and one that cannot go on has passed the case: every writer landed,
  eight facts, sequences 1 to 8 each given once.\<close>

theorem retries_land:
  assumes laws: "sqlite_law (lb_sqlite L) table" "proto_law (lb_proto L)" "timestamppb_exact (lb_time L)" "anypb_exact (lb_any L)"
    "apd_text (lb_apd L)" "is_ok (apd_NewFromString (lb_apd L) ''100'')"
    and encodes: "suite_encodes L"
    and fresh: "table db = []"
  shows "((retry_step uc (lb_apd L) memory_store ^^ m) (racing_start NewStore) c \<longrightarrow>
      m \<le> 128 \<and> (\<forall>i < writers. \<forall>a h. rc_writer c i = Trying a \<or> rc_writer c i = Ticked a h \<longrightarrow> a < writers) \<and>
      (race_over uc (lb_apd L) memory_store c \<longrightarrow> concurrentAppendsSerialise memory_store c = Some ())) \<and>
    ((retry_step uc (lb_apd L) (sqlite_store L) ^^ m) (racing_start db) d \<longrightarrow>
      m \<le> 128 \<and> (\<forall>i < writers. \<forall>a h. rc_writer d i = Trying a \<or> rc_writer d i = Ticked a h \<longrightarrow> a < writers) \<and>
      (race_over uc (lb_apd L) (sqlite_store L) d \<longrightarrow> concurrentAppendsSerialise (sqlite_store L) d = Some ()))"
proof -
  note mem = memory_suite_store [OF laws(6)]
  have "suite_store.holds (\<lambda>_. True) (\<lambda>s. s) (lb_apd L) NewStore []"
    by (simp add: suite_store.holds_def [OF mem] suite_holds_def NewStore_def)
  note mem' = suite_store.race_passes [OF mem _ this]
  have dur: "durable_store L table" by (rule durable_store.intro [OF laws(1-4)])
  note dur' = durable_store.durable_suite_store [OF dur laws(6,5) encodes]
  note dur'' = suite_store.race_passes [OF dur' _ durable_store.fresh_holds [OF dur laws(6,5) encodes fresh]]
  show ?thesis using mem' dur'' by blast
qed

section \<open>Witnesses\<close>

theorem stores_conform_witness:
  "\<exists>c d. suite_Run unicode_ascii int_apd memory_store NewStore [5, 4] c [3, 1, 2, 0, 7, 6, 5, 4] = Some () \<and>
   suite_Run unicode_ascii int_apd (sqlite_store list_libs) [] [5, 4] d [3, 1, 2, 0, 7, 6, 5, 4] = Some ()"
proof -
  have order: "mset [3, 1, 2, 0, 7, 6, 5, 4] = mset [0..<writers]" by code_simp
  obtain c where c: "(retry_step unicode_ascii int_apd memory_store)\<^sup>*\<^sup>* (racing_start NewStore) c" "race_over unicode_ascii int_apd memory_store c"
    using memory_suite.race_ends [of NewStore] by (auto simp: memory_suite.holds_def suite_holds_def NewStore_def)
  obtain d where "(retry_step unicode_ascii int_apd (sqlite_store list_libs))\<^sup>*\<^sup>* (racing_start []) d"
      "race_over unicode_ascii int_apd (sqlite_store list_libs) d"
    using durable_suite.race_ends [of "[]"] list_durable.fresh_holds [of "[]"] by (auto simp: list_suite int_hundred int_apd_text)
  with c order show ?thesis
    using stores_conform [OF list_laws, where db = "[]" and hours = "[5, 4]" and order = "[3, 1, 2, 0, 7, 6, 5, 4]" and uc = unicode_ascii
      and c = c and d = d]
    by (intro exI [of _ c] exI [of _ d]) (simp add: list_suite int_apd_text int_hundred)
qed

theorem retries_land_witness:
  "\<exists>c. (retry_step unicode_ascii int_apd memory_store ^^ 1) (racing_start (NewStore :: int MemStore)) c \<and>
     rc_writer c 0 = Ticked 0 2 \<and> (1::nat) \<le> 128 \<and> (\<forall>a h. rc_writer c 0 = Ticked a h \<longrightarrow> a < writers)"
proof -
  let ?c = "race_goto 0 (Ticked 0 2) (racing_start (NewStore :: int MemStore)\<lparr>rc_tick := 2\<rparr>)"
  have "retry_step unicode_ascii int_apd memory_store (racing_start NewStore) ?c"
    using retry_step.tick [of 0 "racing_start NewStore" 0 unicode_ascii int_apd memory_store]
    by (simp add: racing_start_def writers_def attempts_def)
  then have "(retry_step unicode_ascii int_apd memory_store ^^ 1) (racing_start NewStore) ?c" by auto
  then show ?thesis
    using retries_land [OF list_laws, where db = "[]" and uc = unicode_ascii and m = 1 and c = ?c]
    by (intro exI [of _ ?c]) (auto simp: list_suite int_apd_text int_hundred writers_def)
qed

end
