(* ===== verification/Go_Net.thy ===== *)
theory Go_Net
  imports Go_Strings
begin

text \<open>
  What the submission service uses of Go's \<^verbatim>\<open>mime\<close>, \<^verbatim>\<open>net\<close>, \<^verbatim>\<open>net/netip\<close> and \<^verbatim>\<open>net/http\<close> packages:
  \<^verbatim>\<open>mime.ParseMediaType\<close> up to its parameters, which the service discards,
  \<^verbatim>\<open>net.SplitHostPort\<close>, \<^verbatim>\<open>net.ParseIP\<close>, \<^verbatim>\<open>IP.IsLoopback\<close> and the choice a \<^verbatim>\<open>ServeMux\<close> makes. An address is the list of its
  16 bytes. Failures are errors with the package's message.
\<close>

section \<open>Media types\<close>

definition isTSpecial :: "char \<Rightarrow> bool" where
  "isTSpecial c \<longleftrightarrow> c \<in> set ''()<>@,;:/[]?='' \<or> c = CHR 0x5C \<or> c = CHR 0x22"

definition isTokenChar :: "char \<Rightarrow> bool" where
  "isTokenChar c \<longleftrightarrow> 0x20 < (of_char c :: nat) \<and> (of_char c :: nat) < 0x7F \<and> \<not> isTSpecial c"

definition consumeToken :: "string \<Rightarrow> string \<times> string" where
  "consumeToken v = (takeWhile isTokenChar v, dropWhile isTokenChar v)"

fun consumeQuoted :: "string \<Rightarrow> string \<Rightarrow> (string \<times> string) option" where
  "consumeQuoted buf [] = None"
| "consumeQuoted buf [r] =
     (if r = CHR 0x22 then Some (buf, []) else None)"
| "consumeQuoted buf (r # c # v) =
     (if r = CHR 0x22 then Some (buf, c # v)
      else if r = CHR 0x5C \<and> isTSpecial c then consumeQuoted (buf @ [c]) v
      else if r = CHR 0x0D \<or> r = CHR 0x0A then None
      else consumeQuoted (buf @ [r]) (c # v))"

definition consumeValue :: "string \<Rightarrow> string \<times> string" where
  "consumeValue v =
     (case v of
        [] \<Rightarrow> ([], [])
      | c # cs \<Rightarrow>
        if c \<noteq> CHR 0x22 then consumeToken v
        else (case consumeQuoted [] cs of None \<Rightarrow> ([], v) | Some r \<Rightarrow> r))"

definition TrimLeftSpace :: "string \<Rightarrow> string" where
  "TrimLeftSpace s = token_bytes (dropWhile (\<lambda>t. IsSpace (fst t)) (tokens s))"

text \<open>The parameter's name, empty when there is none, its value and what follows.\<close>

definition consumeMediaParam :: "unicode \<Rightarrow> string \<Rightarrow> string \<times> string \<times> string" where
  "consumeMediaParam uc v =
     (let rest = TrimLeftSpace v in
      if rest = [] \<or> hd rest \<noteq> CHR '';'' then ([], [], v)
      else case consumeToken (TrimLeftSpace (tl rest)) of (param, rest) \<Rightarrow>
        if param = [] then ([], [], v)
        else let rest = TrimLeftSpace rest in
          if rest = [] \<or> hd rest \<noteq> CHR ''='' then ([], [], v)
          else let rest = TrimLeftSpace (tl rest) in
            case consumeValue rest of (val, rest2) \<Rightarrow>
              if val = [] \<and> rest2 = rest then ([], [], v)
              else (ToLower uc param, val, rest2))"

definition checkMediaTypeDisposition :: "string \<Rightarrow> bool" where
  "checkMediaTypeDisposition s =
     (case consumeToken s of (typ, rest) \<Rightarrow>
        typ \<noteq> [] \<and>
        (rest = [] \<or>
         hd rest = CHR ''/'' \<and>
         (case consumeToken (tl rest) of (subtype, rest) \<Rightarrow> subtype \<noteq> [] \<and> rest = [])))"

lemma TrimLeftSpace_length: "length (TrimLeftSpace v) \<le> length v"
proof -
  have "v = token_bytes (takeWhile (\<lambda>t. IsSpace (fst t)) (tokens v)) @ TrimLeftSpace v"
    unfolding TrimLeftSpace_def by (metis takeWhile_dropWhile_id token_bytes_simps(3) token_bytes_tokens)
  then have "length v = length (token_bytes (takeWhile (\<lambda>t. IsSpace (fst t)) (tokens v))) + length (TrimLeftSpace v)"
    by (metis length_append)
  then show ?thesis by simp
qed

lemma consumeQuoted_length: "consumeQuoted buf v = Some (val, rest) \<Longrightarrow> length rest < length v"
  by (induction buf v rule: consumeQuoted.induct) (auto split: if_splits)

lemma consumeValue_length: "length (snd (consumeValue v)) \<le> length v"
  by (auto simp: consumeValue_def consumeToken_def length_dropWhile_le le_SucI dest!: consumeQuoted_length split: list.split option.split)

lemma consumeMediaParam_length:
  assumes "consumeMediaParam uc v = (key, val, rest)" "key \<noteq> []"
  shows "length rest < length v"
proof -
  let ?a = "TrimLeftSpace v"
  let ?b = "dropWhile isTokenChar (TrimLeftSpace (tl ?a))"
  let ?c = "TrimLeftSpace (tl (TrimLeftSpace ?b))"
  from assms have "?a \<noteq> []" "rest = snd (consumeValue ?c)"
    by (auto simp: consumeMediaParam_def consumeToken_def Let_def split: if_splits prod.splits)
  moreover have "length (tl ?a) < length ?a" using calculation(1) by simp
  moreover have "length ?c \<le> length (tl ?a)"
    using TrimLeftSpace_length [of "tl (TrimLeftSpace ?b)"] TrimLeftSpace_length [of ?b] TrimLeftSpace_length [of "tl ?a"]
      length_dropWhile_le [of isTokenChar "TrimLeftSpace (tl ?a)"] by simp
  moreover have "length (snd (consumeValue ?c)) \<le> length ?c" by (rule consumeValue_length)
  moreover have "length ?a \<le> length v" by (rule TrimLeftSpace_length)
  ultimately show ?thesis by (metis leD le_trans linorder_not_less)
qed

text \<open>The loop over the parameters. Two parameters of one name must agree; the package keeps those
  with a star in their name in maps of their own, by the part before it, which is determined by the
  name, so that one map keyed by the whole name decides the same.\<close>

function media_params :: "unicode \<Rightarrow> (string \<rightharpoonup> string) \<Rightarrow> string \<Rightarrow> unit result" where
  "media_params uc params v =
     (if TrimLeftSpace v = [] then Inr ()
      else case consumeMediaParam uc (TrimLeftSpace v) of (key, val, rest) \<Rightarrow>
        if key = [] then
          (if TrimSpace rest = '';'' then Inr () else Inl [''mime: invalid media parameter''])
        else if params key \<noteq> None \<and> params key \<noteq> Some val then Inl [''mime: duplicate parameter name'']
        else media_params uc (params(key \<mapsto> val)) rest)"
  by pat_completeness auto
termination
  by (relation "measure (\<lambda>(_, _, v). length v)")
     (auto intro: less_le_trans [OF consumeMediaParam_length TrimLeftSpace_length] dest: sym)

declare media_params.simps [simp del]

definition ParseMediaType :: "unicode \<Rightarrow> string \<Rightarrow> string result" where
  "ParseMediaType uc v =
     (let base = takeWhile (\<lambda>c. c \<noteq> CHR '';'') v;
          mediatype = TrimSpace (ToLower uc base) in
      if \<not> checkMediaTypeDisposition mediatype then Inl [''mime: no media type'']
      else bindR (media_params uc Map.empty (drop (length base) v)) (\<lambda>_. Inr mediatype))"

section \<open>Host and port\<close>

definition SplitHostPort :: "string \<Rightarrow> (string \<times> string) result" where
  "SplitHostPort hostport =
     (let i = length hostport - 1 - length (takeWhile (\<lambda>c. c \<noteq> CHR '':'') (rev hostport));
          finish = (\<lambda>host j k.
            if CHR ''['' \<in> set (drop j hostport) then Inl [''unexpected [ in address'']
            else if CHR '']'' \<in> set (drop k hostport) then Inl [''unexpected ] in address'']
            else Inr (host, drop (i + 1) hostport)) in
      if CHR '':'' \<notin> set hostport then Inl [''missing port in address'']
      else if hd hostport = CHR ''['' then
        (if CHR '']'' \<notin> set hostport then Inl [''missing ] in address'']
         else let stop = length (takeWhile (\<lambda>c. c \<noteq> CHR '']'') hostport) in
           if stop + 1 = length hostport then Inl [''missing port in address'']
           else if stop + 1 = i then finish (drop 1 (take stop hostport)) 1 (stop + 1)
           else if hostport ! (stop + 1) = CHR '':'' then Inl [''too many colons in address'']
           else Inl [''missing port in address''])
      else if CHR '':'' \<in> set (take i hostport) then Inl [''too many colons in address'']
      else finish (take i hostport) 0 0)"

section \<open>Addresses\<close>

type_synonym IP = "nat list"

definition is_digit :: "char \<Rightarrow> bool" where
  "is_digit c \<longleftrightarrow> (48::nat) \<le> of_char c \<and> (of_char c::nat) \<le> 57"

definition hex_digit_value :: "char \<Rightarrow> nat option" where
  "hex_digit_value c =
     (let b = of_char c in
      if 48 \<le> b \<and> b \<le> 57 then Some (b - 48)
      else if 97 \<le> b \<and> b \<le> 102 then Some (b - 97 + 10)
      else if 65 \<le> b \<and> b \<le> 70 then Some (b - 65 + 10)
      else None)"

text \<open>The octets read, the value and number of digits of the current one, and the rest of the text. A
  dot with no digit before it is one that opens the text or follows a dot.\<close>

fun parseIPv4Fields :: "nat list \<Rightarrow> nat \<Rightarrow> nat \<Rightarrow> string \<Rightarrow> nat list option" where
  "parseIPv4Fields octets val digLen [] =
     (if length octets < 3 then None else Some (octets @ [val]))"
| "parseIPv4Fields octets val digLen (c # s) =
     (if is_digit c then
        (if digLen = 1 \<and> val = 0 then None
         else let val = val * 10 + (of_char c - 48) in
           if val > 255 then None else parseIPv4Fields octets val (digLen + 1) s)
      else if c = CHR ''.'' then
        (if digLen = 0 \<or> s = [] then None
         else if length octets = 3 then None
         else parseIPv4Fields (octets @ [val]) 0 0 s)
      else None)"

fun hex_group :: "nat \<Rightarrow> nat \<Rightarrow> string \<Rightarrow> (nat \<times> nat \<times> string) option" where
  "hex_group off acc [] = Some (off, acc, [])"
| "hex_group off acc (c # s) =
     (case hex_digit_value c of
        None \<Rightarrow> Some (off, acc, c # s)
      | Some d \<Rightarrow>
        if off > 3 then None
        else if acc * 16 + d > 65535 then None
        else hex_group (off + 1) (acc * 16 + d) s)"

function v6_groups :: "nat list \<Rightarrow> nat option \<Rightarrow> string \<Rightarrow> (nat list \<times> nat option \<times> string) option" where
  "v6_groups ip ellipsis s =
     (if length ip \<ge> 16 then Some (ip, ellipsis, s)
      else case hex_group 0 0 s of
        None \<Rightarrow> None
      | Some (off, acc, rest) \<Rightarrow>
        if off = 0 then None
        else if rest \<noteq> [] \<and> hd rest = CHR ''.'' then
          (if ellipsis = None \<and> length ip \<noteq> 12 \<or> length ip + 4 > 16 then None
           else map_option (\<lambda>octets. (ip @ octets, ellipsis, [])) (parseIPv4Fields [] 0 0 s))
        else let ip = ip @ [acc div 256, acc mod 256] in
          if rest = [] then Some (ip, ellipsis, [])
          else if hd rest \<noteq> CHR '':'' \<or> tl rest = [] then None
          else let s = tl rest in
            if hd s = CHR '':'' then
              (if ellipsis \<noteq> None then None
               else if tl s = [] then Some (ip, Some (length ip), [])
               else v6_groups ip (Some (length ip)) (tl s))
            else v6_groups ip ellipsis s)"
  by pat_completeness auto
termination
  by (relation "measure (\<lambda>(ip, _, _). 16 - length ip)") auto

declare v6_groups.simps [simp del]

definition parseIPv6 :: "string \<Rightarrow> IP option" where
  "parseIPv6 s =
     (let leading = take 2 s = ''::'' in
      if leading \<and> drop 2 s = [] then Some (replicate 16 0)
      else case v6_groups [] (if leading then Some 0 else None) (if leading then drop 2 s else s) of
        None \<Rightarrow> None
      | Some (ip, ellipsis, rest) \<Rightarrow>
        if rest \<noteq> [] then None
        else if length ip < 16 then
          map_option (\<lambda>e. take e ip @ replicate (16 - length ip) 0 @ drop e ip) ellipsis
        else if ellipsis \<noteq> None then None
        else Some ip)"

definition v4InV6Prefix :: "nat list" where
  "v4InV6Prefix = replicate 10 0 @ [255, 255]"

text \<open>The first of the three characters decides the family; an address with a zone is refused.\<close>

definition ParseIP :: "string \<Rightarrow> IP option" where
  "ParseIP s =
     (case dropWhile (\<lambda>c. c \<notin> {CHR ''.'', CHR '':'', CHR ''%''}) s of
        [] \<Rightarrow> None
      | c # _ \<Rightarrow>
        if c = CHR ''.'' then map_option (\<lambda>octets. v4InV6Prefix @ octets) (parseIPv4Fields [] 0 0 s)
        else if c = CHR '':'' then (if CHR ''%'' \<in> set s then None else parseIPv6 s)
        else None)"

definition To4 :: "IP \<Rightarrow> IP option" where
  "To4 ip = (if length ip = 16 \<and> take 12 ip = v4InV6Prefix then Some (drop 12 ip) else None)"

definition IPv6loopback :: IP where
  "IPv6loopback = replicate 15 0 @ [1]"

definition IsLoopback :: "IP \<Rightarrow> bool" where
  "IsLoopback ip =
     (case To4 ip of Some ip4 \<Rightarrow> hd ip4 = 127 | None \<Rightarrow> ip = IPv6loopback)"

section \<open>The request multiplexer\<close>

text \<open>\<^verbatim>\<open>ServeMux\<close> with one pattern, a literal path without a method or a host. A request comes with its
  escaped path in origin form. The path is cleaned, unless the method is \<^verbatim>\<open>CONNECT\<close>, and a request whose path
  was not clean is redirected to the clean one; otherwise the segments, each unescaped, must be the pattern's.\<close>

fun unescape :: "string \<Rightarrow> string option" where
  "unescape [] = Some []"
| "unescape (c # s) =
     (if c \<noteq> CHR ''%'' then map_option ((#) c) (unescape s)
      else case s of
        a # b # t \<Rightarrow>
          (case (hex_value a, hex_value b, unescape t) of
             (Some x, Some y, Some u) \<Rightarrow> Some (char_of (x * 16 + y) # u)
           | _ \<Rightarrow> None)
      | _ \<Rightarrow> None)"

definition pathUnescape :: "string \<Rightarrow> string" where
  "pathUnescape s = (case unescape s of None \<Rightarrow> s | Some t \<Rightarrow> t)"

text \<open>The segments \<^verbatim>\<open>path.Clean\<close> keeps of a rooted path, the innermost first.\<close>

fun clean_segments :: "string list \<Rightarrow> string list \<Rightarrow> string list" where
  "clean_segments acc [] = acc"
| "clean_segments acc (s # segs) =
     clean_segments (if s = [] \<or> s = ''.'' then acc else if s = ''..'' then tl acc else s # acc) segs"

definition cleanPath :: "string \<Rightarrow> string" where
  "cleanPath p =
     (if p = [] then ''/''
      else let q = (if hd p = CHR ''/'' then p else CHR ''/'' # p);
               np = CHR ''/'' # Join (rev (clean_segments [] (Split q (CHR ''/'')))) ''/'' in
        if last q = CHR ''/'' \<and> np \<noteq> ''/'' then np @ ''/'' else np)"

datatype route = Registered | Redirected string | Unmatched

definition mux_route :: "string \<Rightarrow> string \<Rightarrow> string \<Rightarrow> route" where
  "mux_route pattern method path =
     (let clean = (if method = ''CONNECT'' then path else cleanPath path) in
      if clean \<noteq> path then Redirected clean
      else if map pathUnescape (Split clean (CHR ''/'')) = Split pattern (CHR ''/'') then Registered
      else Unmatched)"

section \<open>Facts\<close>

lemma last_colon:
  assumes "CHR '':'' \<in> set hp"
  obtains ys zs where "hp = ys @ CHR '':'' # zs" "CHR '':'' \<notin> set zs"
    "length hp - 1 - length (takeWhile (\<lambda>c. c \<noteq> CHR '':'') (rev hp)) = length ys"
proof -
  obtain ys zs where hp: "hp = ys @ CHR '':'' # zs" "CHR '':'' \<notin> set zs" using split_list_last [OF assms] by blast
  have "takeWhile (\<lambda>c. c \<noteq> CHR '':'') (rev zs @ CHR '':'' # rev ys) = rev zs"
    by (subst takeWhile_append2) (use hp(2) in auto)
  then have "length hp - 1 - length (takeWhile (\<lambda>c. c \<noteq> CHR '':'') (rev hp)) = length ys" by (simp add: hp(1))
  with hp that show ?thesis by blast
qed

text \<open>What \<open>SplitHostPort\<close> splits it puts back together, and the port has no colon.\<close>

lemma SplitHostPort_shape:
  assumes "SplitHostPort hp = Inr (host, port)"
  shows "(hp = host @ CHR '':'' # port \<or> hp = CHR ''['' # host @ CHR '']'' # CHR '':'' # port) \<and> CHR '':'' \<notin> set port"
proof -
  from assms have "CHR '':'' \<in> set hp" by (auto simp: SplitHostPort_def Let_def split: if_splits)
  then obtain ys zs where hp: "hp = ys @ CHR '':'' # zs" "CHR '':'' \<notin> set zs"
    and i: "length hp - 1 - length (takeWhile (\<lambda>c. c \<noteq> CHR '':'') (rev hp)) = length ys" by (rule last_colon)
  note split = assms [unfolded SplitHostPort_def Let_def i]
  have parts: "CHR '':'' \<in> set hp" "take (length ys) hp = ys" "drop (length ys + 1) hp = zs" by (simp_all add: hp(1))
  show ?thesis
  proof (cases "hd hp = CHR ''[''")
    case False
    then have "host = ys" "port = zs" using split parts by (auto split: if_splits)
    then show ?thesis using hp by simp
  next
    case True
    let ?stop = "length (takeWhile (\<lambda>c. c \<noteq> CHR '']'') hp)"
    have eq: "CHR '']'' \<in> set hp" "?stop + 1 = length ys" "host = drop 1 (take ?stop hp)" "port = zs"
      using split True parts by (auto split: if_splits)
    have close: "hp ! ?stop = CHR '']''" proof -
      have "?stop < length hp" using eq(2) arg_cong [OF hp(1), of length] by simp
      then show ?thesis using nth_length_takeWhile [of "\<lambda>c. c \<noteq> CHR '']''" hp] by simp
    qed
    have "ys = take (Suc ?stop) hp" using eq(2) parts(2) by simp
    also have "\<dots> = take ?stop hp @ [CHR '']'']"
      using eq(2) arg_cong [OF hp(1), of length] close by (subst take_Suc_conv_app_nth) simp_all
    finally have ys: "ys = take ?stop hp @ [CHR '']'']" .
    have "take ?stop hp = CHR ''['' # host"
      using True eq(1,3) by (cases hp) simp_all
    then have "ys = CHR ''['' # host @ [CHR '']'']" using ys by (metis append_Cons)
    then have "hp = CHR ''['' # host @ CHR '']'' # CHR '':'' # port" by (subst hp(1)) (simp add: eq(4))
    then show ?thesis using hp(2) eq(4) by simp
  qed
qed

lemma IsLoopback_iff:
  assumes "ParseIP host = Some ip"
  shows "IsLoopback ip \<longleftrightarrow> ip = IPv6loopback \<or> (\<exists>a b c. ip = v4InV6Prefix @ [127, a, b, c])"
proof -
  have four: "xs = [hd xs, xs ! 1, xs ! 2, xs ! 3]" if "length xs = 4" for xs :: "nat list"
    using that by (auto simp: numeral_eq_Suc length_Suc_conv)
  show ?thesis
  proof (cases "length ip = 16 \<and> take 12 ip = v4InV6Prefix")
    case True
    then have ip: "ip = v4InV6Prefix @ drop 12 ip" "length (drop 12 ip) = 4" by (metis append_take_drop_id, simp)
    have "ip \<noteq> IPv6loopback" using True by (auto simp: IPv6loopback_def v4InV6Prefix_def numeral_eq_Suc)
    then show ?thesis using True ip four [OF ip(2)]
      by (simp add: IsLoopback_def To4_def) (metis append_same_eq list.sel(1) same_append_eq)
  next
    case False
    then show ?thesis by (auto simp: IsLoopback_def To4_def v4InV6Prefix_def)
  qed
qed

subsection \<open>Dotted decimals\<close>

lemma is_digit_digit_char: "d < 10 \<Longrightarrow> is_digit (digit_char d) \<and> of_char (digit_char d) = d + (48 :: nat)"
  by (simp add: is_digit_def digit_char_def)

lemma parse_octet:
  assumes "a \<le> 255"
  shows "\<exists>k > 0. parseIPv4Fields octets 0 0 (dec_nat a @ s) = parseIPv4Fields octets a k s"
proof -
  consider "a < 10" | "10 \<le> a" "a < 100" | "100 \<le> a" by linarith
  then show ?thesis
  proof cases
    case 1
    then show ?thesis using is_digit_digit_char [of a] by (intro exI [of _ 1]) (simp add: dec_nat_small)
  next
    case 2
    then have "dec_nat a = [digit_char (a div 10), digit_char (a mod 10)]" by (simp add: dec_nat_step dec_nat_small)
    moreover have "a div 10 < 10" "0 < a div 10" "a div 10 * 10 + a mod 10 = a" using 2 by auto
    ultimately show ?thesis
      using assms is_digit_digit_char [of "a div 10"] is_digit_digit_char [of "a mod 10"]
      by (intro exI [of _ "Suc (Suc 0)"]) (simp add: Let_def)
  next
    case 3
    then have "dec_nat a = [digit_char (a div 100), digit_char (a div 10 mod 10), digit_char (a mod 10)]"
      using assms by (simp add: dec_nat_step dec_nat_small div_mult2_eq [symmetric])
    moreover have "a div 100 = a div 10 div 10" by (simp add: div_mult2_eq [symmetric])
    then have "a div 100 * 10 + a div 10 mod 10 = a div 10" by simp
    moreover have "a div 100 < 10" "0 < a div 100" "a div 10 * 10 + a mod 10 = a" "a div 10 \<le> 255" using 3 assms by auto
    ultimately show ?thesis
      using assms is_digit_digit_char [of "a div 100"] is_digit_digit_char [of "a div 10 mod 10"] is_digit_digit_char [of "a mod 10"]
      by (intro exI [of _ "Suc (Suc (Suc 0))"]) (simp add: Let_def)
  qed
qed

definition dotted :: "nat \<Rightarrow> nat \<Rightarrow> nat \<Rightarrow> nat \<Rightarrow> string" where
  "dotted a b c d = dec_nat a @ ''.'' @ dec_nat b @ ''.'' @ dec_nat c @ ''.'' @ dec_nat d"

lemma parse_dotted:
  assumes "a \<le> 255" "b \<le> 255" "c \<le> 255" "d \<le> 255"
  shows "parseIPv4Fields [] 0 0 (dotted a b c d) = Some [a, b, c, d]"
proof -
  have dot: "parseIPv4Fields octets v k (CHR ''.'' # s) = parseIPv4Fields (octets @ [v]) 0 0 s"
    if "k > 0" "s \<noteq> []" "length octets < 3" for octets v k s using that by (simp add: is_digit_def)
  obtain k1 where k1: "k1 > 0" "parseIPv4Fields [] 0 0 (dec_nat a @ ''.'' @ dec_nat b @ ''.'' @ dec_nat c @ ''.'' @ dec_nat d) =
      parseIPv4Fields [] a k1 (''.'' @ dec_nat b @ ''.'' @ dec_nat c @ ''.'' @ dec_nat d)" using parse_octet [OF assms(1)] by blast
  obtain k2 where k2: "k2 > 0" "parseIPv4Fields [a] 0 0 (dec_nat b @ ''.'' @ dec_nat c @ ''.'' @ dec_nat d) =
      parseIPv4Fields [a] b k2 (''.'' @ dec_nat c @ ''.'' @ dec_nat d)" using parse_octet [OF assms(2)] by blast
  obtain k3 where k3: "k3 > 0" "parseIPv4Fields [a, b] 0 0 (dec_nat c @ ''.'' @ dec_nat d) =
      parseIPv4Fields [a, b] c k3 (''.'' @ dec_nat d)" using parse_octet [OF assms(3)] by blast
  obtain k4 where k4: "parseIPv4Fields [a, b, c] 0 0 (dec_nat d @ []) = parseIPv4Fields [a, b, c] d k4 []"
    using parse_octet [OF assms(4)] by blast
  show ?thesis
    using k1 k2 k3 k4 dot [of k1 _ "[]" a] dot [of k2 _ "[a]" b] dot [of k3 _ "[a, b]" c] by (simp add: dotted_def)
qed

lemma dec_nat_no_punct: "c \<in> set '':[].%'' \<Longrightarrow> c \<notin> set (dec_nat n)"
  using dec_nat_digits [of c n] by auto

lemma SplitHostPort_plain:
  assumes "CHR '':'' \<notin> set port" "set host \<inter> set '':[]'' = {}" "set port \<inter> set ''[]'' = {}" "host \<noteq> []"
  shows "SplitHostPort (host @ CHR '':'' # port) = Inr (host, port)"
proof -
  let ?hp = "host @ CHR '':'' # port"
  have "takeWhile (\<lambda>c. c \<noteq> CHR '':'') (rev ?hp) = rev port"
    using assms(1) by (auto simp: takeWhile_tail)
  then have i: "length ?hp - 1 - length (takeWhile (\<lambda>c. c \<noteq> CHR '':'') (rev ?hp)) = length host" by simp
  have "hd ?hp \<noteq> CHR ''[''" using assms(2,4) by (cases host) auto
  then show ?thesis
    unfolding SplitHostPort_def Let_def i using assms(1-3) by auto
qed

lemma ParseIP_dotted:
  assumes "a \<le> 255" "b \<le> 255" "c \<le> 255" "d \<le> 255"
  shows "ParseIP (dotted a b c d) = Some (v4InV6Prefix @ [a, b, c, d])"
proof -
  have "dropWhile (\<lambda>c. c \<notin> {CHR ''.'', CHR '':'', CHR ''%''}) (dotted a b c d) =
      ''.'' @ dec_nat b @ ''.'' @ dec_nat c @ ''.'' @ dec_nat d"
    unfolding dotted_def by (subst dropWhile_append2) (auto simp: dec_nat_no_punct)
  then show ?thesis by (simp add: ParseIP_def parse_dotted [OF assms])
qed

lemma dotted_listens:
  assumes "a \<le> 255" "b \<le> 255" "d \<le> 255" "set port \<inter> set '':[]'' = {}"
  shows "SplitHostPort (dotted 127 a b d @ CHR '':'' # port) = Inr (dotted 127 a b d, port)" "dotted 127 a b d \<noteq> []"
    "ParseIP (dotted 127 a b d) = Some (v4InV6Prefix @ [127, a, b, d])" "IsLoopback (v4InV6Prefix @ [127, a, b, d])"
proof -
  have "set (dotted 127 a b d) \<inter> set '':[]'' = {}" by (auto simp: dotted_def dec_nat_no_punct)
  then show "SplitHostPort (dotted 127 a b d @ CHR '':'' # port) = Inr (dotted 127 a b d, port)"
    using assms(4) by (intro SplitHostPort_plain) (auto simp: dotted_def)
  show "ParseIP (dotted 127 a b d) = Some (v4InV6Prefix @ [127, a, b, d])" using assms by (intro ParseIP_dotted) simp_all
  show "dotted 127 a b d \<noteq> []" by (simp add: dotted_def)
  show "IsLoopback (v4InV6Prefix @ [127, a, b, d])" by (simp add: IsLoopback_def To4_def v4InV6Prefix_def)
qed

end
