(* ===== verification/Submitd.thy ===== *)
theory Submitd
  imports Go_Net Sqlite_Ledger
begin

text \<open>
  \<^verbatim>\<open>src/apps/submitd\<close>: the service that admits claim submissions over HTTP, \<^verbatim>\<open>server.go\<close> and the
  configuration and wiring of \<^verbatim>\<open>main.go\<close>.

  A request is its path, its method, its \<^verbatim>\<open>Content-Type\<close> header and its body, the bytes that can be read and
  whether reading past them fails; a response is its status, the headers set and the body written.
  \<^verbatim>\<open>submit\<close> returns it beside the new state of the store and the clock. Protobuf unmarshalling is a
  parameter, as is the wording of errors (\<open>texts\<close>): the model of an error is its chain of
  sentinels, and the service passes its text through \<^verbatim>\<open>safe\<close> without looking at it.
  The router \<open>newHandler\<close> puts \<^verbatim>\<open>submit\<close> behind its one path. The life of the process, with its signals and its
  shutdown, is the subject of \<open>Submitd_Process\<close>.
\<close>

section \<open>Requests and responses\<close>

record Request =
  rq_Method :: string
  rq_ContentType :: string
  rq_Body :: string
  rq_BodyFails :: bool

record Response =
  rs_Status :: int
  rs_Header :: "(string \<times> string) list"
  rs_Body :: string

record texts =
  tx_Error :: "go_error \<Rightarrow> string"
  tx_Quote :: "string \<Rightarrow> string"

definition StatusCreated :: int where "StatusCreated = 201"
definition StatusBadRequest :: int where "StatusBadRequest = 400"
definition StatusNotFound :: int where "StatusNotFound = 404"
definition StatusMethodNotAllowed :: int where "StatusMethodNotAllowed = 405"
definition StatusConflict :: int where "StatusConflict = 409"
definition StatusRequestEntityTooLarge :: int where "StatusRequestEntityTooLarge = 413"
definition StatusUnsupportedMediaType :: int where "StatusUnsupportedMediaType = 415"
definition StatusUnprocessableEntity :: int where "StatusUnprocessableEntity = 422"
definition StatusInternalServerError :: int where "StatusInternalServerError = 500"

lemmas status_defs =
  StatusCreated_def StatusBadRequest_def StatusNotFound_def StatusMethodNotAllowed_def StatusConflict_def
  StatusRequestEntityTooLarge_def StatusUnsupportedMediaType_def StatusUnprocessableEntity_def
  StatusInternalServerError_def

definition protobufMediaType :: string where
  "protobufMediaType = ''application/x-protobuf''"

definition maxBody :: nat where
  "maxBody = 2 ^ 20"

definition isProtobuf :: "unicode \<Rightarrow> string \<Rightarrow> bool" where
  "isProtobuf uc header =
     (case ParseMediaType uc header of Inl _ \<Rightarrow> False | Inr mediaType \<Rightarrow> mediaType = protobufMediaType)"

section \<open>What the caller is told\<close>

text \<open>The loop of \<^verbatim>\<open>safe\<close> over the runes of the reason, the builder's bytes in \<open>b\<close>; the ellipsis is
  the three bytes of U+2026.\<close>

definition inert :: "rune \<Rightarrow> bool" where
  "inert r \<longleftrightarrow> 0x20 \<le> r \<and> r < 0x7F \<and> r \<noteq> 0x3C \<and> r \<noteq> 0x3E \<and> r \<noteq> 0x26"

definition bound :: nat where
  "bound = 512"

fun safe_loop :: "string \<Rightarrow> rune list \<Rightarrow> string" where
  "safe_loop b [] = b"
| "safe_loop b (r # rs) =
     (if length b \<ge> bound then b @ encode_rune 0x2026
      else safe_loop (b @ (if inert r then encode_rune r else ''.'')) rs)"

definition safe :: "string \<Rightarrow> string" where
  "safe reason = safe_loop [] (runes reason)"

definition statusFor :: "go_error \<Rightarrow> int" where
  "statusFor err =
     (if errors_Is err ErrMalformedSource \<or> errors_Is err ErrIncompleteEnvelope \<or> errors_Is err Ledger_ErrUnknownKind
      then StatusUnprocessableEntity
      else if errors_Is err ErrStaleRead \<or> errors_Is err ErrNonMonotonicKnowledge
      then StatusConflict
      else StatusInternalServerError)"

definition reasonFor :: "texts \<Rightarrow> go_error \<Rightarrow> string" where
  "reasonFor X err =
     (if statusFor err \<ge> StatusInternalServerError then ''the submission could not be recorded''
      else tx_Error X err)"

definition write_line :: "string \<Rightarrow> string" where
  "write_line line = safe line @ [CHR 0x0A]"

definition plain_headers :: "(string \<times> string) list" where
  "plain_headers = [(''Content-Type'', ''text/plain; charset=utf-8''), (''X-Content-Type-Options'', ''nosniff'')]"

definition refuse :: "int \<Rightarrow> string \<Rightarrow> Response" where
  "refuse status reason = \<lparr>rs_Status = status, rs_Header = plain_headers, rs_Body = write_line reason\<rparr>"

section \<open>The handler\<close>

text \<open>\<^verbatim>\<open>io.ReadAll\<close> of a \<^verbatim>\<open>LimitReader\<close>: at most \<open>n\<close> bytes, and no error from beyond them.\<close>

definition read_limited :: "nat \<Rightarrow> Request \<Rightarrow> string result" where
  "read_limited n req =
     (if length (rq_Body req) \<ge> n then Inr (take n (rq_Body req))
      else if rq_BodyFails req then Inl [''read'']
      else Inr (rq_Body req))"

definition submit ::
  "texts \<Rightarrow> (string \<Rightarrow> 'ts pb_HoldingClaimSubmission result) \<Rightarrow> unicode \<Rightarrow> 'ts timestamppb \<Rightarrow> 'd apd \<Rightarrow>
   ('d, 's, 'k) Ledger \<Rightarrow> Request \<Rightarrow> 's \<times> 'k \<Rightarrow> ('s \<times> 'k) \<times> Response" where
  "submit X unmarshal uc T A ledger req st =
     (if rq_Method req \<noteq> ''POST'' then
        (st, (refuse StatusMethodNotAllowed ''a submission is a POST'')
               \<lparr>rs_Header := (''Allow'', ''POST'') # plain_headers\<rparr>)
      else if \<not> isProtobuf uc (rq_ContentType req) then
        (st, refuse StatusUnsupportedMediaType
               (''body must be '' @ protobufMediaType @ '', got '' @ tx_Quote X (rq_ContentType req)))
      else case read_limited (maxBody + 1) req of
        Inl _ \<Rightarrow> (st, refuse StatusBadRequest ''could not read the body'')
      | Inr body \<Rightarrow>
        if length body > maxBody then
          (st, refuse StatusRequestEntityTooLarge (''a submission is at most '' @ dec_nat maxBody @ '' bytes''))
        else case unmarshal body of
          Inl _ \<Rightarrow> (st, refuse StatusBadRequest ''body is not a fdos.ingest.v1.HoldingClaimSubmission'')
        | Inr wire \<Rightarrow>
          (case DecodeHoldingClaimSubmission uc T A (Some wire) of
             Inl err \<Rightarrow> (st, refuse StatusUnprocessableEntity (tx_Error X err))
           | Inr cmd \<Rightarrow>
             (case AcceptHoldingClaim ledger cmd st of
                (st', Inl err) \<Rightarrow> (st', refuse (statusFor err) (reasonFor X err))
              | (st', Inr ref) \<Rightarrow>
                (st', \<lparr>rs_Status = StatusCreated, rs_Header = plain_headers, rs_Body = write_line (FactRef_String ref)\<rparr>))))"

text \<open>The router: a request with its path. What \<^verbatim>\<open>net/http\<close> answers to a path that is not clean, a redirect, is a
  parameter, its status being the library's to choose; an unknown path is its plain 404.\<close>

definition submissionPath :: string where
  "submissionPath = ''/v1/holding-claim-submissions''"

definition newHandler ::
  "(string \<Rightarrow> Response) \<Rightarrow> texts \<Rightarrow> (string \<Rightarrow> 'ts pb_HoldingClaimSubmission result) \<Rightarrow> unicode \<Rightarrow> 'ts timestamppb \<Rightarrow> 'd apd \<Rightarrow>
   ('d, 's, 'k) Ledger \<Rightarrow> string \<times> Request \<Rightarrow> 's \<times> 'k \<Rightarrow> ('s \<times> 'k) \<times> Response" where
  "newHandler redirect X unmarshal uc T A ledger target st =
     (case target of (path, req) \<Rightarrow>
        (case mux_route submissionPath (rq_Method req) path of
           Registered \<Rightarrow> submit X unmarshal uc T A ledger req st
         | Redirected clean \<Rightarrow> (st, redirect clean)
         | Unmatched \<Rightarrow> (st, \<lparr>rs_Status = StatusNotFound, rs_Header = plain_headers, rs_Body = ''404 page not found'' @ [CHR 0x0A]\<rparr>)))"

section \<open>The listening address\<close>

definition errOffLoopbackUnacknowledged :: sentinel where
  "errOffLoopbackUnacknowledged = ''submitd: refusing to listen off-loopback without -callers-are-authenticated''"

definition checkListenAddress :: "string \<Rightarrow> bool \<Rightarrow> unit result" where
  "checkListenAddress addr acknowledged =
     (if acknowledged then Inr ()
      else bindR (SplitHostPort addr) (\<lambda>(host, _).
        if host = [] then Inl [errOffLoopbackUnacknowledged]
        else case ParseIP host of
          None \<Rightarrow> Inl [errOffLoopbackUnacknowledged]
        | Some ip \<Rightarrow>
          if \<not> IsLoopback ip then Inl [errOffLoopbackUnacknowledged] else Inr ()))"

section \<open>Configuration\<close>

record config =
  cf_listen :: string
  cf_store :: string
  cf_acknowledged :: bool

text \<open>\<^verbatim>\<open>strconv.ParseBool\<close>.\<close>

definition ParseBool :: "string \<Rightarrow> bool option" where
  "ParseBool s =
     (if s \<in> {''1'', ''t'', ''T'', ''TRUE'', ''true'', ''True''} then Some True
      else if s \<in> {''0'', ''f'', ''F'', ''FALSE'', ''false'', ''False''} then Some False
      else None)"

text \<open>\<^verbatim>\<open>FlagSet.Parse\<close> with the three flags of the service: it stops at the first argument that is not a
  flag, and at \<open>--\<close>; the value of a string flag follows \<open>=\<close> or is the next argument.\<close>

fun flag_Parse :: "config \<Rightarrow> string list \<Rightarrow> config result" where
  "flag_Parse c [] = Inr c"
| "flag_Parse c (s # args) =
     (if length s < 2 \<or> hd s \<noteq> CHR ''-'' then Inr c
      else if s = ''--'' then Inr c
      else let name = (if s ! 1 = CHR ''-'' then drop 2 s else drop 1 s) in
      if name = [] \<or> hd name = CHR ''-'' \<or> hd name = CHR ''='' then Inl [''bad flag syntax'']
      else let key = takeWhile (\<lambda>ch. ch \<noteq> CHR ''='') name;
               given = (if CHR ''='' \<in> set name then Some (drop (length key + 1) name) else None) in
      if key = ''callers-are-authenticated'' then
        (case given of
           None \<Rightarrow> flag_Parse (c\<lparr>cf_acknowledged := True\<rparr>) args
         | Some v \<Rightarrow>
           (case ParseBool v of
              None \<Rightarrow> Inl [''invalid boolean value'']
            | Some b \<Rightarrow> flag_Parse (c\<lparr>cf_acknowledged := b\<rparr>) args))
      else if key = ''listen'' \<or> key = ''store'' then
        (case given of
           Some v \<Rightarrow> flag_Parse (if key = ''listen'' then c\<lparr>cf_listen := v\<rparr> else c\<lparr>cf_store := v\<rparr>) args
         | None \<Rightarrow>
           (case args of
              [] \<Rightarrow> Inl [''flag needs an argument'']
            | v # args' \<Rightarrow> flag_Parse (if key = ''listen'' then c\<lparr>cf_listen := v\<rparr> else c\<lparr>cf_store := v\<rparr>) args'))
      else if key = ''help'' \<or> key = ''h'' then Inl [''flag: help requested'']
      else Inl [''flag provided but not defined''])"

definition parse :: "string list \<Rightarrow> config result" where
  "parse args =
     bindR (flag_Parse \<lparr>cf_listen = ''127.0.0.1:8080'', cf_store = [], cf_acknowledged = False\<rparr> args) (\<lambda>c.
       if cf_store c = [] then Inl [''-store is required; there is no default database path'']
       else bindR (checkListenAddress (cf_listen c) (cf_acknowledged c)) (\<lambda>_. Inr c))"

section \<open>Wiring\<close>

text \<open>\<^verbatim>\<open>run\<close> up to the point where it serves: the configuration, the database that was opened and the ledger
  over it.\<close>

definition service_start ::
  "'db sqlite_file \<Rightarrow> ('db, 'blob, 'ts, 'any, 'd) libs \<Rightarrow> 'k Clock \<Rightarrow> string list \<Rightarrow>
   (config \<times> 'db \<times> ('d, 'db, 'k) Ledger) result" where
  "service_start D L clock args =
     bindR (parse args) (\<lambda>cfg.
     bindR (sqlite_Open D (cf_store cfg)) (\<lambda>db.
     bindR (Canonicalisation (lb_unicode L)) (\<lambda>rules.
     bindR (NewLedger (Some (sqlite_store L)) (Some clock) rules) (\<lambda>ledger.
       Inr (cfg, db, ledger)))))"

section \<open>What a request asks for\<close>

text \<open>The command a request carries, when it carries one: a specification the handler is compared with.\<close>

definition submitted ::
  "(string \<Rightarrow> 'ts pb_HoldingClaimSubmission result) \<Rightarrow> unicode \<Rightarrow> 'ts timestamppb \<Rightarrow> 'd apd \<Rightarrow> Request \<Rightarrow>
   'd AcceptHoldingClaimCommand result" where
  "submitted unmarshal uc T A req =
     (if rq_Method req = ''POST'' \<and> isProtobuf uc (rq_ContentType req) \<and> \<not> rq_BodyFails req \<and>
         length (rq_Body req) \<le> maxBody
      then bindR (unmarshal (rq_Body req)) (\<lambda>wire. DecodeHoldingClaimSubmission uc T A (Some wire))
      else Inl [])"

lemma submit_carries:
  assumes "submitted unmarshal uc T A req = Inr cmd"
  shows "submit X unmarshal uc T A l req st =
    (case AcceptHoldingClaim l cmd st of
       (st', Inl err) \<Rightarrow> (st', refuse (statusFor err) (reasonFor X err))
     | (st', Inr ref) \<Rightarrow> (st', \<lparr>rs_Status = StatusCreated, rs_Header = plain_headers, rs_Body = write_line (FactRef_String ref)\<rparr>))"
  using assms by (auto simp: submitted_def submit_def read_limited_def split: if_splits)

lemma submit_carries_nothing:
  assumes "submitted unmarshal uc T A req = Inl e"
  shows "\<exists>rs. submit X unmarshal uc T A l req st = (st, rs) \<and>
    rs_Status rs \<in> {StatusBadRequest, StatusMethodNotAllowed, StatusRequestEntityTooLarge, StatusUnsupportedMediaType,
      StatusUnprocessableEntity}"
  using assms
  by (auto simp: submitted_def submit_def read_limited_def refuse_def bindR_Inl_iff split: if_splits sum.splits)

text \<open>The command a request carries where it is sent; a request the router keeps from \<^verbatim>\<open>submit\<close> carries none.\<close>

definition routed ::
  "(string \<Rightarrow> 'ts pb_HoldingClaimSubmission result) \<Rightarrow> unicode \<Rightarrow> 'ts timestamppb \<Rightarrow> 'd apd \<Rightarrow> string \<times> Request \<Rightarrow>
   'd AcceptHoldingClaimCommand result" where
  "routed unmarshal uc T A target =
     (if mux_route submissionPath (rq_Method (snd target)) (fst target) = Registered then submitted unmarshal uc T A (snd target)
      else Inl [])"

text \<open>A redirect of \<^verbatim>\<open>net/http\<close> answers a status from 300 to 399.\<close>

definition redirect_law :: "(string \<Rightarrow> Response) \<Rightarrow> bool" where
  "redirect_law redirect \<longleftrightarrow> (\<forall>path. 300 \<le> rs_Status (redirect path) \<and> rs_Status (redirect path) < 400)"

lemma posted_routed: "rq_Method req = ''POST'' \<Longrightarrow> routed unmarshal uc T A (submissionPath, req) = submitted unmarshal uc T A req"
proof -
  have "mux_route submissionPath ''POST'' submissionPath = Registered" unfolding submissionPath_def by code_simp
  then show "rq_Method req = ''POST'' \<Longrightarrow> ?thesis" by (simp add: routed_def)
qed

lemma handler_carries:
  assumes "routed unmarshal uc T A target = Inr cmd"
  shows "newHandler redirect X unmarshal uc T A l target st =
    (case AcceptHoldingClaim l cmd st of
       (st', Inl err) \<Rightarrow> (st', refuse (statusFor err) (reasonFor X err))
     | (st', Inr ref) \<Rightarrow> (st', \<lparr>rs_Status = StatusCreated, rs_Header = plain_headers, rs_Body = write_line (FactRef_String ref)\<rparr>))"
  using assms submit_carries [of unmarshal uc T A "snd target" cmd X l st]
  by (auto simp: routed_def newHandler_def split_def split: if_splits)

lemma handler_carries_nothing:
  assumes "routed unmarshal uc T A target = Inl e" "redirect_law redirect"
  shows "\<exists>rs. newHandler redirect X unmarshal uc T A l target st = (st, rs) \<and> rs_Status rs \<noteq> 201"
proof (cases "mux_route submissionPath (rq_Method (snd target)) (fst target)")
  case Registered
  then show ?thesis
    using assms(1) submit_carries_nothing [of unmarshal uc T A "snd target" e X l st]
    by (auto simp: routed_def newHandler_def split_def status_defs)
next
  case (Redirected clean)
  moreover have "rs_Status (redirect clean) \<noteq> 201" using assms(2) unfolding redirect_law_def by (auto dest: spec [of _ clean])
  ultimately show ?thesis by (simp add: newHandler_def split_def)
qed (simp add: newHandler_def split_def status_defs)

lemma statusFor_range: "statusFor err \<in> {StatusUnprocessableEntity, StatusConflict, StatusInternalServerError}"
  by (simp add: statusFor_def)

section \<open>The response body\<close>

lemma encode_ascii: "r < 0x80 \<Longrightarrow> encode_rune r = [char_of r]"
  by (simp add: encode_rune_def valid_rune_def encode_valid_def)

lemma inert_char: "inert r \<Longrightarrow> inert (of_char (char_of r :: char))"
  by (simp add: inert_def)

lemma safe_loop_shape:
  assumes "length b \<le> bound" "list_all (\<lambda>c. inert (of_char c)) b"
  shows "\<exists>out. list_all (\<lambda>c. inert (of_char c)) out \<and> length out = min bound (length b + length rs) \<and> take (length b) out = b \<and>
    safe_loop b rs = out @ (if length b + length rs \<le> bound then [] else encode_rune 0x2026)"
  using assms
proof (induction b rs rule: safe_loop.induct)
  case (2 b r rs)
  let ?c = "if inert r then encode_rune r else ''.''"
  have c: "length ?c = 1" "list_all (\<lambda>c. inert (of_char c)) ?c"
    using inert_char [of r] by (auto simp: encode_ascii inert_def)
  show ?case
  proof (cases "length b \<ge> bound")
    case True
    then show ?thesis using 2 by (intro exI [of _ b]) auto
  next
    case False
    have "\<exists>out. list_all (\<lambda>c. inert (of_char c)) out \<and> length out = min bound (length (b @ ?c) + length rs) \<and>
        take (length (b @ ?c)) out = b @ ?c \<and>
        safe_loop (b @ ?c) rs = out @ (if length (b @ ?c) + length rs \<le> bound then [] else encode_rune 0x2026)"
      using False 2 c by (intro "2.IH") auto
    then obtain out where out: "list_all (\<lambda>c. inert (of_char c)) out" "length out = min bound (length b + length (r # rs))"
        "take (length b + 1) out = b @ ?c"
        "safe_loop (b @ ?c) rs = out @ (if length b + length (r # rs) \<le> bound then [] else encode_rune 0x2026)"
      using c(1) by (auto simp: min_def)
    have "take (length b) out = b" using arg_cong [OF out(3), of "take (length b)"] by simp
    with out False show ?thesis by (intro exI [of _ out]) simp
  qed
qed (auto simp: min_def intro!: exI)

lemma safe_loop_fixes:
  assumes "list_all inert rs" "length b + length rs \<le> bound"
  shows "safe_loop b rs = b @ map char_of rs"
  using assms by (induction b rs rule: safe_loop.induct) (auto simp: encode_ascii inert_def)

lemma isProtobuf_plain: "isProtobuf uc protobufMediaType"
  by (simp add: isProtobuf_def protobufMediaType_def ParseMediaType_def Let_def media_params.simps checkMediaTypeDisposition_def
      consumeToken_def isTokenChar_def isTSpecial_def TrimLeftSpace_def ToLower_def unicode_ToLower_def strings_Map_def
      runes_def ascii_eval encode_ascii)

section \<open>On a durable ledger\<close>

lemma nanos_exact_nonzero: "nanos_exact t \<Longrightarrow> t \<noteq> zeroInstant"
  by (auto simp: nanos_exact_iff zeroInstant_def)

lemma claim_nonzero: "wf_claim uc c \<Longrightarrow> \<not> Claim_IsZero c"
  by (auto simp: wf_claim_def NewClaim_Inr_iff Claim_IsZero_def)

lemma interpreter_named: "NewInterpreter n v = Inr i \<Longrightarrow> ip_name i \<noteq> []"
  by (auto simp: NewInterpreter_def TrimSpace_def split: if_splits)

lemma source_named: "NewSource s = Inr src \<Longrightarrow> Source_value src \<noteq> []"
  by (auto simp: NewSource_def TrimSpace_def split: if_splits)

text \<open>A well-made request and the command it carries.\<close>

lemma posted_command:
  assumes "timestamppb_exact T" "command_value_ok uc A cmd"
    and "unmarshal body = Inr (EncodeHoldingClaimSubmission T A cmd)" "length body \<le> maxBody"
  shows "submitted unmarshal uc T A \<lparr>rq_Method = ''POST'', rq_ContentType = protobufMediaType, rq_Body = body,
      rq_BodyFails = False\<rparr> = Inr cmd"
  using assms by (simp add: submitted_def isProtobuf_plain submission_codec)

lemma command_observed:
  assumes "command_value_ok uc A cmd" "ac_CollectedAt cmd \<noteq> zeroInstant"
  shows "\<exists>prov. Observed (ac_Source cmd) (ac_CollectedAt cmd) (ac_Interpreter cmd) (ac_Confidence cmd) = Inr prov"
proof -
  have "Time (ac_CollectedAt cmd) \<noteq> 0" using assms(2) by (cases "ac_CollectedAt cmd") (simp add: zeroInstant_def)
  then show ?thesis
    using assms(1) interpreter_named source_named by (auto simp: command_value_ok_def Observed_Inr_iff)
qed

context durable_store
begin

lemma well_made_admitted:
  assumes "lg_store l = sqlite_store L" "sqlite_inv L table db"
    and cmd: "command_value_ok (lb_unicode L) (lb_apd L) cmd" "CheckContentAddress (ac_Source cmd) = Inr ()"
      "ac_Stream cmd \<noteq> []" "ac_CollectedAt cmd \<noteq> zeroInstant"
    and clock: "ck_Now (lg_clock l) k = (Inr t, k')" "nanos_exact t"
      "\<forall>st. loadFrom L db (ac_Stream cmd) = Inr st \<and> st_facts st \<noteq> [] \<longrightarrow> fact_knowledge (last (st_facts st)) < t"
    and room: "length (stream_rows (table db) (ac_Stream cmd)) + 1 < 2 ^ 63"
      "\<forall>e p. accept_built cmd (Inr t) = Inr (e, p) \<longrightarrow> marshals L table db (ac_Stream cmd) e p"
  shows "\<exists>db' st' f. AcceptHoldingClaim l cmd (db, k) = ((db', k'), Inr (f_ref f)) \<and> sqlite_inv L table db' \<and>
    loadFrom L db' (ac_Stream cmd) = Inr st' \<and>
    st_facts st' = (case loadFrom L db (ac_Stream cmd) of Inl _ \<Rightarrow> [] | Inr st \<Rightarrow> st_facts st) @ [f] \<and>
    f_payload f = HoldingClaimedP \<lparr>hc_Account = ac_Account cmd, hc_Instrument = ac_Instrument cmd,
      hc_Quantity = ac_Quantity cmd\<rparr> \<and>
    ev_coordinates (f_envelope f) = \<lparr>effective = ac_Effective cmd, knowledge = t\<rparr>"
proof -
  obtain prov where prov: "Observed (ac_Source cmd) (ac_CollectedAt cmd) (ac_Interpreter cmd) (ac_Confidence cmd) = Inr prov"
    using command_observed [OF cmd(1,4)] by blast
  have carried: "\<forall>e p. accept_built cmd (Inr t) = Inr (e, p) \<longrightarrow> sqlite_storable L table db (ac_Stream cmd) e p"
    using accept_storable [where L = L and cmd = cmd and t = t and table = table and db = db] cmd clock(2) room by blast
  have claims: "\<not> Claim_IsZero (ac_Account cmd)" "\<not> Claim_IsZero (ac_Instrument cmd)"
    "iv_from (ac_Effective cmd) \<noteq> zeroInstant"
    using cmd(1) claim_nonzero by (auto simp: command_value_ok_def interval_value_ok_def wf_interval_def)
  have old: "sqlite_view L db (ac_Stream cmd) = (case loadFrom L db (ac_Stream cmd) of Inl _ \<Rightarrow> None | Inr st \<Rightarrow> Some st)"
    by (simp add: sqlite_view_def)
  then have later: "\<forall>st. sqlite_view L db (ac_Stream cmd) = Some st \<and> st_facts st \<noteq> [] \<longrightarrow> fact_knowledge (last (st_facts st)) < t"
    using clock(3) by (auto split: sum.splits)
  obtain db' st' and f :: "'d Fact" where a: "AcceptHoldingClaim l cmd (db, k) = ((db', k'), Inr (f_ref f))"
      "sqlite_view L db' = (sqlite_view L db)(ac_Stream cmd \<mapsto> st')"
      "st_facts st' = (case sqlite_view L db (ac_Stream cmd) of None \<Rightarrow> [] | Some st \<Rightarrow> st_facts st) @ [f]"
      "f_payload f = HoldingClaimedP \<lparr>hc_Account = ac_Account cmd, hc_Instrument = ac_Instrument cmd, hc_Quantity = ac_Quantity cmd\<rparr>"
      "ev_coordinates (f_envelope f) = \<lparr>effective = ac_Effective cmd, knowledge = t\<rparr>"
    using durable.AcceptHoldingClaim_admits [OF assms(1,2) carried cmd(2) claims(1,2) clock(1) nanos_exact_nonzero [OF clock(2)]
        claims(3) cmd(3) prov later] by blast
  have "sqlite_inv L table db'"
    using durable.AcceptHoldingClaim_performs [OF assms(1,2) clock(1) carried cmd(2) claims(1,2)] a(1)
    by (auto simp: durable.performs_def)
  moreover from this have "loadFrom L db' (ac_Stream cmd) = Inr st'" using a(2) by (simp add: loadFrom_view)
  ultimately show ?thesis using a old by (auto split: sum.splits)
qed

lemma admission_steps:
  assumes "lg_store l = sqlite_store L" "sqlite_inv L table db"
    and "\<forall>e p. accept_built cmd (fst (ck_Now (lg_clock l) k)) = Inr (e, p) \<longrightarrow> sqlite_storable L table db (ac_Stream cmd) e p"
  shows "\<exists>db' k' res. AcceptHoldingClaim l cmd (db, k) = ((db', k'), res) \<and> sqlite_inv L table db' \<and>
    view_step (sqlite_view L db) (sqlite_view L db') res"
proof (cases "CheckContentAddress (ac_Source cmd) = Inr () \<and> \<not> Claim_IsZero (ac_Account cmd) \<and> \<not> Claim_IsZero (ac_Instrument cmd)")
  case True
  obtain now k' where now: "ck_Now (lg_clock l) k = (now, k')" by (cases "ck_Now (lg_clock l) k")
  have carried: "\<forall>e p. accept_built cmd now = Inr (e, p) \<longrightarrow> sqlite_storable L table db (ac_Stream cmd) e p"
    using assms(3) now by simp
  let ?out = "durable.outcome db (ac_Stream cmd) Any KindObservation (accept_built cmd now)"
  obtain db' res where r: "AcceptHoldingClaim l cmd (db, k) = ((db', k'), res)" "durable.performs db (ac_Stream cmd) ?out db' res"
    using durable.AcceptHoldingClaim_performs [OF assms(1,2) now carried] True by blast
  have "view_step (sqlite_view L db) (sqlite_view L db') res"
  proof (cases ?out)
    case (Inl e)
    then show ?thesis using r(2) by (simp add: durable.performs_def view_step_def)
  next
    case (Inr x)
    obtain st ref where x: "x = (st, ref)" by (cases x)
    then obtain e p where "append_spec (sqlite_view L db (ac_Stream cmd)) (ac_Stream cmd) Any e KindObservation (Some p) = Inr (st, ref)"
      using Inr by (auto simp: durable.outcome_def)
    from append_spec_step [where v = "sqlite_view L db", OF this] show ?thesis using r(2) Inr x by (simp add: durable.performs_def)
  qed
  then show ?thesis using r by (auto simp: durable.performs_def)
next
  case False
  from durable.AcceptHoldingClaim_refuses [OF False, of l "(db, k)"] assms(2) show ?thesis
    by (auto simp: view_step_def)
qed

lemma untimed_refused:
  assumes "lg_store l = sqlite_store L" "sqlite_inv L table db"
    and cmd: "command_value_ok (lb_unicode L) (lb_apd L) cmd" "CheckContentAddress (ac_Source cmd) = Inr ()"
      "ac_CollectedAt cmd = zeroInstant"
    and clock: "ck_Now (lg_clock l) k = (Inr t, k')" "t \<noteq> zeroInstant"
  shows "\<exists>db'. AcceptHoldingClaim l cmd (db, k) = ((db', k'), Inl [ErrIncomplete]) \<and> sqlite_inv L table db' \<and>
    sqlite_view L db' = sqlite_view L db"
proof -
  have claims: "\<not> Claim_IsZero (ac_Account cmd)" "\<not> Claim_IsZero (ac_Instrument cmd)"
    and eff: "iv_from (ac_Effective cmd) \<noteq> zeroInstant" and src: "Source_value (ac_Source cmd) \<noteq> []"
    using cmd(1) claim_nonzero source_named by (auto simp: command_value_ok_def interval_value_ok_def wf_interval_def)
  have "Assign (ac_Effective cmd) t = Inr \<lparr>effective = ac_Effective cmd, knowledge = t\<rparr>"
    using eff clock(2) by (simp add: Assign_Inr_iff)
  moreover have "Observed (ac_Source cmd) zeroInstant (ac_Interpreter cmd) (ac_Confidence cmd) = Inl [ErrIncomplete]"
    using src by (simp add: Observed_def Instant_IsZero_def zeroInstant_def)
  ultimately have built: "accept_built cmd (Inr t) = Inl [ErrIncomplete]"
    by (simp add: accept_built_def with_payload_def envelope_for_def cmd(3))
  then show ?thesis
    using durable.AcceptHoldingClaim_performs [OF assms(1,2) clock(1) _ cmd(2) claims]
    by (auto simp: durable.performs_def durable.outcome_def)
qed

end

section \<open>Starting\<close>

lemma parse_checks:
  assumes "parse args = Inr c"
  shows "cf_store c \<noteq> [] \<and>
    (cf_acknowledged c \<or>
     (\<exists>host p ip. (cf_listen c = host @ CHR '':'' # p \<or> cf_listen c = CHR ''['' # host @ CHR '']'' # CHR '':'' # p) \<and>
        ParseIP host = Some ip \<and> (ip = IPv6loopback \<or> (\<exists>x y z. ip = v4InV6Prefix @ [127, x, y, z]))))"
proof (cases "cf_acknowledged c")
  case True
  then show ?thesis using assms by (auto simp: parse_def split: if_splits)
next
  case False
  from assms have c: "cf_store c \<noteq> []" "checkListenAddress (cf_listen c) (cf_acknowledged c) = Inr ()"
    by (auto simp: parse_def split: if_splits)
  from c(2) False obtain host p ip where "SplitHostPort (cf_listen c) = Inr (host, p)" "ParseIP host = Some ip" "IsLoopback ip"
    by (auto simp: checkListenAddress_def split: if_splits option.splits)
  then show ?thesis using c(1) SplitHostPort_shape [of "cf_listen c" host p] IsLoopback_iff [of host ip] by blast
qed

text \<open>A service that starts runs the durable store under the shipped rules.\<close>

lemma service_start_wires:
  assumes "service_start D L clock args = Inr (cfg, db, ledger)"
  shows "parse args = Inr cfg \<and> sqlite_Open D (cf_store cfg) = Inr db \<and>
    ledger = \<lparr>lg_store = sqlite_store L, lg_clock = clock, lg_rules = shipped_ruleset\<rparr>"
  using assms by (auto simp: service_start_def Canonicalisation_shipped NewLedger_def split: if_splits)

section \<open>Properties\<close>

text \<open>Every way \<^verbatim>\<open>submit\<close> ends.\<close>

lemma submit_cases:
  obtains (verb) "rq_Method req \<noteq> ''POST''"
      "submit X unmarshal uc T A l req st =
        (st, (refuse 405 ''a submission is a POST'')\<lparr>rs_Header := (''Allow'', ''POST'') # plain_headers\<rparr>)"
  | (media) reason where "rq_Method req = ''POST''" "\<not> isProtobuf uc (rq_ContentType req)"
      "submit X unmarshal uc T A l req st = (st, refuse 415 reason)"
  | (large) reason where "rq_Method req = ''POST''" "isProtobuf uc (rq_ContentType req)" "2 ^ 20 < length (rq_Body req)"
      "submit X unmarshal uc T A l req st = (st, refuse 413 reason)"
  | (unreadable) reason where "rq_Method req = ''POST''" "isProtobuf uc (rq_ContentType req)" "length (rq_Body req) \<le> 2 ^ 20"
      "rq_BodyFails req \<or> \<not> is_ok (unmarshal (rq_Body req))" "submit X unmarshal uc T A l req st = (st, refuse 400 reason)"
  | (carried) wire where "rq_Method req = ''POST''" "isProtobuf uc (rq_ContentType req)" "length (rq_Body req) \<le> 2 ^ 20"
      "\<not> rq_BodyFails req" "unmarshal (rq_Body req) = Inr wire"
proof -
  have len: "length (rq_Body req) \<le> 2 ^ 20 \<longleftrightarrow> \<not> maxBody + 1 \<le> length (rq_Body req)" by (auto simp: maxBody_def)
  consider "rq_Method req \<noteq> ''POST''" | "rq_Method req = ''POST''" "\<not> isProtobuf uc (rq_ContentType req)"
    | "rq_Method req = ''POST''" "isProtobuf uc (rq_ContentType req)" "\<not> length (rq_Body req) \<le> 2 ^ 20"
    | "rq_Method req = ''POST''" "isProtobuf uc (rq_ContentType req)" "length (rq_Body req) \<le> 2 ^ 20"
        "rq_BodyFails req \<or> \<not> is_ok (unmarshal (rq_Body req))"
    | wire where "rq_Method req = ''POST''" "isProtobuf uc (rq_ContentType req)" "length (rq_Body req) \<le> 2 ^ 20"
        "\<not> rq_BodyFails req" "unmarshal (rq_Body req) = Inr wire"
    by (cases "unmarshal (rq_Body req)") auto
  then show ?thesis
  proof cases
    case 1
    then show ?thesis by (intro verb) (simp_all add: submit_def status_defs)
  next
    case 2
    then show ?thesis by (intro media) (simp_all add: submit_def status_defs)
  next
    case 3
    then show ?thesis using len by (intro large) (simp_all add: submit_def read_limited_def status_defs)
  next
    case 4
    then obtain reason where "submit X unmarshal uc T A l req st = (st, refuse 400 reason)"
      using len by (cases "unmarshal (rq_Body req)"; cases "rq_BodyFails req") (simp_all add: submit_def read_limited_def status_defs)
    with 4 show ?thesis by (rule unreadable)
  next
    case 5
    then show ?thesis by (rule carried)
  qed
qed

lemma submit_wire:
  assumes "rq_Method req = ''POST''" "isProtobuf uc (rq_ContentType req)" "length (rq_Body req) \<le> 2 ^ 20"
    "\<not> rq_BodyFails req" "unmarshal (rq_Body req) = Inr wire"
  shows "submitted unmarshal uc T A req = DecodeHoldingClaimSubmission uc T A (Some wire)"
    and "DecodeHoldingClaimSubmission uc T A (Some wire) = Inl err \<Longrightarrow>
      submit X unmarshal uc T A l req st = (st, refuse 422 (tx_Error X err))"
  using assms by (simp_all add: submitted_def submit_def read_limited_def status_defs maxBody_def)

definition resubmittable :: "go_error \<Rightarrow> bool" where
  "resubmittable e \<longleftrightarrow> errors_Is e ErrMalformedSource \<or> errors_Is e ErrIncompleteEnvelope \<or> errors_Is e Ledger_ErrUnknownKind"

definition overtaken :: "go_error \<Rightarrow> bool" where
  "overtaken e \<longleftrightarrow> errors_Is e ErrStaleRead \<or> errors_Is e ErrNonMonotonicKnowledge"

lemma statusFor_table:
  "statusFor e = 422 \<longleftrightarrow> resubmittable e" "statusFor e = 409 \<longleftrightarrow> \<not> resubmittable e \<and> overtaken e"
  "statusFor e = 500 \<longleftrightarrow> \<not> resubmittable e \<and> \<not> overtaken e" "statusFor e \<in> {409, 422, 500}"
  by (auto simp: statusFor_def resubmittable_def overtaken_def status_defs)

text \<open>C25: the whole decision table of the handler. 405 is answered, with an \<^verbatim>\<open>Allow\<close> header, exactly when the
  method is not \<^verbatim>\<open>POST\<close>; otherwise 415 exactly when the media type is not protobuf; otherwise 413 exactly
  when the body is longer than a mebibyte; otherwise 400 exactly when it cannot be read or is not a
  submission; otherwise 422 exactly when the submission decodes to no command or the ledger's error is one
  the producer can mend (a malformed source, an incomplete envelope, an unknown kind); 409 exactly when the
  ledger's error is instead a stale read or a knowledge time that did not advance; 500, in words that
  do not name the cause, on every other error of the ledger; and 201, naming the reference, exactly
  when the ledger gave one. A request that carries no command touches neither store nor clock; one
  that does leaves what the ledger left.\<close>

theorem submit_admits_exactly:
  assumes "submit X unmarshal uc T A l req st = (st', rs)"
  shows "(rs_Status rs = 405 \<longleftrightarrow> rq_Method req \<noteq> ''POST'') \<and>
    (rs_Status rs = 405 \<longrightarrow> (''Allow'', ''POST'') \<in> set (rs_Header rs)) \<and>
    (rs_Status rs = 415 \<longleftrightarrow> rq_Method req = ''POST'' \<and> \<not> isProtobuf uc (rq_ContentType req)) \<and>
    (rs_Status rs = 413 \<longleftrightarrow> rq_Method req = ''POST'' \<and> isProtobuf uc (rq_ContentType req) \<and> 2 ^ 20 < length (rq_Body req)) \<and>
    (rs_Status rs = 400 \<longleftrightarrow> rq_Method req = ''POST'' \<and> isProtobuf uc (rq_ContentType req) \<and> length (rq_Body req) \<le> 2 ^ 20 \<and>
      (rq_BodyFails req \<or> \<not> is_ok (unmarshal (rq_Body req)))) \<and>
    (rs_Status rs = 422 \<longleftrightarrow> rq_Method req = ''POST'' \<and> isProtobuf uc (rq_ContentType req) \<and> length (rq_Body req) \<le> 2 ^ 20 \<and>
      \<not> rq_BodyFails req \<and> (\<exists>wire. unmarshal (rq_Body req) = Inr wire \<and>
        (case DecodeHoldingClaimSubmission uc T A (Some wire) of Inl _ \<Rightarrow> True
         | Inr cmd \<Rightarrow> \<exists>e. snd (AcceptHoldingClaim l cmd st) = Inl e \<and>
             (errors_Is e ErrMalformedSource \<or> errors_Is e ErrIncompleteEnvelope \<or> errors_Is e Ledger_ErrUnknownKind)))) \<and>
    (rs_Status rs = 409 \<longleftrightarrow> (\<exists>cmd e. submitted unmarshal uc T A req = Inr cmd \<and> snd (AcceptHoldingClaim l cmd st) = Inl e \<and>
      \<not> resubmittable e \<and> (errors_Is e ErrStaleRead \<or> errors_Is e ErrNonMonotonicKnowledge))) \<and>
    (rs_Status rs = 500 \<longleftrightarrow> (\<exists>cmd e. submitted unmarshal uc T A req = Inr cmd \<and> snd (AcceptHoldingClaim l cmd st) = Inl e \<and>
      \<not> resubmittable e \<and> \<not> overtaken e)) \<and>
    (rs_Status rs = 500 \<longrightarrow> rs_Body rs = write_line ''the submission could not be recorded'') \<and>
    (rs_Status rs = 201 \<longleftrightarrow> (\<exists>cmd ref. submitted unmarshal uc T A req = Inr cmd \<and> AcceptHoldingClaim l cmd st = (st', Inr ref) \<and>
      rs_Body rs = write_line (FactRef_String ref))) \<and>
    rs_Status rs \<in> {201, 400, 405, 409, 413, 415, 422, 500} \<and>
    st' = (case submitted unmarshal uc T A req of Inl _ \<Rightarrow> st | Inr cmd \<Rightarrow> fst (AcceptHoldingClaim l cmd st))"
proof -
  have none: "submitted unmarshal uc T A req = Inl []"
    if "rq_Method req \<noteq> ''POST'' \<or> \<not> isProtobuf uc (rq_ContentType req) \<or> 2 ^ 20 < length (rq_Body req) \<or> rq_BodyFails req"
    using that by (auto simp: submitted_def maxBody_def)
  show ?thesis
  proof (cases rule: submit_cases [of req X unmarshal uc T A l st])
    case (unreadable reason)
    then have "\<not> is_ok (submitted unmarshal uc T A req)" by (auto simp: submitted_def is_ok_iff)
    with unreadable show ?thesis using assms by (auto simp: refuse_def is_ok_iff split: sum.splits)
  next
    case (carried wire)
    note wire = submit_wire [where unmarshal = unmarshal and req = req and uc = uc and wire = wire, OF carried]
    show ?thesis
    proof (cases "DecodeHoldingClaimSubmission uc T A (Some wire)")
      case (Inl err)
      have "submitted unmarshal uc T A req = Inl err" using Inl by (simp add: wire(1))
      moreover have "st' = st" "rs = refuse 422 (tx_Error X err)" using assms wire(2) [OF Inl, of X l st] by simp_all
      ultimately show ?thesis using carried Inl by (simp add: refuse_def)
    next
      case (Inr cmd)
      then have cmd: "submitted unmarshal uc T A req = Inr cmd" by (simp add: wire(1))
      obtain s1 res where r: "AcceptHoldingClaim l cmd st = (s1, res)" by (cases "AcceptHoldingClaim l cmd st")
      show ?thesis
      proof (cases res)
        case (Inl err)
        have "statusFor err = 500 \<Longrightarrow> reasonFor X err = ''the submission could not be recorded''"
          by (simp add: reasonFor_def status_defs)
        then show ?thesis
          using assms submit_carries [OF cmd, of X l st] r Inl cmd \<open>DecodeHoldingClaimSubmission uc T A (Some wire) = Inr cmd\<close> carried
            statusFor_table [of err]
          by (auto simp: refuse_def resubmittable_def [symmetric] overtaken_def [symmetric])
      next
        case (Inr ref)
        then show ?thesis
          using assms submit_carries [OF cmd, of X l st] r cmd \<open>DecodeHoldingClaimSubmission uc T A (Some wire) = Inr cmd\<close> carried
          by (auto simp: status_defs)
      qed
    qed
  qed (use assms none in \<open>auto simp: refuse_def\<close>)
qed

text \<open>C33: what a caller can make the service say is inert and bounded. Whatever text goes in, at most
  512 bytes of printable ASCII without angle brackets and ampersands come out, followed, exactly when
  the text has more than 512 runes, by an ellipsis; a text that is already inert and short enough comes
  out unchanged.\<close>

theorem safe_inert:
  "(\<exists>out. list_all (\<lambda>c. inert (of_char c)) out \<and> length out = min 512 (length (runes reason)) \<and>
      safe reason = out @ (if length (runes reason) \<le> 512 then [] else encode_rune 0x2026)) \<and>
    length (safe reason) \<le> 515 \<and> (length text \<le> 512 \<and> list_all (\<lambda>c. inert (of_char c)) text \<longrightarrow> safe text = text)"
proof -
  obtain out where out: "list_all (\<lambda>c. inert (of_char c)) out" "length out = min 512 (length (runes reason))"
      "safe reason = out @ (if length (runes reason) \<le> 512 then [] else encode_rune 0x2026)"
    using safe_loop_shape [of "[]" "runes reason"] by (auto simp: safe_def bound_def)
  have "length (encode_rune 0x2026) = 3" by (simp add: encode_rune_def valid_rune_def encode_valid_def)
  then have "length (safe reason) \<le> 515" using out(2,3) by simp
  moreover have "safe text = text" if "length text \<le> 512" "\<forall>c \<in> set text. inert (of_char c)"
  proof -
    have "ascii text" using that(2) by (auto simp: ascii_def list_all_iff inert_def)
    then show ?thesis
      using safe_loop_fixes [of "runes text" "[]"] that by (simp add: safe_def runes_ascii list_all_iff bound_def comp_def)
  qed
  ultimately show ?thesis using out by (simp add: list_all_iff)
qed

text \<open>C32: without the operator's acknowledgement the service starts on the loopback interface only. A
  service that starts names a database file of the current encoding and runs the ledger over the
  durable store with the shipped rules; and it is acknowledged or its address is a host and a port
  whose host is a literal address in 127.0.0.0/8, mapped into IPv6 or not, or the IPv6 loopback, never
  an empty host and never a name. Every address of 127.0.0.0/8 written in decimal is accepted.\<close>

theorem listen_loopback_only:
  assumes "service_start D L clock args = Inr (c, db, ledger)" "sqlite_file_law D"
    and "a \<le> 255" "b \<le> 255" "d \<le> 255" "set port \<inter> set '':[]'' = {}"
  shows "cf_store c \<noteq> [] \<and> sf_user_version D db = Inr encodingOrderableInteger \<and>
    ledger = \<lparr>lg_store = sqlite_store L, lg_clock = clock, lg_rules = shipped_ruleset\<rparr> \<and>
    (cf_acknowledged c \<or>
     (\<exists>host p ip. (cf_listen c = host @ CHR '':'' # p \<or> cf_listen c = CHR ''['' # host @ CHR '']'' # CHR '':'' # p) \<and>
        ParseIP host = Some ip \<and> (ip = IPv6loopback \<or> (\<exists>x y z. ip = v4InV6Prefix @ [127, x, y, z])))) \<and>
    checkListenAddress (dotted 127 a b d @ CHR '':'' # port) False = Inr ()"
proof -
  note start = service_start_wires [OF assms(1)]
  from start have "sqlite_Open D (cf_store c) = Inr db" by simp
  then have "sf_user_version D db = Inr encodingOrderableInteger" by (rule sqlite_Open_marked [OF assms(2)])
  moreover have "checkListenAddress (dotted 127 a b d @ CHR '':'' # port) False = Inr ()"
    using dotted_listens [OF assms(3-6)] by (simp add: checkListenAddress_def)
  ultimately show ?thesis using start parse_checks [of args c] by blast
qed

section \<open>Witnesses\<close>

definition any_texts :: texts where
  "any_texts = \<lparr>tx_Error = concat, tx_Quote = (\<lambda>s. s)\<rparr>"

theorem submit_admits_exactly_witness:
  "rs_Status (snd (submit any_texts (\<lambda>_. Inl []) unicode_ascii unix_timestamppb int_apd sample_ledger
     \<lparr>rq_Method = ''GET'', rq_ContentType = protobufMediaType, rq_Body = [], rq_BodyFails = False\<rparr> (NewStore, Instant 7))) = 405 \<and>
   rs_Status (snd (submit any_texts (\<lambda>_. Inl []) unicode_ascii unix_timestamppb int_apd sample_ledger
     \<lparr>rq_Method = ''POST'', rq_ContentType = [], rq_Body = [], rq_BodyFails = False\<rparr> (NewStore, Instant 7))) = 415 \<and>
   rs_Status (snd (submit any_texts (\<lambda>_. Inl []) unicode_ascii unix_timestamppb int_apd sample_ledger
     \<lparr>rq_Method = ''POST'', rq_ContentType = protobufMediaType, rq_Body = replicate (2 ^ 20 + 1) (CHR ''x''),
       rq_BodyFails = True\<rparr> (NewStore, Instant 7))) = 413 \<and>
   rs_Status (snd (submit any_texts (\<lambda>_. Inl []) unicode_ascii unix_timestamppb int_apd sample_ledger
     \<lparr>rq_Method = ''POST'', rq_ContentType = protobufMediaType, rq_Body = ''x'', rq_BodyFails = False\<rparr> (NewStore, Instant 7))) = 400"
proof -
  note table = submit_admits_exactly [OF prod.collapse [symmetric], of any_texts "\<lambda>_. Inl []" unicode_ascii unix_timestamppb int_apd
      sample_ledger _ "(NewStore, Instant 7)"]
  have "\<not> isProtobuf unicode_ascii []" by (simp add: isProtobuf_def) code_simp
  then show ?thesis
    using table [of "\<lparr>rq_Method = ''GET'', rq_ContentType = protobufMediaType, rq_Body = [], rq_BodyFails = False\<rparr>"]
      table [of "\<lparr>rq_Method = ''POST'', rq_ContentType = [], rq_Body = [], rq_BodyFails = False\<rparr>"]
      table [of "\<lparr>rq_Method = ''POST'', rq_ContentType = protobufMediaType, rq_Body = replicate (2 ^ 20 + 1) (CHR ''x''), rq_BodyFails = True\<rparr>"]
      table [of "\<lparr>rq_Method = ''POST'', rq_ContentType = protobufMediaType, rq_Body = ''x'', rq_BodyFails = False\<rparr>"]
      isProtobuf_plain [of unicode_ascii]
    by (simp del: replicate.simps)
qed

theorem safe_inert_witness: "safe ''l#1'' = ''l#1'' \<and> length (safe ''<script>'') \<le> 515"
  using safe_inert [of "''<script>''" "''l#1''"] by (simp add: inert_def)

text \<open>A fresh file of rows that carries the current marker.\<close>

definition marked_file :: "'blob Row list sqlite_file" where
  "marked_file = \<lparr>sf_Open = (\<lambda>_. Inr []),
     sf_Exec = (\<lambda>db st. case st of Set_user_version v \<Rightarrow> if v = 2 then Inr db else Inl [''read-only''] | _ \<Rightarrow> Inr db),
     sf_user_version = (\<lambda>_. Inr 2), sf_facts_tables = (\<lambda>_. Inr 1), sf_facts_rows = (\<lambda>db. Inr (int (length db)))\<rparr>"

lemma marked_file_law: "sqlite_file_law marked_file"
  by (auto simp: sqlite_file_law_def marked_file_def split: statement.splits if_splits)

lemma marked_service_starts:
  "service_start marked_file list_libs \<lparr>ck_Now = Fixed_Now\<rparr> [''-store'', ''ledger.db''] =
     Inr (\<lparr>cf_listen = ''127.0.0.1:8080'', cf_store = ''ledger.db'', cf_acknowledged = False\<rparr>, [], durable_ledger)"
proof -
  have "dotted 127 0 0 1 @ '':8080'' = ''127.0.0.1:8080''" by code_simp
  then have "checkListenAddress ''127.0.0.1:8080'' False = Inr ()"
    using dotted_listens [of 0 0 1 "''8080''"] by (simp add: checkListenAddress_def)
  then show ?thesis
    by (simp add: service_start_def parse_def sqlite_Open_def marked_file_def pragmas_def assertEncoding_def encodingOrderableInteger_def
        schema_def Canonicalisation_shipped NewLedger_def Ruleset_IsZero_def shipped_ruleset_def durable_ledger_def)
qed

theorem listen_loopback_only_witness:
  "\<exists>ledger. service_start marked_file list_libs \<lparr>ck_Now = Fixed_Now\<rparr> [''-store'', ''ledger.db''] =
     Inr (\<lparr>cf_listen = ''127.0.0.1:8080'', cf_store = ''ledger.db'', cf_acknowledged = False\<rparr>, [], ledger) \<and>
   lg_store ledger = sqlite_store list_libs \<and> checkListenAddress (dotted 127 0 0 2 @ '':8080'') False = Inr ()"
  using listen_loopback_only [OF marked_service_starts marked_file_law, of 0 0 2 "''8080''"] marked_service_starts by (simp add: durable_ledger_def)

end
