(* ===== verification/Submitd_Process.thy ===== *)
theory Submitd_Process
  imports Submitd
begin

text \<open>
  The life of a \<^verbatim>\<open>submitd\<close> process (\<^verbatim>\<open>src/apps/submitd\<close>): the requests it serves, how it ends and what the next process
  finds. The handler \<^verbatim>\<open>newHandler\<close> builds keeps no state of its own and everything a request does to the
  database happens in one transaction, so the requests of a process, however they overlap, act in the
  order of their transactions: \<open>serve\<close> takes them in that order. \<open>life\<close> is the second half of \<^verbatim>\<open>run\<close>: the
  server goroutine, the wait for its error or for a signal, and \<^verbatim>\<open>Shutdown\<close> with its deadline. While
  it drains, \<^verbatim>\<open>Shutdown\<close> has closed the listeners and no request is taken. The next process opens the file
  as the last committed transaction left it: losing power before the operating system has written the file
  is out of scope, as it is in the repository's own account of its durability.
\<close>

section \<open>Serving requests\<close>

type_synonym 'st handler = "string \<times> Request \<Rightarrow> 'st \<Rightarrow> 'st \<times> Response"

fun serve :: "'st handler \<Rightarrow> (string \<times> Request) list \<Rightarrow> 'st \<Rightarrow> 'st \<times> Response list" where
  "serve h [] st = (st, [])"
| "serve h (q # qs) st =
     (case h q st of (st', rs) \<Rightarrow> case serve h qs st' of (st'', rss) \<Rightarrow> (st'', rs # rss))"

lemma serve_append:
  "serve h (qs @ [q]) st = (case serve h qs st of (st', rss) \<Rightarrow> case h q st' of (st'', rs) \<Rightarrow> (st'', rss @ [rs]))"
  by (induction qs arbitrary: st) (auto split: prod.splits)

lemma length_serve: "serve h qs st = (st', rss) \<Longrightarrow> length rss = length qs"
  by (induction qs arbitrary: st rss) (auto split: prod.splits)

text \<open>The handler of a process over the libraries \<open>L\<close>.\<close>

abbreviation service_handler ::
  "(string \<Rightarrow> Response) \<Rightarrow> texts \<Rightarrow> (string \<Rightarrow> 'ts pb_HoldingClaimSubmission result) \<Rightarrow> ('db, 'blob, 'ts, 'any, 'd) libs \<Rightarrow>
   ('d, 'db, 'k) Ledger \<Rightarrow> ('db \<times> 'k) handler" where
  "service_handler redirect X unmarshal L l \<equiv> newHandler redirect X unmarshal (lb_unicode L) (lb_time L) (lb_apd L) l"

text \<open>Every admissible command on the way is one the database can carry.\<close>

fun carried_along ::
  "('db, 'blob, 'ts, 'any, 'd) libs \<Rightarrow> ('db \<Rightarrow> 'blob Row list) \<Rightarrow> ('db \<times> 'k) handler \<Rightarrow>
   (string \<Rightarrow> 'ts pb_HoldingClaimSubmission result) \<Rightarrow> ('d, 'db, 'k) Ledger \<Rightarrow> (string \<times> Request) list \<Rightarrow> 'db \<times> 'k \<Rightarrow> bool" where
  "carried_along L table h unmarshal l [] st \<longleftrightarrow> True"
| "carried_along L table h unmarshal l (q # qs) st \<longleftrightarrow>
     (\<forall>cmd e p. routed unmarshal (lb_unicode L) (lb_time L) (lb_apd L) q = Inr cmd \<and>
        accept_built cmd (fst (ck_Now (lg_clock l) (snd st))) = Inr (e, p) \<longrightarrow>
        sqlite_storable L table (fst st) (ac_Stream cmd) e p) \<and>
     carried_along L table h unmarshal l qs (fst (h q st))"

definition view_facts :: "('db, 'blob, 'ts, 'any, 'd) libs \<Rightarrow> 'db \<Rightarrow> string \<Rightarrow> 'd Fact list" where
  "view_facts L db n = (case sqlite_view L db n of None \<Rightarrow> [] | Some st \<Rightarrow> st_facts st)"

text \<open>The facts that answers of 201 speak of, as the database holds them.\<close>

definition recorded :: "('db, 'blob, 'ts, 'any, 'd) libs \<Rightarrow> 'db \<Rightarrow> 'db \<Rightarrow> Response list \<Rightarrow> 'd Fact list \<Rightarrow> bool" where
  "recorded L db db' rss fs \<longleftrightarrow>
     map rs_Body (filter (\<lambda>rs. rs_Status rs = 201) rss) = map (\<lambda>f. write_line (FactRef_String (f_ref f))) fs \<and>
     (\<forall>n. view_facts L db' n = view_facts L db n @ filter (\<lambda>f. fr_Stream (f_ref f) = n) fs)"

lemma distinct_by_stream:
  assumes "\<And>n. distinct (map g (filter (\<lambda>x. h (g x) = n) xs))"
  shows "distinct (map g xs)"
  using assms
proof (induction xs)
  case (Cons x xs)
  have "distinct (map g xs)"
  proof (rule Cons.IH)
    fix n
    show "distinct (map g (filter (\<lambda>x. h (g x) = n) xs))" using Cons.prems [of n] by (auto split: if_splits)
  qed
  moreover have "g x \<notin> g ` set xs" using Cons.prems [of "h (g x)"] by (auto simp: image_iff)
  ultimately show ?case by simp
qed simp

context durable_store
begin

lemma submission_steps:
  assumes "lg_store l = sqlite_store L" "sqlite_inv L table db" "redirect_law redirect"
    and "\<forall>cmd e p. routed unmarshal uc T (lb_apd L) q = Inr cmd \<and>
      accept_built cmd (fst (ck_Now (lg_clock l) k)) = Inr (e, p) \<longrightarrow> sqlite_storable L table db (ac_Stream cmd) e p"
  shows "\<exists>db' k' rs. newHandler redirect X unmarshal uc T (lb_apd L) l q (db, k) = ((db', k'), rs) \<and> sqlite_inv L table db' \<and>
    (if rs_Status rs = 201
     then \<exists>n st f. sqlite_view L db' = (sqlite_view L db)(n \<mapsto> st) \<and>
       st_facts st = (case sqlite_view L db n of None \<Rightarrow> [] | Some old \<Rightarrow> st_facts old) @ [f] \<and>
       rs_Body rs = write_line (FactRef_String (f_ref f))
     else sqlite_view L db' = sqlite_view L db)"
proof (cases "routed unmarshal uc T (lb_apd L) q")
  case (Inl e)
  obtain rs where "newHandler redirect X unmarshal uc T (lb_apd L) l q (db, k) = ((db, k), rs)" "rs_Status rs \<noteq> 201"
    using handler_carries_nothing [OF Inl assms(3), of X l "(db, k)"] by blast
  with assms(2) show ?thesis by (intro exI [of _ db] exI [of _ k] exI [of _ rs]) simp
next
  case (Inr cmd)
  obtain db' k' res where r: "AcceptHoldingClaim l cmd (db, k) = ((db', k'), res)" "sqlite_inv L table db'"
      "view_step (sqlite_view L db) (sqlite_view L db') res"
    using admission_steps [OF assms(1,2)] assms(4) Inr by blast
  show ?thesis
  proof (cases res)
    case (Inl err)
    then show ?thesis
      using r handler_carries [OF Inr, of redirect X l "(db, k)"] statusFor_range [of err]
      by (auto simp: refuse_def status_defs view_step_def)
  next
    case (Inr ref)
    then show ?thesis
      using r handler_carries [OF \<open>routed unmarshal uc T (lb_apd L) q = Inr cmd\<close>, of redirect X l "(db, k)"]
      by (fastforce simp: status_defs view_step_def)
  qed
qed

lemma view_facts_numbered:
  assumes "sqlite_inv L table db"
  shows "\<forall>f \<in> set (view_facts L db n). fr_Stream (f_ref f) = n" "distinct (map f_ref (view_facts L db n))"
proof -
  obtain fs where fs: "list_all2 (row_holds L) (stream_rows (table db) n) fs" "facts_stored L n fs"
    using assms by (auto simp: sqlite_inv_def)
  have v: "view_facts L db n = fs" using view_stored [OF fs] by (simp add: view_facts_def)
  have ref: "f_ref (fs ! i) = \<lparr>fr_Stream = n, fr_Sequence = word_of_nat (i + 1)\<rparr>" if "i < length fs" for i
    using fs(2) that by (simp add: facts_stored_def)
  then show "\<forall>f \<in> set (view_facts L db n). fr_Stream (f_ref f) = n" unfolding v by (fastforce simp: in_set_conv_nth)
  have len: "length fs < 2 ^ 63" using fs(2) by (simp add: facts_stored_def)
  have "i = j" if "i < length fs" "j < length fs" "f_ref (fs ! i) = f_ref (fs ! j)" for i j
  proof -
    have "(word_of_nat (i + 1) :: u64) = word_of_nat (j + 1)" using that ref by simp
    then have "uint (word_of_nat (i + 1) :: u64) = uint (word_of_nat (j + 1) :: u64)" by (rule arg_cong)
    then show ?thesis using uint_sequence [of "i + 1"] uint_sequence [of "j + 1"] that len by simp
  qed
  then show "distinct (map f_ref (view_facts L db n))" unfolding v by (auto simp: distinct_conv_nth)
qed

lemma serve_records:
  assumes "lg_store l = sqlite_store L" "redirect_law redirect" "sqlite_inv L table (fst st)"
    and "carried_along L table (service_handler redirect X unmarshal L l) unmarshal l qs st"
  shows "\<exists>db' k' rss fs. serve (service_handler redirect X unmarshal L l) qs st = ((db', k'), rss) \<and>
    sqlite_inv L table db' \<and> recorded L (fst st) db' rss fs"
  using assms(3,4)
proof (induction qs arbitrary: st)
  case Nil
  then show ?case by (cases st) (auto simp: recorded_def)
next
  case (Cons q qs)
  obtain db k where st: "st = (db, k)" by (cases st)
  obtain db1 k1 rs where one: "service_handler redirect X unmarshal L l q (db, k) = ((db1, k1), rs)"
      "sqlite_inv L table db1" "if rs_Status rs = 201
     then \<exists>n st f. sqlite_view L db1 = (sqlite_view L db)(n \<mapsto> st) \<and>
       st_facts st = (case sqlite_view L db n of None \<Rightarrow> [] | Some old \<Rightarrow> st_facts old) @ [f] \<and>
       rs_Body rs = write_line (FactRef_String (f_ref f))
     else sqlite_view L db1 = sqlite_view L db"
    using submission_steps [OF assms(1) _ assms(2), of db unmarshal "lb_unicode L" "lb_time L" q k X] Cons.prems st by auto
  obtain db' k' rss fs where rest: "serve (service_handler redirect X unmarshal L l) qs (db1, k1) = ((db', k'), rss)"
      "sqlite_inv L table db'" "recorded L db1 db' rss fs"
    using Cons.IH [of "(db1, k1)"] Cons.prems(2) one st by auto
  have "\<exists>gs. recorded L db db' (rs # rss) gs"
  proof (cases "rs_Status rs = 201")
    case True
    then obtain n st' f where f: "sqlite_view L db1 = (sqlite_view L db)(n \<mapsto> st')" "st_facts st' = view_facts L db n @ [f]"
        "rs_Body rs = write_line (FactRef_String (f_ref f))"
      using one(3) by (auto simp: view_facts_def)
    then have "view_facts L db1 m = view_facts L db m @ (if m = n then [f] else [])" for m by (simp add: view_facts_def)
    moreover have "fr_Stream (f_ref f) = n"
      using view_facts_numbered(1) [OF one(2), of n] f by (simp add: view_facts_def)
    ultimately have "recorded L db db' (rs # rss) (f # fs)" using rest(3) True f(3) by (auto simp: recorded_def)
    then show ?thesis by blast
  next
    case False
    then have "sqlite_view L db1 = sqlite_view L db" using one(3) by simp
    then show ?thesis using rest(3) False by (auto simp: recorded_def view_facts_def)
  qed
  then show ?case using one(1) rest(1,2) st by auto
qed

end

section \<open>Restarting\<close>

text \<open>What SQL says of a file that already holds a ledger: no statement of \<^verbatim>\<open>Open\<close> fails on it or touches a
  row (\<^verbatim>\<open>CREATE TABLE IF NOT EXISTS\<close>), and inserting a row and
  committing one leave \<^verbatim>\<open>user_version\<close> alone.\<close>

definition sqlite_reopen_law :: "'db sqlite_file \<Rightarrow> ('db, 'blob) sqlite \<Rightarrow> ('db \<Rightarrow> 'blob Row list) \<Rightarrow> bool" where
  "sqlite_reopen_law D S table \<longleftrightarrow>
     (\<forall>db st. (\<forall>v. st \<noteq> Set_user_version v) \<longrightarrow> (\<exists>db'. sf_Exec D db st = Inr db' \<and> table db' = table db)) \<and>
     (\<forall>db row db'. db_insert S db row = Inr db' \<longrightarrow> sf_user_version D db' = sf_user_version D db) \<and>
     (\<forall>db tx. sf_user_version D tx = sf_user_version D db \<longrightarrow>
        sf_user_version D (fst (db_commit S db tx)) = sf_user_version D db)"

lemma reopen_exec:
  assumes "sqlite_file_law D" "sqlite_reopen_law D S table" "\<forall>v. st \<noteq> Set_user_version v"
  shows "\<exists>db'. sf_Exec D db st = Inr db' \<and> table db' = table db \<and> sf_user_version D db' = sf_user_version D db"
proof -
  obtain db' where "sf_Exec D db st = Inr db'" "table db' = table db"
    using assms(2,3) unfolding sqlite_reopen_law_def by blast
  moreover from this have "sf_user_version D db' = sf_user_version D db"
    using assms(1,3) by (auto simp: sqlite_file_law_def split: statement.splits)
  ultimately show ?thesis by blast
qed

lemma reopen_exec_all:
  assumes "sqlite_file_law D" "sqlite_reopen_law D S table" "\<forall>st \<in> set sts. \<forall>v. st \<noteq> Set_user_version v"
  shows "\<exists>db'. exec_all D db sts = Inr db' \<and> table db' = table db \<and> sf_user_version D db' = sf_user_version D db"
  using assms(3)
proof (induction sts arbitrary: db)
  case (Cons st sts)
  obtain db1 where one: "sf_Exec D db st = Inr db1" "table db1 = table db" "sf_user_version D db1 = sf_user_version D db"
    using reopen_exec [OF assms(1,2), of st db] Cons.prems by auto
  then show ?case using Cons.IH [of db1] Cons.prems by auto
qed simp

lemma reopen:
  assumes "sqlite_file_law D" "sqlite_reopen_law D S table"
    and "sf_Open D (dsn @ ''?_txlock=immediate'') = Inr db" "sf_user_version D db = Inr encodingOrderableInteger"
  shows "\<exists>db'. sqlite_Open D dsn = Inr db' \<and> table db' = table db"
proof -
  obtain db1 where one: "exec_all D db pragmas = Inr db1" "table db1 = table db" "sf_user_version D db1 = sf_user_version D db"
    using reopen_exec_all [OF assms(1,2), of pragmas db] by (auto simp: pragmas_def)
  moreover obtain db2 where "sf_Exec D db1 schema = Inr db2" "table db2 = table db1"
    using reopen_exec [OF assms(1,2), of schema db1] by (auto simp: schema_def)
  ultimately show ?thesis using assms(3,4) by (simp add: sqlite_Open_def assertEncoding_def)
qed

lemma append_keeps_marker:
  assumes "sqlite_reopen_law D (lb_sqlite L) table" "appendWithin L db n ex e kd p = (db', res)"
  shows "sf_user_version D db' = sf_user_version D db"
  using assms
  by (auto simp: appendWithin_def sqlite_reopen_law_def Let_def split: sum.splits prod.splits if_splits option.splits)

lemma admission_keeps_marker:
  assumes "sqlite_reopen_law D (lb_sqlite L) table" "lg_store l = sqlite_store L" "AcceptHoldingClaim l cmd (db, k) = ((db', k'), res)"
  shows "sf_user_version D db' = sf_user_version D db"
proof -
  obtain tx k1 res1 where r: "accept_region l cmd (regional L) (db, k) = ((tx, k1), res1)" by (metis prod.collapse)
  then have "sf_user_version D tx = sf_user_version D db"
    using append_keeps_marker [OF assms(1)]
    by (auto simp: accept_region_def commit_def regional_def split: prod.splits sum.splits)
  then show ?thesis
    using assms r unfolding sqlite_reopen_law_def
    by (auto simp: AcceptHoldingClaim_def sqlite_store_def sqlite_Serialise_def end_tx_def
        split: sum.splits if_splits prod.splits) (metis fst_conv)+
qed

lemma handler_keeps_marker:
  assumes "sqlite_reopen_law D (lb_sqlite L) table" "lg_store l = sqlite_store L" "redirect_law redirect"
    and "service_handler redirect X unmarshal L l q (db, k) = ((db', k'), rs)"
  shows "sf_user_version D db' = sf_user_version D db"
proof (cases "routed unmarshal (lb_unicode L) (lb_time L) (lb_apd L) q")
  case (Inl e)
  then show ?thesis using handler_carries_nothing [OF Inl assms(3), of X l "(db, k)"] assms(4) by auto
next
  case (Inr cmd)
  obtain db1 k1 res where "AcceptHoldingClaim l cmd (db, k) = ((db1, k1), res)" by (metis prod.collapse)
  then show ?thesis
    using assms(4) handler_carries [OF Inr, of redirect X l "(db, k)"] admission_keeps_marker [OF assms(1,2)]
    by (auto split: sum.splits)
qed

lemma serve_keeps_marker:
  assumes "sqlite_reopen_law D (lb_sqlite L) table" "lg_store l = sqlite_store L" "redirect_law redirect"
    and "serve (service_handler redirect X unmarshal L l) qs st = (st', rss)"
  shows "sf_user_version D (fst st') = sf_user_version D (fst st)"
  using assms(4)
proof (induction qs arbitrary: st rss)
  case (Cons q qs)
  obtain st1 rs where one: "service_handler redirect X unmarshal L l q st = (st1, rs)"
    by (cases "service_handler redirect X unmarshal L l q st")
  moreover from this Cons.prems obtain rss' where "serve (service_handler redirect X unmarshal L l) qs st1 = (st', rss')"
    by (auto split: prod.splits)
  ultimately show ?case
    using Cons.IH [of st1 rss'] handler_keeps_marker [OF assms(1-3), of X unmarshal q "fst st" "snd st" "fst st1" "snd st1" rs] by simp
qed simp

lemma same_rows_same_view:
  assumes "sqlite_law (lb_sqlite L) table" "table db = table db'"
  shows "sqlite_view L db = sqlite_view L db'"
  using assms by (simp add: sqlite_law_def sqlite_view_def loadFrom_def fun_eq_iff)

section \<open>The life of a process\<close>

text \<open>While \<^verbatim>\<open>ListenAndServe\<close> runs requests are taken; each is handled, in its own goroutine, and its answer
  written, or lost with its connection. The process leaves \<open>Serving\<close> with the error of the listener or, at a
  signal, for \<^verbatim>\<open>Shutdown\<close>, which takes no further request, answers when none is under way and gives up when its
  deadline passes. What was taken, what was handled in the order of the transactions, and what became of the
  answers is remembered. A process may end in any of these states.\<close>

datatype phase = Serving | Draining | Exited "unit result"

record 'st server =
  sv_phase :: phase
  sv_taken :: "(string \<times> Request) list"
  sv_waiting :: "(string \<times> Request) list"
  sv_log :: "((string \<times> Request) \<times> Response) list"
  sv_unsent :: "((string \<times> Request) \<times> Response) list"
  sv_sent :: "((string \<times> Request) \<times> Response) list"
  sv_lost :: "((string \<times> Request) \<times> Response) list"
  sv_state :: 'st

definition server_start :: "'st \<Rightarrow> 'st server" where
  "server_start st = \<lparr>sv_phase = Serving, sv_taken = [], sv_waiting = [], sv_log = [], sv_unsent = [], sv_sent = [], sv_lost = [],
     sv_state = st\<rparr>"

definition ErrServerClosed :: sentinel where
  "ErrServerClosed = ''http: Server closed''"

definition DeadlineExceeded :: sentinel where
  "DeadlineExceeded = ''context deadline exceeded''"

inductive life :: "'st handler \<Rightarrow> 'st server \<Rightarrow> 'st server \<Rightarrow> bool" for h where
  take_request: "sv_phase s = Serving \<Longrightarrow>
    life h s (s\<lparr>sv_taken := sv_taken s @ [q], sv_waiting := sv_waiting s @ [q]\<rparr>)"
| handle: "sv_waiting s = as @ q # bs \<Longrightarrow> h q (sv_state s) = (st, rs) \<Longrightarrow>
    life h s (s\<lparr>sv_waiting := as @ bs, sv_log := sv_log s @ [(q, rs)], sv_unsent := sv_unsent s @ [(q, rs)], sv_state := st\<rparr>)"
| answer: "sv_unsent s = as @ x # bs \<Longrightarrow> life h s (s\<lparr>sv_unsent := as @ bs, sv_sent := sv_sent s @ [x]\<rparr>)"
| lose: "sv_unsent s = as @ x # bs \<Longrightarrow> life h s (s\<lparr>sv_unsent := as @ bs, sv_lost := sv_lost s @ [x]\<rparr>)"
| listen_fails: "sv_phase s = Serving \<Longrightarrow> \<not> errors_Is e ErrServerClosed \<Longrightarrow> life h s (s\<lparr>sv_phase := Exited (Inl e)\<rparr>)"
| signalled: "sv_phase s = Serving \<Longrightarrow> life h s (s\<lparr>sv_phase := Draining\<rparr>)"
| drained: "sv_phase s = Draining \<Longrightarrow> sv_waiting s = [] \<Longrightarrow> sv_unsent s = [] \<Longrightarrow> life h s (s\<lparr>sv_phase := Exited (Inr ())\<rparr>)"
| expired: "sv_phase s = Draining \<Longrightarrow> life h s (s\<lparr>sv_phase := Exited (Inl [DeadlineExceeded])\<rparr>)"

text \<open>However the requests overlapped, the state is the one \<open>serve\<close> computes from them, and no answer is made up
  or forgotten.\<close>

definition life_inv :: "'st handler \<Rightarrow> 'st \<Rightarrow> 'st server \<Rightarrow> bool" where
  "life_inv h st0 s \<longleftrightarrow> serve h (map fst (sv_log s)) st0 = (sv_state s, map snd (sv_log s)) \<and>
     mset (sv_taken s) = mset (sv_waiting s) + mset (map fst (sv_log s)) \<and>
     mset (sv_log s) = mset (sv_unsent s) + mset (sv_sent s) + mset (sv_lost s) \<and>
     (sv_phase s = Exited (Inr ()) \<longrightarrow> sv_waiting s = [] \<and> sv_unsent s = [])"

lemma life_step_inv: "life h s s' \<Longrightarrow> life_inv h st0 s \<Longrightarrow> life_inv h st0 s'"
  by (induction rule: life.induct) (auto simp: life_inv_def serve_append)

lemma life_reachable_inv: "(life h)\<^sup>*\<^sup>* (server_start st0) s \<Longrightarrow> life_inv h st0 s"
proof (induction rule: rtranclp_induct)
  case base
  show ?case by (simp add: life_inv_def server_start_def)
next
  case (step y z)
  show ?case by (rule life_step_inv [OF step.hyps(2) step.IH])
qed

section \<open>Properties\<close>

text \<open>C3: what was answered 201 is there after a restart, however the process ended. A process that has started,
  with whatever it found in its file, takes any requests on any paths, overlapping as they may, and at any moment ends: by a signal
  and a shutdown, drained or not, by an error of its listener, or killed. The requests it had handled added
  one fact for each answer of 201 and no other, no two under one reference, which extend their streams in the order
  they were admitted; every 201 that reached a caller names one of them. Another process started with the
  same arguments on the file it left starts, with the same rules and store, and finds exactly those
  streams. And when \<^verbatim>\<open>run\<close> returned without an error, every request it took was handled and every answer was
  written or its connection lost. The database must be one whose streams are well-formed to begin with, every admissible
  command one it can carry, and the engine must keep its laws.\<close>

theorem admitted_survive_restart:
  assumes laws: "sqlite_law (lb_sqlite L) table" "proto_law (lb_proto L)" "timestamppb_exact (lb_time L)" "anypb_exact (lb_any L)"
      "sqlite_file_law D" "sqlite_reopen_law D (lb_sqlite L) table" "redirect_law redirect"
    and start: "service_start D L clock args = Inr (cfg, db, ledger)" "sqlite_inv L table db"
    and lived: "(life (service_handler redirect X unmarshal L ledger))\<^sup>*\<^sup>* (server_start (db, k)) s"
    and carried: "carried_along L table (service_handler redirect X unmarshal L ledger) unmarshal ledger (map fst (sv_log s)) (db, k)"
  shows "\<exists>fs db2.
    map rs_Body (filter (\<lambda>rs. rs_Status rs = 201) (map snd (sv_log s))) = map (\<lambda>f. write_line (FactRef_String (f_ref f))) fs \<and>
    distinct (map f_ref fs) \<and>
    (\<forall>(q, rs) \<in> set (sv_sent s). rs_Status rs = 201 \<longrightarrow> (\<exists>f \<in> set fs. rs_Body rs = write_line (FactRef_String (f_ref f)))) \<and>
    service_start (D\<lparr>sf_Open := \<lambda>_. Inr (fst (sv_state s))\<rparr>) L clock args = Inr (cfg, db2, ledger) \<and>
    (\<forall>n. view_facts L db2 n = view_facts L db n @ filter (\<lambda>f. fr_Stream (f_ref f) = n) fs) \<and>
    (sv_phase s = Exited (Inr ()) \<longrightarrow>
       mset (map fst (sv_log s)) = mset (sv_taken s) \<and> mset (sv_sent s) + mset (sv_lost s) = mset (sv_log s))"
proof -
  have d: "durable_store L table" by (rule durable_store.intro [OF laws(1-4)])
  note wired = service_start_wires [OF start(1)]
  have store: "lg_store ledger = sqlite_store L" using wired by simp
  note inv = life_reachable_inv [OF lived, unfolded life_inv_def]
  obtain db1 k1 where state: "sv_state s = (db1, k1)" by (cases "sv_state s")
  obtain fs where s: "sqlite_inv L table db1" "recorded L db db1 (map snd (sv_log s)) fs"
    using durable_store.serve_records [OF d store laws(7) _ carried] start(2) inv state by auto
  have "distinct (map f_ref (filter (\<lambda>f. fr_Stream (f_ref f) = n) fs))" for n
    using durable_store.view_facts_numbered(2) [OF d s(1), of n] s(2) by (simp add: recorded_def)
  then have "distinct (map f_ref fs)" by (rule distinct_by_stream)
  have sent: "\<exists>f \<in> set fs. rs_Body rs = write_line (FactRef_String (f_ref f))" if "(q, rs) \<in> set (sv_sent s)" "rs_Status rs = 201" for q rs
  proof -
    have "set_mset (mset (sv_sent s)) \<subseteq> set_mset (mset (sv_log s))" using inv by auto
    then have "(q, rs) \<in> set (sv_log s)" using that(1) by auto
    then have "rs_Body rs \<in> set (map rs_Body (filter (\<lambda>rs. rs_Status rs = 201) (map snd (sv_log s))))" using that(2) by force
    then show ?thesis using s(2) unfolding recorded_def by auto
  qed
  let ?D = "D\<lparr>sf_Open := \<lambda>_. Inr (fst (sv_state s))\<rparr>"
  have "sf_user_version D db = Inr encodingOrderableInteger" using wired sqlite_Open_marked [OF laws(5)] by blast
  then have "sf_user_version ?D db1 = Inr encodingOrderableInteger"
    using serve_keeps_marker [OF laws(6) store laws(7) conjunct1 [OF inv]] state by simp
  moreover have "sqlite_file_law ?D" "sqlite_reopen_law ?D (lb_sqlite L) table"
    using laws(5,6) by (auto simp: sqlite_file_law_def sqlite_reopen_law_def split: statement.splits)
  ultimately obtain db2 where o: "sqlite_Open ?D (cf_store cfg) = Inr db2" "table db2 = table db1"
    using reopen [of ?D "lb_sqlite L" table "cf_store cfg" db1] state by auto
  then have "service_start ?D L clock args = Inr (cfg, db2, ledger)"
    using wired start(1) by (auto simp: service_start_def)
  moreover have "view_facts L db2 = view_facts L db1"
    using same_rows_same_view [OF laws(1) o(2)] by (simp add: view_facts_def fun_eq_iff)
  ultimately show ?thesis using s sent inv \<open>distinct (map f_ref fs)\<close>
    by (intro exI [of _ fs] exI [of _ db2]) (auto simp: recorded_def)
qed

section \<open>Witness\<close>

definition post_claim :: Request where
  "post_claim = \<lparr>rq_Method = ''POST'', rq_ContentType = protobufMediaType, rq_Body = ''claim'', rq_BodyFails = False\<rparr>"

definition claim_message :: "string \<Rightarrow> (64 word \<times> 32 word) pb_HoldingClaimSubmission result" where
  "claim_message body = Inr (EncodeHoldingClaimSubmission unix_timestamppb int_apd durable_command)"

lemma list_fields: "lb_unicode list_libs = unicode_ascii" "lb_time list_libs = unix_timestamppb" "lb_apd list_libs = int_apd"
  by (simp_all add: list_libs_def)

lemma post_claim_carries: "submitted claim_message unicode_ascii unix_timestamppb int_apd post_claim = Inr durable_command"
  unfolding post_claim_def using list_laws(3) durable_command_ok
  by (intro posted_command) (simp_all add: claim_message_def list_fields maxBody_def)

lemma marked_file_reopens: "sqlite_reopen_law marked_file (lb_sqlite list_libs) (\<lambda>db. db)"
  by (auto simp: sqlite_reopen_law_def marked_file_def list_libs_def list_sqlite_def split: statement.splits)

definition plain_redirect :: "string \<Rightarrow> Response" where
  "plain_redirect path = \<lparr>rs_Status = 301, rs_Header = [(''Location'', path)], rs_Body = []\<rparr>"

lemma plain_redirect_law: "redirect_law plain_redirect"
  by (simp add: redirect_law_def plain_redirect_def)

definition claim_handler where
  "claim_handler = service_handler plain_redirect any_texts claim_message list_libs durable_ledger"

lemma claim_routed:
  "routed claim_message (lb_unicode list_libs) (lb_time list_libs) (lb_apd list_libs) (submissionPath, post_claim) = Inr durable_command"
proof -
  have "rq_Method post_claim = ''POST''" by (simp add: post_claim_def)
  then show ?thesis by (simp only: posted_routed list_fields post_claim_carries)
qed

lemma claim_handled:
  "\<exists>db1 k1 rs. claim_handler (submissionPath, post_claim) ([], durable_known 0) = ((db1, k1), rs) \<and> rs_Status rs = 201"
proof -
  obtain db1 k1 ref where "AcceptHoldingClaim durable_ledger durable_command ([], durable_known 0) = ((db1, k1), Inr ref)"
    using durable_admits by auto
  then show ?thesis
    using handler_carries [OF claim_routed, of plain_redirect any_texts durable_ledger "([], durable_known 0)"]
    by (simp add: claim_handler_def status_defs)
qed

theorem admitted_survive_restart_witness:
  "\<exists>s fs db2. (life claim_handler)\<^sup>*\<^sup>* (server_start ([], durable_known 0)) s \<and> sv_phase s = Exited (Inr ()) \<and>
    sv_taken s = [(submissionPath, post_claim)] \<and> length (sv_sent s) = 1 \<and> length fs = 1 \<and>
    service_start (marked_file\<lparr>sf_Open := \<lambda>_. Inr (fst (sv_state s))\<rparr>) list_libs \<lparr>ck_Now = Fixed_Now\<rparr> [''-store'', ''ledger.db''] =
      Inr (\<lparr>cf_listen = ''127.0.0.1:8080'', cf_store = ''ledger.db'', cf_acknowledged = False\<rparr>, db2, durable_ledger) \<and>
    view_facts list_libs db2 ''l'' = filter (\<lambda>f. fr_Stream (f_ref f) = ''l'') fs"
proof -
  let ?q = "(submissionPath, post_claim)"
  obtain db1 k1 rs where one: "claim_handler ?q ([], durable_known 0) = ((db1, k1), rs)" "rs_Status rs = 201"
    using claim_handled by blast
  let ?s0 = "server_start ([] :: (64 word \<times> 32 word, PayloadMsg) pb_Fact Row list, durable_known 0)"
  let ?s1 = "?s0\<lparr>sv_taken := [?q], sv_waiting := [?q]\<rparr>"
  let ?s2 = "?s1\<lparr>sv_waiting := [], sv_log := [(?q, rs)], sv_unsent := [(?q, rs)], sv_state := (db1, k1)\<rparr>"
  let ?s3 = "?s2\<lparr>sv_unsent := [], sv_sent := [(?q, rs)]\<rparr>"
  let ?s4 = "?s3\<lparr>sv_phase := Draining\<rparr>"
  let ?s5 = "?s4\<lparr>sv_phase := Exited (Inr ())\<rparr>"
  have "life claim_handler ?s0 ?s1" using life.take_request [of ?s0 claim_handler ?q] by (simp add: server_start_def)
  moreover have "life claim_handler ?s1 ?s2" using life.handle [of ?s1 "[]" ?q "[]" claim_handler] one(1) by (simp add: server_start_def)
  moreover have "life claim_handler ?s2 ?s3" using life.answer [of ?s2 "[]" "(?q, rs)" "[]" claim_handler] by (simp add: server_start_def)
  moreover have "life claim_handler ?s3 ?s4" by (rule life.signalled) (simp add: server_start_def)
  moreover have "life claim_handler ?s4 ?s5" by (rule life.drained) simp_all
  ultimately have lived: "(life claim_handler)\<^sup>*\<^sup>* ?s0 ?s5" by (meson rtranclp.rtrancl_into_rtrancl rtranclp.rtrancl_refl)
  have "sqlite_storable list_libs (\<lambda>db. db) [] (ac_Stream durable_command) e p"
    if "accept_built durable_command (Inr (durable_known 0)) = Inr (e, p)" for e p
    using that durable_command_ok durable_known_ok [of 0] list_marshals
    by (intro accept_storable) (simp_all add: list_libs_def durable_command_def wire_command_def stream_rows_def)
  then have carried: "carried_along list_libs (\<lambda>db. db) claim_handler claim_message durable_ledger (map fst (sv_log ?s5)) ([], durable_known 0)"
    by (simp add: claim_routed) (simp add: durable_ledger_def Fixed_Now_def)
  have empty: "view_facts list_libs [] ''l'' = []"
    by (simp add: list_libs_def view_facts_def sqlite_view_def loadFrom_def list_sqlite_def stream_rows_def NewStream_def)
  from admitted_survive_restart [OF list_laws marked_file_law marked_file_reopens plain_redirect_law marked_service_starts
      list_durable.empty_inv [OF refl] lived [unfolded claim_handler_def] carried [unfolded claim_handler_def]]
  obtain fs db2 where "map rs_Body (filter (\<lambda>rs. rs_Status rs = 201) (map snd (sv_log ?s5))) = map (\<lambda>f. write_line (FactRef_String (f_ref f))) fs"
      "service_start (marked_file\<lparr>sf_Open := \<lambda>_. Inr (fst (sv_state ?s5))\<rparr>) list_libs \<lparr>ck_Now = Fixed_Now\<rparr> [''-store'', ''ledger.db''] =
        Inr (\<lparr>cf_listen = ''127.0.0.1:8080'', cf_store = ''ledger.db'', cf_acknowledged = False\<rparr>, db2, durable_ledger)"
      "view_facts list_libs db2 ''l'' = filter (\<lambda>f. fr_Stream (f_ref f) = ''l'') fs"
    using empty by (elim exE conjE) auto
  moreover from this(1) one(2) have "length fs = 1" by (auto dest: arg_cong [where f = length])
  ultimately show ?thesis using lived by (intro exI [of _ ?s5] exI [of _ fs] exI [of _ db2]) simp
qed

end
