(* ===== verification/Ingest.thy ===== *)
theory Ingest
  imports Submitd
begin

text \<open>
  \<^verbatim>\<open>src/examples/ingest\<close>: the conformance kit a producer runs on a submission before sending it
  (\<^verbatim>\<open>conform.go\<close>) and the example producer (\<^verbatim>\<open>producer.go\<close>). \<open>Check\<close> decodes the bytes and admits the
  command into a ledger of its own over an empty in-memory store; \<open>build\<close> is the message the example
  sends. The check has no limit on the size of the bytes, which the service has; the property says where
  that makes the two differ. Marshalling is a parameter, as in the service; what \<^verbatim>\<open>main\<close> prints is not modelled.
\<close>

section \<open>The kit\<close>

text \<open>The time of the Unix epoch, and of noon on 1 March 2026.\<close>

definition unix_epoch :: time where
  "unix_epoch = 62135596800 * 1000000000"

definition Hour :: int where
  "Hour = 3600 * 1000000000"

definition Check ::
  "(string \<Rightarrow> 'ts pb_HoldingClaimSubmission result) \<Rightarrow> unicode \<Rightarrow> 'ts timestamppb \<Rightarrow> 'd apd \<Rightarrow> string \<Rightarrow> unit result" where
  "Check unmarshal uc T A wire =
     bindR (unmarshal wire) (\<lambda>submission.
     bindR (DecodeHoldingClaimSubmission uc T A (Some submission)) (\<lambda>cmd.
     bindR (At unix_epoch) (\<lambda>start.
     bindR (Canonicalisation uc) (\<lambda>rules.
     bindR (NewLedger (Some memory_store) (Some Sequence_clock) rules) (\<lambda>ledger.
     bindR (snd (AcceptHoldingClaim ledger cmd (NewStore, NewSequence start Hour))) (\<lambda>_.
       Inr ()))))))"

section \<open>The example submission\<close>

definition build :: "'ts timestamppb \<Rightarrow> 'ts pb_HoldingClaimSubmission" where
  "build T =
     (let collected = unix_epoch + 1772366400 * 1000000000 in
      \<lparr>sw_Stream = ''example-account'',
       sw_Account = Some \<lparr>ic_Scheme = ''account'', ic_Value = ''EXAMPLE-0001''\<rparr>,
       sw_Instrument = Some \<lparr>ic_Scheme = ''ticker'', ic_Value = ''EXMPL4''\<rparr>,
       sw_Quantity = Some \<lparr>qw_Amount = Some \<lparr>dc_Value = ''100''\<rparr>, qw_Unit = ''share''\<rparr>,
       sw_Effective = Some \<lparr>iw_From = Some (tp_New T collected), iw_To = None\<rparr>,
       sw_Source = Some \<lparr>sr_Value = ''sha256:1111111111111111111111111111111111111111111111111111111111111111''\<rparr>,
       sw_CollectedAt = Some (tp_New T collected),
       sw_Interpreter = Some \<lparr>ir_Name = ''unmediated'', ir_Version = ''1''\<rparr>,
       sw_Confidence = 1,
       sw_References = []\<rparr>)"

section \<open>The ledger's verdict\<close>

text \<open>What makes a claim admissible, whatever else the ledger holds.\<close>

definition admissible :: "'d AcceptHoldingClaimCommand \<Rightarrow> bool" where
  "admissible cmd \<longleftrightarrow> CheckContentAddress (ac_Source cmd) = Inr () \<and> \<not> Claim_IsZero (ac_Account cmd) \<and>
     \<not> Claim_IsZero (ac_Instrument cmd) \<and> iv_from (ac_Effective cmd) \<noteq> zeroInstant \<and> ac_Stream cmd \<noteq> [] \<and>
     is_ok (Observed (ac_Source cmd) (ac_CollectedAt cmd) (ac_Interpreter cmd) (ac_Confidence cmd))"

lemma accept_built_needs:
  "accept_built cmd now = Inr (e, p) \<Longrightarrow> iv_from (ac_Effective cmd) \<noteq> zeroInstant \<and>
     is_ok (Observed (ac_Source cmd) (ac_CollectedAt cmd) (ac_Interpreter cmd) (ac_Confidence cmd))"
  by (auto simp: accept_built_def with_payload_Inr_iff envelope_for_Inr_iff)

lemma admitted_iff:
  assumes "lg_store l = memory_store" "ck_Now (lg_clock l) k = (Inr t, k')" "t \<noteq> zeroInstant" "s [] = None"
    and "\<forall>n st. s n = Some st \<and> st_facts st \<noteq> [] \<longrightarrow> fact_knowledge (last (st_facts st)) < t"
  shows "is_ok (snd (AcceptHoldingClaim l cmd (s, k))) \<longleftrightarrow> admissible cmd"
proof
  assume ok: "is_ok (snd (AcceptHoldingClaim l cmd (s, k)))"
  have c: "CheckContentAddress (ac_Source cmd) = Inr () \<and> \<not> Claim_IsZero (ac_Account cmd) \<and> \<not> Claim_IsZero (ac_Instrument cmd)"
  proof (rule ccontr)
    assume "\<not> ?thesis"
    from memory.AcceptHoldingClaim_refuses [OF this, of l "(s, k)"] ok show False by auto
  qed
  then obtain s' res where r: "AcceptHoldingClaim l cmd (s, k) = ((s', k'), res)"
      "memory.performs s (ac_Stream cmd) (memory.outcome s (ac_Stream cmd) Any KindObservation (accept_built cmd (Inr t))) s' res"
    using memory.AcceptHoldingClaim_performs [where l = l and cmd = cmd and s = s and k = k and now = "Inr t" and k' = k'] assms(1,2)
    by blast
  then obtain e p x where b: "accept_built cmd (Inr t) = Inr (e, p)"
      "append_spec (s (ac_Stream cmd)) (ac_Stream cmd) Any e KindObservation (Some p) = Inr x"
    using ok by (auto simp: memory.performs_def memory.outcome_def split: sum.splits)
  have "ac_Stream cmd \<noteq> []" using b(2) assms(4) by (auto simp: append_spec_def NewStream_def)
  with c accept_built_needs [OF b(1)] show "admissible cmd" by (simp add: admissible_def)
next
  assume a: "admissible cmd"
  then obtain prov where "Observed (ac_Source cmd) (ac_CollectedAt cmd) (ac_Interpreter cmd) (ac_Confidence cmd) = Inr prov"
    by (auto simp: admissible_def is_ok_iff)
  then have "\<exists>s' st' f. AcceptHoldingClaim l cmd (s, k) = ((s', k'), Inr (f_ref (f :: 'a Fact))) \<and> s' = s(ac_Stream cmd \<mapsto> st')"
    using memory.AcceptHoldingClaim_admits [where l = l and cmd = cmd and s = s and k = k and t = t and k' = k' and prov = prov]
      a assms by (fastforce simp: admissible_def)
  then show "is_ok (snd (AcceptHoldingClaim l cmd (s, k)))" by auto
qed

lemma Check_iff:
  "Check unmarshal uc T A wire = Inr () \<longleftrightarrow>
     (\<exists>w cmd. unmarshal wire = Inr w \<and> DecodeHoldingClaimSubmission uc T A (Some w) = Inr cmd \<and> admissible cmd)"
proof -
  let ?l = "\<lparr>lg_store = memory_store, lg_clock = Sequence_clock, lg_rules = shipped_ruleset\<rparr> :: ('b, 'b MemStore, Sequence) Ledger"
  let ?k = "NewSequence (Instant unix_epoch) Hour"
  have now: "ck_Now (lg_clock ?l) ?k = (Inr (Instant unix_epoch), ?k\<lparr>sq_next := unix_epoch + Hour\<rparr>)"
    by (simp add: Sequence_clock_def Sequence_Now_def NewSequence_def MustAt_def At_def unix_epoch_def)
  have "is_ok (snd (AcceptHoldingClaim ?l cmd (NewStore, ?k))) \<longleftrightarrow> admissible cmd" for cmd
    by (rule admitted_iff [OF _ now]) (simp_all add: unix_epoch_def zeroInstant_def NewStore_def)
  moreover have "\<not> Ruleset_IsZero shipped_ruleset" by (simp add: Ruleset_IsZero_def shipped_ruleset_def)
  ultimately show ?thesis
    by (auto simp: Check_def Canonicalisation_shipped NewLedger_def At_def unix_epoch_def is_ok_iff)
qed

section \<open>Properties\<close>

text \<open>C24: the kit's verdict is the service's, but for the size of the body. Whatever bytes a producer holds,
  the service answers 201 to them exactly when the conformance check passes them and they are at most a
  mebibyte, and 413 exactly when they are more: the check, which never leaves the process, has no limit
  on the size. This holds of every in-memory ledger, whatever its streams hold, whose clock reads an
  instant after every fact and which holds no unnamed stream.\<close>

theorem conformance_kit_agrees:
  assumes "lg_store l = memory_store" "ck_Now (lg_clock l) k = (Inr t, k')" "t \<noteq> zeroInstant" "s [] = None"
    and "\<forall>n st. s n = Some st \<and> st_facts st \<noteq> [] \<longrightarrow> fact_knowledge (last (st_facts st)) < t"
    and "submit X unmarshal uc T A l
      \<lparr>rq_Method = ''POST'', rq_ContentType = protobufMediaType, rq_Body = wire, rq_BodyFails = False\<rparr> (s, k) = (st', rs)"
  shows "(rs_Status rs = 201 \<longleftrightarrow> Check unmarshal uc T A wire = Inr () \<and> length wire \<le> 2 ^ 20) \<and>
    (rs_Status rs = 413 \<longleftrightarrow> 2 ^ 20 < length wire)"
proof -
  let ?req = "\<lparr>rq_Method = ''POST'', rq_ContentType = protobufMediaType, rq_Body = wire, rq_BodyFails = False\<rparr>"
  show ?thesis
  proof (cases rule: submit_cases [of ?req X unmarshal uc T A l "(s, k)"])
    case (unreadable reason)
    then have "\<not> is_ok (unmarshal wire)" by simp
    then show ?thesis using assms(6) unreadable by (auto simp: Check_iff is_ok_iff refuse_def)
  next
    case (carried w)
    then have sub: "submitted unmarshal uc T A ?req = DecodeHoldingClaimSubmission uc T A (Some w)"
      using submit_wire(1) [where unmarshal = unmarshal and req = ?req and wire = w and uc = uc] by simp
    show ?thesis
    proof (cases "DecodeHoldingClaimSubmission uc T A (Some w)")
      case (Inl e)
      then have "submit X unmarshal uc T A l ?req (s, k) = ((s, k), refuse 422 (tx_Error X e))"
        using submit_wire(2) [where unmarshal = unmarshal and req = ?req and wire = w and uc = uc] carried by simp
      then show ?thesis using assms(6) carried Inl by (auto simp: Check_iff refuse_def)
    next
      case (Inr cmd)
      then have "Check unmarshal uc T A wire = Inr () \<longleftrightarrow> admissible cmd" using carried(5) by (auto simp: Check_iff)
      also have "\<dots> \<longleftrightarrow> is_ok (snd (AcceptHoldingClaim l cmd (s, k)))" using admitted_iff [OF assms(1-5)] by simp
      finally have verdict: "Check unmarshal uc T A wire = Inr () \<longleftrightarrow> is_ok (snd (AcceptHoldingClaim l cmd (s, k)))" .
      obtain s1 res where r: "AcceptHoldingClaim l cmd (s, k) = (s1, res)" by (cases "AcceptHoldingClaim l cmd (s, k)")
      have out: "submit X unmarshal uc T A l ?req (s, k) = (case res of
          Inl err \<Rightarrow> (s1, refuse (statusFor err) (reasonFor X err))
        | Inr ref \<Rightarrow> (s1, \<lparr>rs_Status = StatusCreated, rs_Header = plain_headers, rs_Body = write_line (FactRef_String ref)\<rparr>))"
        using submit_carries [of unmarshal uc T A ?req cmd X l "(s, k)"] sub Inr r by simp
      have "length wire \<le> 2 ^ 20" using carried(3) by simp
      moreover have "statusFor e \<noteq> 201 \<and> statusFor e \<noteq> 413" for e using statusFor_table(4) [of e] by auto
      ultimately show ?thesis
        unfolding verdict r using out assms(6) by (cases res) (auto simp: refuse_def status_defs)
    qed
  qed (use assms(6) isProtobuf_plain in \<open>auto simp: refuse_def\<close>)
qed

section \<open>Witnesses\<close>

lemma example_admissible:
  "\<exists>cmd. DecodeHoldingClaimSubmission unicode_ascii unix_timestamppb int_apd (Some (build unix_timestamppb)) = Inr cmd \<and>
     admissible cmd"
proof -
  let ?t = "unix_epoch + 1772366400 * 1000000000"
  let ?src = "''sha256:1111111111111111111111111111111111111111111111111111111111111111''"
  have t: "tp_AsTime unix_timestamppb (tp_New unix_timestamppb ?t) = ?t" "?t \<noteq> 0"
    using unix_timestamppb_exact by (auto simp: timestamppb_exact_def time_in_range_def unix_epoch_def)
  have a: "NewClaim unicode_ascii ''account'' ''EXAMPLE-0001'' = Inr \<lparr>cl_scheme = ''account'', cl_value = ''EXAMPLE-0001''\<rparr>"
    "NewClaim unicode_ascii ''ticker'' ''EXMPL4'' = Inr \<lparr>cl_scheme = ''ticker'', cl_value = ''EXMPL4''\<rparr>"
    by (simp_all add: claim_eval ascii_eval)
  have q: "ParseQuantity int_apd ''100'' ''share'' = Inr \<lparr>q_amount = 100, q_unit = ''share''\<rparr>"
    by (simp add: ParseQuantity_def validateCanonical_def runes_ascii ContainsAny_def TrimPrefix_def HasSuffix_def
       int_apd_def digits_value_def)
  have p: "NewSource ?src = Inr (Source ?src)" "NewInterpreter ''unmediated'' ''1'' = Inr \<lparr>ip_name = ''unmediated'', ip_version = ''1''\<rparr>"
    by (simp_all add: NewSource_def NewInterpreter_def ascii_eval)
  have c: "CheckContentAddress (Source ?src) = Inr ()"
    by (simp add: CheckContentAddress_def sourceAlgorithm_def is_lower_hex_def TrimPrefix_def ascii_eval runes_def)
  show ?thesis
    using t a q p c
    by (simp add: DecodeHoldingClaimSubmission_def build_def Let_def DecodeClaim_def DecodeQuantity_def DecodeInterval_def
        DecodeInstant_def At_def NewInterval_def DecodeConfidence_def admissible_def Claim_IsZero_def Observed_def
        Confidence_Valid_def enum_defs Instant_IsZero_def zeroInstant_def instant_defs)
qed

text \<open>The same submission, padded beyond the limit: the check still passes it, the service does not take it.\<close>

theorem conformance_kit_agrees_witness:
  "Check (\<lambda>_. Inr (build unix_timestamppb)) unicode_ascii unix_timestamppb int_apd ''wire'' = Inr () \<and>
   rs_Status (snd (submit any_texts (\<lambda>_. Inr (build unix_timestamppb)) unicode_ascii
     unix_timestamppb int_apd sample_ledger \<lparr>rq_Method = ''POST'', rq_ContentType = protobufMediaType, rq_Body = ''wire'',
       rq_BodyFails = False\<rparr> (NewStore, Instant 7))) = 201 \<and>
   Check (\<lambda>_. Inr (build unix_timestamppb)) unicode_ascii unix_timestamppb int_apd (replicate (2 ^ 20 + 1) (CHR ''w'')) = Inr () \<and>
   rs_Status (snd (submit any_texts (\<lambda>_. Inr (build unix_timestamppb)) unicode_ascii
     unix_timestamppb int_apd sample_ledger \<lparr>rq_Method = ''POST'', rq_ContentType = protobufMediaType,
       rq_Body = replicate (2 ^ 20 + 1) (CHR ''w''), rq_BodyFails = False\<rparr> (NewStore, Instant 7))) = 413"
proof -
  have check: "Check (\<lambda>_. Inr (build unix_timestamppb)) unicode_ascii unix_timestamppb int_apd wire = Inr ()" for wire
    using example_admissible unfolding Check_iff by auto
  have ledger: "lg_store sample_ledger = memory_store" "ck_Now (lg_clock sample_ledger) (Instant 7) = (Inr (Instant 7), Instant 7)"
    "Instant 7 \<noteq> zeroInstant" "NewStore [] = None"
    "\<forall>n st. NewStore n = Some st \<and> st_facts st \<noteq> [] \<longrightarrow> fact_knowledge (last (st_facts st)) < Instant 7"
    by (simp_all add: sample_ledger_def Fixed_Now_def zeroInstant_def NewStore_def)
  note agrees = conformance_kit_agrees [OF ledger prod.collapse [symmetric]]
  have "length ''wire'' \<le> (2 ^ 20 :: nat)" "2 ^ 20 < length (replicate (2 ^ 20 + 1) (CHR ''w''))" by (simp_all only: length_replicate) simp_all
  with check agrees show ?thesis by blast
qed

end
