(* ===== verification/Layering.thy ===== *)
theory Layering
  imports Go_Strings
begin

text \<open>
  \<^verbatim>\<open>src/libs/analysis/layering\<close> and \<^verbatim>\<open>src/libs/analysis/internal/scope\<close>: the analyser that keeps
  the repository's modules and layers apart, and the rule that says which packages are pure. A package
  is given to the analyser as its path and its files, a file as its name and the import literals of its
  source, quotes included. A diagnostic is the path and why it is refused; the wording is left out. The
  scope's pattern is shared state the \<^verbatim>\<open>-domain\<close> flag replaces: a compiled expression is what it matches, compiling the
  flag's text is a parameter, and the default expression is written out with the matcher of its constructs.
\<close>

section \<open>Scope\<close>

text \<open>The constructs of \<^verbatim>\<open>regexp\<close> the default pattern is made of; \<open>ends re s i\<close> are the positions at which a
  match that starts at \<open>i\<close> may end.\<close>

datatype regexp = BeginText | EndText | Literal string | Concat regexp regexp | Alternate regexp regexp

fun ends :: "regexp \<Rightarrow> string \<Rightarrow> nat \<Rightarrow> nat list" where
  "ends BeginText s i = (if i = 0 then [i] else [])"
| "ends EndText s i = (if i = length s then [i] else [])"
| "ends (Literal w) s i = (if HasPrefix (drop i s) w then [i + length w] else [])"
| "ends (Concat a b) s i = concat (map (ends b s) (ends a s i))"
| "ends (Alternate a b) s i = ends a s i @ ends b s i"

definition MatchString :: "regexp \<Rightarrow> string \<Rightarrow> bool" where
  "MatchString re s = list_ex (\<lambda>i. ends re s i \<noteq> []) [0..<length s + 1]"

definition DefaultPattern :: regexp where
  "DefaultPattern = Concat (Alternate BeginText (Literal ''/''))
     (Concat (Alternate (Literal ''domain'') (Literal ''kernel'')) (Alternate (Literal ''/'') EndText))"

text \<open>The function of the \<^verbatim>\<open>-domain\<close> flag: a text that does not compile leaves the pattern as it was.\<close>

definition RegisterFlag ::
  "(string \<Rightarrow> (string \<Rightarrow> bool) result) \<Rightarrow> (string \<Rightarrow> bool) \<Rightarrow> string \<Rightarrow> (string \<Rightarrow> bool) \<times> unit result" where
  "RegisterFlag compile pattern s =
     (case compile s of Inl err \<Rightarrow> (pattern, Inl err) | Inr re \<Rightarrow> (re, Inr ()))"

definition IsDomain :: "(string \<Rightarrow> bool) \<Rightarrow> string \<Rightarrow> bool" where
  "IsDomain pattern pkgPath = (if HasSuffix pkgPath ''.test'' then False else pattern pkgPath)"

text \<open>A comment group is its position and the texts of its comments; the last argument is where the
  package clause is.\<close>

fun IsGenerated :: "(int \<times> string list) list \<Rightarrow> int \<Rightarrow> bool" where
  "IsGenerated [] package = False"
| "IsGenerated ((pos, texts) # groups) package =
     (if pos > package then False
      else if list_ex (\<lambda>text. let line = TrimSpace (TrimPrefix text ''//'') in
          HasPrefix line ''Code generated '' \<and> HasSuffix line '' DO NOT EDIT.'') texts
      then True
      else IsGenerated groups package)"

definition IsTestFile :: "string \<Rightarrow> bool" where
  "IsTestFile filename = HasSuffix filename ''_test.go''"

section \<open>Layers\<close>

definition DefaultPrefix :: string where
  "DefaultPrefix = ''github.com/FabioCaffarello/fdos/''"

record location =
  lo_context :: string
  lo_layer :: string
  lo_kernel :: bool

definition classify :: "string \<Rightarrow> string \<Rightarrow> location option" where
  "classify prefix pkgPath =
     (if \<not> HasPrefix pkgPath prefix then None
      else let parts = Split (TrimPrefix pkgPath prefix) (CHR ''/'') in
        if length parts < 2 \<or> parts ! 0 \<noteq> ''libs'' then None
        else if parts ! 1 = ''kernel'' then Some \<lparr>lo_context = [], lo_layer = [], lo_kernel = True\<rparr>
        else if length parts < 3 then None
        else if parts ! 2 = ''domain'' \<or> parts ! 2 = ''app'' \<or> parts ! 2 = ''adapters''
        then Some \<lparr>lo_context = parts ! 1, lo_layer = parts ! 2, lo_kernel = False\<rparr>
        else None)"

text \<open>Why an import is refused.\<close>

datatype violation =
  Kernel_depends
| Crosses_context string string
| Layer_inversion string string

definition rank :: "string \<Rightarrow> nat" where
  "rank layer = (if layer = ''app'' then 1 else if layer = ''adapters'' then 2 else 0)"

definition mayImport :: "location \<Rightarrow> location \<Rightarrow> violation option" where
  "mayImport from to =
     (if lo_kernel to then None
      else if lo_kernel from then Some Kernel_depends
      else if lo_context from \<noteq> lo_context to then Some (Crosses_context (lo_context from) (lo_context to))
      else if rank (lo_layer to) > rank (lo_layer from) then Some (Layer_inversion (lo_layer from) (lo_layer to))
      else None)"

record source_file =
  sf_Filename :: string
  sf_Imports :: "string list"

text \<open>\<^verbatim>\<open>strings.Trim\<close> of the double quote.\<close>

definition Trim_quotes :: "string \<Rightarrow> string" where
  "Trim_quotes s = rev (dropWhile (\<lambda>c. c = CHR 0x22) (rev (dropWhile (\<lambda>c. c = CHR 0x22) s)))"

definition check_import :: "string \<Rightarrow> location \<Rightarrow> string \<Rightarrow> (string \<times> violation) list" where
  "check_import prefix from spec =
     (let path = Trim_quotes spec in
      case classify prefix path of
        None \<Rightarrow> []
      | Some to \<Rightarrow> (case mayImport from to of None \<Rightarrow> [] | Some v \<Rightarrow> [(path, v)]))"

definition layering_run :: "string \<Rightarrow> string \<Rightarrow> source_file list \<Rightarrow> (string \<times> violation) list" where
  "layering_run prefix pkgPath files =
     (case classify prefix pkgPath of
        None \<Rightarrow> []
      | Some from \<Rightarrow>
        concat (map (\<lambda>file. if HasSuffix (sf_Filename file) ''_test.go'' then []
                            else concat (map (check_import prefix from) (sf_Imports file))) files))"

section \<open>The default pattern matches whole segments\<close>

lemma HasPrefix_iff: "HasPrefix s p \<longleftrightarrow> (\<exists>t. s = p @ t)"
  by (induction s p rule: HasPrefix.induct) auto

text \<open>Between two separators: a segment of \<open>s\<close> is what stands between two neighbouring separators of \<open>s\<close> with one
  added at either side.\<close>

lemma first_separator: "c \<notin> set a \<Longrightarrow> c \<notin> set b \<Longrightarrow> a @ c # x = b @ c # y \<longleftrightarrow> a = b \<and> x = y"
  by (auto simp: append_eq_append_conv2 Cons_eq_append_conv append_eq_Cons_conv)

lemma next_separator:
  assumes "c \<notin> set a" "c \<notin> set seg"
  shows "(\<exists>p q. c # a @ c # t = p @ c # seg @ c # q) \<longleftrightarrow> seg = a \<or> (\<exists>p q. c # t = p @ c # seg @ c # q)"
proof -
  have "(\<exists>p q. c # a @ c # t = p @ c # seg @ c # q) \<longleftrightarrow>
      (\<exists>q. a @ c # t = seg @ c # q) \<or> (\<exists>p q. a @ c # t = p @ c # seg @ c # q)"
    unfolding Cons_eq_append_conv by blast
  moreover have "(\<exists>q. a @ c # t = seg @ c # q) \<longleftrightarrow> seg = a" using first_separator [OF assms] by auto
  moreover have "(\<exists>p q. a @ c # t = p @ c # seg @ c # q) \<longleftrightarrow> (\<exists>p q. c # t = p @ c # seg @ c # q)"
  proof
    assume "\<exists>p q. a @ c # t = p @ c # seg @ c # q"
    then obtain p q us where "a = p @ us \<and> us @ c # t = c # seg @ c # q \<or> a @ us = p \<and> c # t = us @ c # seg @ c # q"
      by (auto simp: append_eq_append_conv2)
    then show "\<exists>p q. c # t = p @ c # seg @ c # q" using assms(1) by (cases us) fastforce+
  qed (metis append.assoc)
  ultimately show ?thesis by simp
qed

lemma Split_segment:
  assumes "c \<notin> set seg"
  shows "seg \<in> set (Split s c) \<longleftrightarrow> (\<exists>p q. c # s @ [c] = p @ c # seg @ c # q)"
proof (induction "length s" arbitrary: s rule: less_induct)
  case less
  show ?case
  proof (cases "c \<in> set s")
    case False
    then show ?thesis using next_separator [OF False assms, of "[]"] by (auto simp: Split_no_sep Cons_eq_append_conv)
  next
    case True
    then obtain a b where s: "s = a @ c # b" "c \<notin> set a" by (metis split_list_first)
    then show ?thesis using less [of b] next_separator [OF s(2) assms, of "b @ [c]"] by (auto simp: Split_sep)
  qed
qed

lemma segment_matches:
  "(\<exists>i \<le> length s. \<exists>j \<in> set (ends (Alternate BeginText (Literal ''/'')) s i). HasPrefix (drop j s) seg \<and>
      ends (Alternate (Literal ''/'') EndText) s (j + length seg) \<noteq> []) \<longleftrightarrow>
   (\<exists>p q. CHR ''/'' # s @ ''/'' = p @ CHR ''/'' # seg @ CHR ''/'' # q)" (is "?l \<longleftrightarrow> ?r")
proof
  assume ?l
  then obtain i j where i: "i \<le> length s" "j = i \<and> i = 0 \<or> j = i + 1 \<and> HasPrefix (drop i s) ''/''" "HasPrefix (drop j s) seg"
      "HasPrefix (drop (j + length seg) s) ''/'' \<or> j + length seg = length s"
    by (auto split: if_splits)
  obtain post where post: "drop j s = seg @ post" using i(3) by (auto simp: HasPrefix_iff)
  then have "drop (j + length seg) s = post" by (metis add.commute append_eq_conv_conj drop_drop)
  then have "post = [] \<or> (\<exists>r. post = CHR ''/'' # r)" using i(4) by (auto simp: HasPrefix_iff)
  then obtain q where q: "post @ ''/'' = CHR ''/'' # q" by auto
  have "\<exists>p. CHR ''/'' # s = p @ CHR ''/'' # drop j s"
  proof (cases "j = 0")
    case False
    then have "drop i s = CHR ''/'' # drop j s" using i(2) by (auto simp: HasPrefix_iff) (metis drop_Suc list.sel(3) tl_drop)
    then show ?thesis by (metis append_Cons append_take_drop_id)
  qed simp
  then obtain p where "CHR ''/'' # s = p @ CHR ''/'' # drop j s" by blast
  then have "CHR ''/'' # s @ ''/'' = p @ CHR ''/'' # seg @ CHR ''/'' # q"
    using post q by (metis append.assoc append_Cons)
  then show ?r by blast
next
  assume ?r
  then obtain p q where pq: "CHR ''/'' # s @ ''/'' = p @ CHR ''/'' # seg @ CHR ''/'' # q" by blast
  define post where "post = butlast (CHR ''/'' # q)"
  have "CHR ''/'' # s = p @ CHR ''/'' # seg @ post"
    using arg_cong [OF pq, of butlast] by (simp add: butlast_append post_def split: if_splits)
  moreover have "post = [] \<or> (\<exists>r. post = CHR ''/'' # r)" by (simp add: post_def)
  ultimately consider "s = seg @ post" | p' where "s = p' @ CHR ''/'' # seg @ post" by (cases p) auto
  then show ?l
  proof cases
    case 1
    then show ?thesis using \<open>post = [] \<or> _\<close> by (intro exI [of _ 0]) (auto simp: HasPrefix_iff)
  next
    case 2
    then show ?thesis using \<open>post = [] \<or> _\<close> by (intro exI [of _ "length p'"]) (auto simp: HasPrefix_iff)
  qed
qed

lemma ends_Concat: "ends (Concat a b) s i \<noteq> [] \<longleftrightarrow> (\<exists>j \<in> set (ends a s i). ends b s j \<noteq> [])"
  by auto

lemma ends_Literals:
  "(\<exists>k \<in> set (ends (Alternate (Literal u) (Literal v)) s j). P k) \<longleftrightarrow> (\<exists>seg \<in> {u, v}. HasPrefix (drop j s) seg \<and> P (j + length seg))"
  by auto

lemma default_segments:
  "MatchString DefaultPattern s \<longleftrightarrow> (\<exists>seg \<in> set (Split s (CHR ''/'')). seg = ''domain'' \<or> seg = ''kernel'')"
proof -
  have range: "(\<exists>i \<in> set [0..<length s + 1]. P i) \<longleftrightarrow> (\<exists>i \<le> length s. P i)" for P by (simp add: Bex_def less_Suc_eq_le del: upt_Suc)
  have "MatchString DefaultPattern s \<longleftrightarrow> (\<exists>seg \<in> {''domain'', ''kernel''}. \<exists>i \<le> length s.
      \<exists>j \<in> set (ends (Alternate BeginText (Literal ''/'')) s i). HasPrefix (drop j s) seg \<and>
      ends (Alternate (Literal ''/'') EndText) s (j + length seg) \<noteq> [])"
    unfolding MatchString_def DefaultPattern_def list_ex_iff ends_Concat ends_Literals range by blast
  also have "\<dots> \<longleftrightarrow> (\<exists>seg \<in> {''domain'', ''kernel''}. seg \<in> set (Split s (CHR ''/'')))"
    unfolding segment_matches by (intro bex_cong refl Split_segment [symmetric]) auto
  finally show ?thesis by blast
qed

section \<open>What a clean report means\<close>

text \<open>Package \<open>p\<close> imports package \<open>q\<close> in a file the analyser reads, and the topology places both.\<close>

definition imports_to :: "string \<Rightarrow> (string \<Rightarrow> source_file list) \<Rightarrow> string \<Rightarrow> string \<Rightarrow> bool" where
  "imports_to prefix files p q \<longleftrightarrow> classify prefix p \<noteq> None \<and> classify prefix q \<noteq> None \<and>
     (\<exists>file \<in> set (files p). \<not> HasSuffix (sf_Filename file) ''_test.go'' \<and>
        (\<exists>spec \<in> set (sf_Imports file). Trim_quotes spec = q))"

lemma mayImport_refl: "mayImport a a = None"
  by (simp add: mayImport_def)

lemma mayImport_trans: "mayImport a b = None \<Longrightarrow> mayImport b c = None \<Longrightarrow> mayImport a c = None"
  by (auto simp: mayImport_def split: if_splits)

lemma check_import_reports:
  "(path, v) \<in> set (check_import prefix from spec) \<longleftrightarrow>
     path = Trim_quotes spec \<and> (\<exists>to. classify prefix path = Some to \<and> mayImport from to = Some v)"
  by (cases "classify prefix (Trim_quotes spec)"; cases "mayImport from (the (classify prefix (Trim_quotes spec)))")
     (auto simp: check_import_def Let_def)

lemma layering_run_reports:
  assumes "classify prefix p = Some from"
  shows "(path, v) \<in> set (layering_run prefix p files) \<longleftrightarrow>
    (\<exists>file \<in> set files. \<not> HasSuffix (sf_Filename file) ''_test.go'' \<and>
       (\<exists>spec \<in> set (sf_Imports file). path = Trim_quotes spec \<and>
          (\<exists>to. classify prefix path = Some to \<and> mayImport from to = Some v)))"
  by (simp add: layering_run_def assms check_import_reports) blast

lemma clean_edge:
  assumes "imports_to prefix files p q" "layering_run prefix p (files p) = []"
    and "classify prefix p = Some a" "classify prefix q = Some b"
  shows "mayImport a b = None"
proof (rule ccontr)
  assume "mayImport a b \<noteq> None"
  then obtain v where "mayImport a b = Some v" by blast
  then have "(q, v) \<in> set (layering_run prefix p (files p))"
    unfolding layering_run_reports [OF assms(3)] using assms(1,4) by (auto simp: imports_to_def)
  with assms(2) show False by simp
qed

section \<open>Properties\<close>

lemma classify_layer:
  "classify prefix p = Some l \<Longrightarrow> \<not> lo_kernel l \<Longrightarrow> lo_layer l = ''domain'' \<or> lo_layer l = ''app'' \<or> lo_layer l = ''adapters''"
  by (auto simp: classify_def Let_def split: if_splits)

lemma clean_chain:
  assumes "\<forall>p. layering_run prefix p (files p) = []" "(imports_to prefix files)\<^sup>*\<^sup>* p q"
    and "classify prefix p = Some a" "classify prefix q = Some b"
  shows "mayImport a b = None"
  using assms(2,4)
proof (induction arbitrary: b rule: rtranclp_induct)
  case base
  then show ?case using assms(3) by (simp add: mayImport_refl)
next
  case (step y z)
  then obtain c where c: "classify prefix y = Some c" by (auto simp: imports_to_def)
  have "mayImport c b = None" using clean_edge [OF step.hyps(2) _ c step.prems] assms(1) by simp
  with step.IH [OF c] show ?case by (rule mayImport_trans)
qed

text \<open>C34: a clean report rules out indirect dependencies between placed packages. When the analyser reports
  nothing on any package, take any chain of imports, however long, each link an import the analyser
  reads (in a file that is not a test, written as an interpreted string) between two packages the
  topology places. Then the last package is in the kernel, or both ends belong to the same bounded
  context, outside the kernel, and the layers point inward: from \<^verbatim>\<open>domain\<close> only \<^verbatim>\<open>domain\<close> is reached,
  from \<^verbatim>\<open>app\<close> only \<^verbatim>\<open>domain\<close> and \<^verbatim>\<open>app\<close>. Packages outside the topology are unconstrained by
  design, so a chain through one is not a chain of this relation.\<close>

theorem imports_point_inward:
  assumes "\<forall>p. layering_run prefix p (files p) = []" "(imports_to prefix files)\<^sup>*\<^sup>* p q"
    and "classify prefix p = Some a" "classify prefix q = Some b"
  shows "lo_kernel b \<or> \<not> lo_kernel a \<and> lo_context b = lo_context a \<and>
    (lo_layer a = ''domain'' \<and> lo_layer b = ''domain'' \<or>
     lo_layer a = ''app'' \<and> (lo_layer b = ''domain'' \<or> lo_layer b = ''app'') \<or>
     lo_layer a = ''adapters'' \<and> (lo_layer b = ''domain'' \<or> lo_layer b = ''app'' \<or> lo_layer b = ''adapters''))"
  using clean_chain [OF assms] classify_layer [OF assms(3)] classify_layer [OF assms(4)]
  by (auto simp: mayImport_def rank_def split: if_splits)

text \<open>An import written as a raw string literal, which the language allows, keeps its back quotes and is
  never placed in the topology: whatever it names, the analyser reports nothing.\<close>

theorem raw_import_missed:
  assumes "prefix \<noteq> []" "hd prefix \<noteq> CHR 0x60"
  shows "check_import prefix from (CHR 0x60 # path @ [CHR 0x60]) = []"
proof -
  have "Trim_quotes (CHR 0x60 # path @ [CHR 0x60]) = CHR 0x60 # path @ [CHR 0x60]" by (simp add: Trim_quotes_def)
  then show ?thesis using assms by (cases prefix) (auto simp: check_import_def classify_def)
qed

section \<open>Witnesses\<close>

definition sample_files :: "string \<Rightarrow> source_file list" where
  "sample_files p =
     (if p = ''r/libs/ledger/app''
      then [\<lparr>sf_Filename = ''usecases.go'', sf_Imports = [[CHR 0x22] @ ''r/libs/ledger/domain'' @ [CHR 0x22]]\<rparr>]
      else if p = ''r/libs/ledger/domain''
      then [\<lparr>sf_Filename = ''fact.go'', sf_Imports = [[CHR 0x22] @ ''r/libs/kernel/money'' @ [CHR 0x22]]\<rparr>]
      else [])"

lemma sample_layers:
  "classify ''r/'' ''r/libs/ledger/app'' = Some \<lparr>lo_context = ''ledger'', lo_layer = ''app'', lo_kernel = False\<rparr>"
  "classify ''r/'' ''r/libs/ledger/domain'' = Some \<lparr>lo_context = ''ledger'', lo_layer = ''domain'', lo_kernel = False\<rparr>"
  "classify ''r/'' ''r/libs/kernel/money'' = Some \<lparr>lo_context = [], lo_layer = [], lo_kernel = True\<rparr>"
  by (simp_all add: classify_def TrimPrefix_def Split_def Let_def)

lemma sample_clean: "\<forall>p. layering_run ''r/'' p (sample_files p) = []"
  by (simp add: sample_files_def layering_run_def check_import_def Let_def Trim_quotes_def sample_layers mayImport_def rank_def
      HasSuffix_def split: option.split)

lemma sample_import: "imports_to ''r/'' sample_files ''r/libs/ledger/app'' ''r/libs/ledger/domain''"
  by (simp add: imports_to_def sample_layers sample_files_def Trim_quotes_def HasSuffix_def)

text \<open>In the sample the application layer reaches the domain, so no chain of imports leads from the
  domain back to it.\<close>

theorem imports_point_inward_witness:
  "(imports_to ''r/'' sample_files)\<^sup>*\<^sup>* ''r/libs/ledger/app'' ''r/libs/ledger/domain'' \<and>
   \<not> (imports_to ''r/'' sample_files)\<^sup>*\<^sup>* ''r/libs/ledger/domain'' ''r/libs/ledger/app''"
  using sample_import imports_point_inward [OF sample_clean _ sample_layers(2) sample_layers(1)] by auto

end
