(* ===== verification/Purity.thy ===== *)
theory Purity
  imports Layering
begin

unbundle bit_operations_syntax

text \<open>
  \<^verbatim>\<open>src/libs/analysis/impurity\<close>, \<^verbatim>\<open>nofloat\<close> and \<^verbatim>\<open>nondet\<close>: the analysers that keep domain packages a pure
  functional core; and \<^verbatim>\<open>cmd/fdoslint\<close>, which runs them with \<^verbatim>\<open>layering\<close>. They walk the syntax tree of each file; a tree is given here with what the type checker
  knows of it, an identifier with the object it uses (\<^verbatim>\<open>TypesInfo.Uses\<close>) and the operand of a range
  statement with its type (\<^verbatim>\<open>TypesInfo.TypeOf\<close>). The nodes no analyser looks at are \<open>Other\<close> nodes with
  their children. A diagnostic says what is refused; positions and wording are left out.
\<close>

section \<open>Typed syntax trees\<close>

datatype token = FLOAT | IMAG | ARROW | OtherToken

definition IsFloat :: u32 where "IsFloat = 8"
definition IsComplex :: u32 where "IsComplex = 16"

datatype gotype = Basic u32 string | MapType | Named gotype | OtherType

fun Underlying :: "gotype \<Rightarrow> gotype" where
  "Underlying (Named t) = t"
| "Underlying t = t"

text \<open>What an identifier stands for: its package, when it has one, and its name.\<close>

datatype object = TypeName "string option" string gotype | Func "string option" string | OtherObject

datatype ast =
  Ident string "object option"
| SelectorExpr ast string "object option"
| CallExpr ast "ast list"
| BasicLit token string
| UnaryExpr token ast
| ChanType ast
| StructType "(string option \<times> ast) list option"
| GoStmt ast
| SelectStmt "ast list"
| SendStmt ast ast
| AssignStmt "ast list" "ast list"
| RangeStmt "ast option" "ast option" ast "gotype option" "ast list option"
| Other "ast list"

fun children :: "ast \<Rightarrow> ast list" where
  "children (Ident _ _) = []"
| "children (SelectorExpr x sel obj) = [x, Ident sel obj]"
| "children (CallExpr f args) = f # args"
| "children (BasicLit _ _) = []"
| "children (UnaryExpr _ x) = [x]"
| "children (ChanType t) = [t]"
| "children (StructType fields') = (case fields' of None \<Rightarrow> [] | Some fs \<Rightarrow> map snd fs)"
| "children (GoStmt call) = [call]"
| "children (SelectStmt body) = body"
| "children (SendStmt c v) = [c, v]"
| "children (AssignStmt lhs rhs) = lhs @ rhs"
| "children (RangeStmt key val x t body) =
     (case key of None \<Rightarrow> [] | Some k \<Rightarrow> [k]) @ (case val of None \<Rightarrow> [] | Some v \<Rightarrow> [v]) @ [x] @
     (case body of None \<Rightarrow> [] | Some ss \<Rightarrow> ss)"
| "children (Other cs) = cs"

text \<open>\<^verbatim>\<open>ast.Inspect\<close> with a function that always answers true: every node, a parent before its children.\<close>

fun inspect :: "ast \<Rightarrow> ast list" where
  "inspect (Ident name obj) = [Ident name obj]"
| "inspect (SelectorExpr x sel obj) = SelectorExpr x sel obj # inspect x @ [Ident sel obj]"
| "inspect (CallExpr f args) = CallExpr f args # inspect f @ concat (map inspect args)"
| "inspect (BasicLit kind v) = [BasicLit kind v]"
| "inspect (UnaryExpr op x) = UnaryExpr op x # inspect x"
| "inspect (ChanType t) = ChanType t # inspect t"
| "inspect (StructType fields') = StructType fields' #
     (case fields' of None \<Rightarrow> [] | Some fs \<Rightarrow> concat (map (\<lambda>f. inspect (snd f)) fs))"
| "inspect (GoStmt call) = GoStmt call # inspect call"
| "inspect (SelectStmt body) = SelectStmt body # concat (map inspect body)"
| "inspect (SendStmt c v) = SendStmt c v # inspect c @ inspect v"
| "inspect (AssignStmt lhs rhs) = AssignStmt lhs rhs # concat (map inspect lhs) @ concat (map inspect rhs)"
| "inspect (RangeStmt key val x t body) = RangeStmt key val x t body #
     (case key of None \<Rightarrow> [] | Some k \<Rightarrow> inspect k) @ (case val of None \<Rightarrow> [] | Some v \<Rightarrow> inspect v) @ inspect x @
     (case body of None \<Rightarrow> [] | Some ss \<Rightarrow> concat (map inspect ss))"
| "inspect (Other cs) = Other cs # concat (map inspect cs)"

record go_file =
  gf_Filename :: string
  gf_Comments :: "(int \<times> string list) list"
  gf_Package :: int
  gf_Imports :: "string list"
  gf_Decls :: "ast list"

definition gf_nodes :: "go_file \<Rightarrow> ast list" where
  "gf_nodes file = concat (map inspect (gf_Decls file))"

definition skipped :: "go_file \<Rightarrow> bool" where
  "skipped file \<longleftrightarrow> IsTestFile (gf_Filename file) \<or> IsGenerated (gf_Comments file) (gf_Package file)"

section \<open>Floating point\<close>

datatype float_report = Float_literal string | Imaginary_literal string | Float_type string

fun nofloat_node :: "ast \<Rightarrow> float_report list" where
  "nofloat_node (BasicLit kind v) =
     (case kind of FLOAT \<Rightarrow> [Float_literal v] | IMAG \<Rightarrow> [Imaginary_literal v] | _ \<Rightarrow> [])"
| "nofloat_node (Ident name (Some (TypeName pkg n (Basic info tname)))) =
     (if info AND (IsFloat OR IsComplex) \<noteq> 0 then [Float_type tname] else [])"
| "nofloat_node _ = []"

definition nofloat_run :: "(string \<Rightarrow> bool) \<Rightarrow> string \<Rightarrow> go_file list \<Rightarrow> float_report list" where
  "nofloat_run pattern pkg files =
     (if \<not> IsDomain pattern pkg then []
      else concat (map (\<lambda>file. if skipped file then [] else concat (map nofloat_node (gf_nodes file))) files))"

section \<open>Impurity\<close>

definition forbiddenImports :: "string list" where
  "forbiddenImports = [''sync'', ''sync/atomic'', ''context'', ''encoding/json'', ''encoding/xml'', ''encoding/gob'',
     ''net'', ''net/http'', ''database/sql'', ''os'', ''io'']"

datatype impurity_report =
  Forbidden_import string | Goroutine | Select | Channel_send | Channel_type | Channel_receive | Serialisation_tag string | Context_type

definition impurity_checkImports :: "go_file \<Rightarrow> impurity_report list" where
  "impurity_checkImports file =
     concat (map (\<lambda>spec. let path = Trim_quotes spec in if path \<in> set forbiddenImports then [Forbidden_import path] else [])
       (gf_Imports file))"

fun strings_Contains :: "string \<Rightarrow> string \<Rightarrow> bool" where
  "strings_Contains [] sub = HasPrefix [] sub"
| "strings_Contains (c # s) sub = (HasPrefix (c # s) sub \<or> strings_Contains s sub)"

definition tag_keys :: "string list" where
  "tag_keys = [''json:'', ''xml:'', ''yaml:'', ''db:'', ''bson:'', ''protobuf:'']"

definition TrimSuffix :: "string \<Rightarrow> string \<Rightarrow> string" where
  "TrimSuffix s p = (if HasSuffix s p then take (length s - length p) s else s)"

text \<open>The first key found ends the loop over the keys.\<close>

definition check_tag :: "string \<Rightarrow> impurity_report list" where
  "check_tag tag = (case find (strings_Contains tag) tag_keys of
     None \<Rightarrow> [] | Some key \<Rightarrow> [Serialisation_tag (TrimSuffix key '':'')])"

definition checkTags :: "(string option \<times> ast) list option \<Rightarrow> impurity_report list" where
  "checkTags fields' = (case fields' of
     None \<Rightarrow> []
   | Some fs \<Rightarrow> concat (map (\<lambda>(tag, _). case tag of None \<Rightarrow> [] | Some t \<Rightarrow> check_tag t) fs))"

fun checkContextType :: "object option \<Rightarrow> impurity_report list" where
  "checkContextType (Some (TypeName (Some pkg) name t)) =
     (if pkg = ''context'' \<and> name = ''Context'' then [Context_type] else [])"
| "checkContextType _ = []"

fun impurity_node :: "ast \<Rightarrow> impurity_report list" where
  "impurity_node (GoStmt _) = [Goroutine]"
| "impurity_node (SelectStmt _) = [Select]"
| "impurity_node (SendStmt _ _) = [Channel_send]"
| "impurity_node (ChanType _) = [Channel_type]"
| "impurity_node (UnaryExpr op _) = (if op = ARROW then [Channel_receive] else [])"
| "impurity_node (StructType fields') = checkTags fields'"
| "impurity_node (Ident _ obj) = checkContextType obj"
| "impurity_node _ = []"

definition impurity_run :: "(string \<Rightarrow> bool) \<Rightarrow> string \<Rightarrow> go_file list \<Rightarrow> impurity_report list" where
  "impurity_run pattern pkg files =
     (if \<not> IsDomain pattern pkg then []
      else concat (map (\<lambda>file. if skipped file then []
        else impurity_checkImports file @ concat (map impurity_node (gf_nodes file))) files))"

section \<open>Non-determinism\<close>

definition forbiddenPackages :: "string list" where
  "forbiddenPackages = [''math/rand'', ''math/rand/v2'', ''crypto/rand'']"

definition forbiddenFuncs :: "(string \<times> string) list" where
  "forbiddenFuncs = [(''time'', ''Now''), (''time'', ''Since''), (''time'', ''Until''),
     (''os'', ''Getenv''), (''os'', ''LookupEnv''), (''os'', ''Environ'')]"

datatype nondet_report = Forbidden_call string string | Map_range

definition checkCall :: "ast \<Rightarrow> nondet_report list" where
  "checkCall fn = (case fn of
     SelectorExpr _ _ (Some (Func (Some pkgPath) name)) \<Rightarrow>
       if pkgPath \<in> set forbiddenPackages \<or> (pkgPath, name) \<in> set forbiddenFuncs then [Forbidden_call pkgPath name] else []
   | _ \<Rightarrow> [])"

definition isKeyCollectionIdiom :: "ast option \<Rightarrow> ast option \<Rightarrow> ast list option \<Rightarrow> bool" where
  "isKeyCollectionIdiom key val body =
     (case (key, val) of
        (Some (Ident k _), None) \<Rightarrow>
          (case body of
             Some [AssignStmt _ [CallExpr (Ident fn _) args]] \<Rightarrow>
               length args \<ge> 2 \<and> fn = ''append'' \<and> (case last args of Ident l _ \<Rightarrow> l = k | _ \<Rightarrow> False)
           | _ \<Rightarrow> False)
      | _ \<Rightarrow> False)"

definition checkRange :: "ast option \<Rightarrow> ast option \<Rightarrow> gotype option \<Rightarrow> ast list option \<Rightarrow> nondet_report list" where
  "checkRange key val t body =
     (case t of
        None \<Rightarrow> []
      | Some t \<Rightarrow>
        if Underlying t \<noteq> MapType then []
        else if key = None \<and> val = None then []
        else if isKeyCollectionIdiom key val body then []
        else [Map_range])"

fun nondet_node :: "ast \<Rightarrow> nondet_report list" where
  "nondet_node (CallExpr fn _) = checkCall fn"
| "nondet_node (RangeStmt key val x t body) = checkRange key val t body"
| "nondet_node _ = []"

definition nondet_run :: "(string \<Rightarrow> bool) \<Rightarrow> string \<Rightarrow> go_file list \<Rightarrow> nondet_report list" where
  "nondet_run pattern pkg files =
     (if \<not> IsDomain pattern pkg then []
      else concat (map (\<lambda>file. if skipped file then [] else concat (map nondet_node (gf_nodes file))) files))"

section \<open>The walk reaches every node\<close>

definition child :: "ast \<Rightarrow> ast \<Rightarrow> bool" where
  "child n m \<longleftrightarrow> m \<in> set (children n)"

lemma inspect_unfold: "inspect n = n # concat (map inspect (children n))"
  by (cases n) (auto split: option.splits simp: comp_def)

lemma child_reaches: "child\<^sup>*\<^sup>* c m \<Longrightarrow> c \<in> set (children n) \<Longrightarrow> child\<^sup>*\<^sup>* n m"
  by (simp add: child_def converse_rtranclp_into_rtranclp)

lemma reached_by_children:
  assumes "\<And>c. c \<in> set (children n) \<Longrightarrow> m \<in> set (inspect c) \<Longrightarrow> child\<^sup>*\<^sup>* c m" "m \<in> set (inspect n)"
  shows "child\<^sup>*\<^sup>* n m"
proof -
  from assms(2) consider "m = n" | c where "c \<in> set (children n)" "m \<in> set (inspect c)"
    by (subst (asm) inspect_unfold) auto
  then show ?thesis by cases (auto intro: child_reaches [OF assms(1)])
qed

lemma inspect_reached: "m \<in> set (inspect n) \<Longrightarrow> child\<^sup>*\<^sup>* n m"
proof (induction n rule: inspect.induct)
  case (12 key val x t body)
  have "child\<^sup>*\<^sup>* c m" if "body = Some ss" "c \<in> set ss" "m \<in> set (inspect c)" for ss c
    using "12.IH"(4) that by blast
  with 12 show ?case by (intro reached_by_children [OF _ "12.prems"]) (force split: option.splits)
next
  case (7 fields')
  have "child\<^sup>*\<^sup>* (snd f) m" if "fields' = Some fs" "f \<in> set fs" "m \<in> set (inspect (snd f))" for fs f
    using "7.IH" that by blast
  then show ?case by (intro reached_by_children [OF _ "7.prems"]) (force split: option.splits)
qed (rule reached_by_children, auto)+

lemma inspect_reaches: "child\<^sup>*\<^sup>* n m \<Longrightarrow> m \<in> set (inspect n)"
proof (induction rule: converse_rtranclp_induct)
  case base
  then show ?case by (subst inspect_unfold) simp
next
  case (step n c)
  then show ?case by (subst inspect_unfold) (auto simp: child_def)
qed

lemma set_inspect: "set (inspect n) = {m. child\<^sup>*\<^sup>* n m}"
  using inspect_reached inspect_reaches by blast

section \<open>What the analysers accept\<close>

text \<open>A pure node, in the words of the packages' documentation.\<close>

fun pure_node :: "ast \<Rightarrow> bool" where
  "pure_node (GoStmt _) \<longleftrightarrow> False"
| "pure_node (SelectStmt _) \<longleftrightarrow> False"
| "pure_node (SendStmt _ _) \<longleftrightarrow> False"
| "pure_node (ChanType _) \<longleftrightarrow> False"
| "pure_node (UnaryExpr op _) \<longleftrightarrow> op \<noteq> ARROW"
| "pure_node (BasicLit kind _) \<longleftrightarrow> kind \<noteq> FLOAT \<and> kind \<noteq> IMAG"
| "pure_node (StructType fields') \<longleftrightarrow>
     (\<forall>fs tag x. fields' = Some fs \<and> (Some tag, x) \<in> set fs \<longrightarrow> (\<forall>key \<in> set tag_keys. \<not> strings_Contains tag key))"
| "pure_node (Ident _ obj) \<longleftrightarrow>
     (\<forall>pkg name t. obj = Some (TypeName pkg name t) \<longrightarrow>
        \<not> (pkg = Some ''context'' \<and> name = ''Context'') \<and>
        (\<forall>info tname. t = Basic info tname \<longrightarrow> info AND (IsFloat OR IsComplex) = 0))"
| "pure_node (CallExpr fn _) \<longleftrightarrow>
     (\<forall>x sel pkg name. fn = SelectorExpr x sel (Some (Func (Some pkg) name)) \<longrightarrow>
        pkg \<notin> set forbiddenPackages \<and> (pkg, name) \<notin> set forbiddenFuncs)"
| "pure_node (RangeStmt key val x t body) \<longleftrightarrow>
     (\<forall>u. t = Some u \<and> Underlying u = MapType \<longrightarrow> key = None \<and> val = None \<or> isKeyCollectionIdiom key val body)"
| "pure_node _ \<longleftrightarrow> True"

lemma check_tag_clean: "check_tag tag = [] \<longleftrightarrow> (\<forall>key \<in> set tag_keys. \<not> strings_Contains tag key)"
proof (cases "find (strings_Contains tag) tag_keys")
  case None
  then have "\<forall>key \<in> set tag_keys. \<not> strings_Contains tag key" by (simp add: find_None_iff)
  with None show ?thesis by (simp add: check_tag_def)
next
  case (Some key)
  then have "\<exists>key \<in> set tag_keys. strings_Contains tag key" by (auto simp: find_Some_iff)
  with Some show ?thesis by (simp add: check_tag_def)
qed

lemma checkTags_clean:
  "checkTags fields' = [] \<longleftrightarrow>
     (\<forall>fs tag x. fields' = Some fs \<and> (Some tag, x) \<in> set fs \<longrightarrow> (\<forall>key \<in> set tag_keys. \<not> strings_Contains tag key))"
proof (cases fields')
  case (Some fs)
  have "checkTags fields' = [] \<longleftrightarrow> (\<forall>(tag, x) \<in> set fs. (case tag of None \<Rightarrow> [] | Some t \<Rightarrow> check_tag t) = [])"
    by (simp add: checkTags_def Some split_def)
  also have "\<dots> \<longleftrightarrow> (\<forall>tag x. (Some tag, x) \<in> set fs \<longrightarrow> check_tag tag = [])"
    by (fastforce split: option.splits)
  finally show ?thesis by (simp only: Some check_tag_clean) blast
qed (simp add: checkTags_def)

lemma node_clean:
  "nofloat_node n = [] \<and> impurity_node n = [] \<and> nondet_node n = [] \<longleftrightarrow> pure_node n"
proof (cases n)
  case (Ident name obj)
  then show ?thesis
  proof (cases obj)
    case (Some ob)
    then show ?thesis using Ident
      by (cases ob; cases "case ob of TypeName p _ _ \<Rightarrow> p | _ \<Rightarrow> None"; cases "case ob of TypeName _ _ t \<Rightarrow> t | _ \<Rightarrow> OtherType") auto
  qed simp
next
  case (CallExpr fn args)
  then show ?thesis by (auto simp: checkCall_def split: ast.splits option.splits object.splits)
next
  case (RangeStmt key val x t body)
  then show ?thesis by (auto simp: checkRange_def split: option.splits)
next
  case (BasicLit kind v)
  then show ?thesis by (cases kind) simp_all
qed (auto simp: checkTags_clean)

lemma concat_map_empty: "concat (map f xs) = [] \<longleftrightarrow> (\<forall>x \<in> set xs. f x = [])"
  by (induction xs) auto

lemma run_clean:
  assumes "IsDomain pattern pkg"
  shows nofloat_clean: "nofloat_run pattern pkg files = [] \<longleftrightarrow>
      (\<forall>file \<in> set files. \<not> skipped file \<longrightarrow> (\<forall>n \<in> set (gf_nodes file). nofloat_node n = []))"
    and impurity_clean: "impurity_run pattern pkg files = [] \<longleftrightarrow>
      (\<forall>file \<in> set files. \<not> skipped file \<longrightarrow> impurity_checkImports file = [] \<and> (\<forall>n \<in> set (gf_nodes file). impurity_node n = []))"
    and nondet_clean: "nondet_run pattern pkg files = [] \<longleftrightarrow>
      (\<forall>file \<in> set files. \<not> skipped file \<longrightarrow> (\<forall>n \<in> set (gf_nodes file). nondet_node n = []))"
  using assms by (auto simp only: nofloat_run_def impurity_run_def nondet_run_def concat_map_empty append_is_Nil_conv
      simp_thms if_False split: if_splits)

lemma imports_clean: "impurity_checkImports file = [] \<longleftrightarrow> (\<forall>spec \<in> set (gf_Imports file). Trim_quotes spec \<notin> set forbiddenImports)"
  by (auto simp: impurity_checkImports_def Let_def)

lemma clean_means_pure:
  assumes "IsDomain pattern pkg"
  shows "nofloat_run pattern pkg files = [] \<and> impurity_run pattern pkg files = [] \<and> nondet_run pattern pkg files = [] \<longleftrightarrow>
    (\<forall>file \<in> set files. \<not> skipped file \<longrightarrow>
      (\<forall>spec \<in> set (gf_Imports file). Trim_quotes spec \<notin> set forbiddenImports) \<and>
      (\<forall>decl \<in> set (gf_Decls file). \<forall>n. child\<^sup>*\<^sup>* decl n \<longrightarrow> pure_node n))"
proof -
  have nodes: "(\<forall>n \<in> set (gf_nodes gf). P n) \<longleftrightarrow> (\<forall>decl \<in> set (gf_Decls gf). \<forall>n. child\<^sup>*\<^sup>* decl n \<longrightarrow> P n)" for gf P
    by (auto simp: gf_nodes_def set_inspect)
  have "nofloat_run pattern pkg files = [] \<and> impurity_run pattern pkg files = [] \<and> nondet_run pattern pkg files = [] \<longleftrightarrow>
      (\<forall>file \<in> set files. \<not> skipped file \<longrightarrow> impurity_checkImports file = [] \<and> (\<forall>n \<in> set (gf_nodes file). pure_node n))"
    unfolding run_clean [OF assms] node_clean [symmetric] by blast
  then show ?thesis by (simp add: nodes imports_clean)
qed

section \<open>The command\<close>

text \<open>\<^verbatim>\<open>src/libs/analysis/cmd/fdoslint\<close> hands the four analysers to the \<^verbatim>\<open>multichecker\<close>, a parameter: it runs each
  analyser on each package and reports what they report.\<close>

datatype diagnostic =
  Nofloat float_report | Nondet nondet_report | Impurity impurity_report | Layering_violation "string \<times> violation"

type_synonym analyzer = "string \<Rightarrow> go_file list \<Rightarrow> diagnostic list"

definition imports_of :: "go_file \<Rightarrow> source_file" where
  "imports_of file = \<lparr>sf_Filename = gf_Filename file, sf_Imports = gf_Imports file\<rparr>"

definition fdoslint ::
  "(analyzer list \<Rightarrow> (string \<times> go_file list) list \<Rightarrow> diagnostic list) \<Rightarrow> (string \<Rightarrow> bool) \<Rightarrow> string \<Rightarrow>
   (string \<times> go_file list) list \<Rightarrow> diagnostic list" where
  "fdoslint multichecker pattern prefix pkgs = multichecker
     [\<lambda>pkg files. map Nofloat (nofloat_run pattern pkg files),
      \<lambda>pkg files. map Nondet (nondet_run pattern pkg files),
      \<lambda>pkg files. map Impurity (impurity_run pattern pkg files),
      \<lambda>pkg files. map Layering_violation (layering_run prefix pkg (map imports_of files))] pkgs"

definition multichecker_law :: "(analyzer list \<Rightarrow> (string \<times> go_file list) list \<Rightarrow> diagnostic list) \<Rightarrow> bool" where
  "multichecker_law multichecker \<longleftrightarrow>
     (\<forall>analyzers pkgs d. d \<in> set (multichecker analyzers pkgs) \<longleftrightarrow>
        (\<exists>a \<in> set analyzers. \<exists>(pkg, files) \<in> set pkgs. d \<in> set (a pkg files)))"

lemma layering_clean:
  "layering_run prefix pkg (map imports_of files) = [] \<longleftrightarrow>
     (\<forall>from file spec to. classify prefix pkg = Some from \<and> file \<in> set files \<and> \<not> IsTestFile (gf_Filename file) \<and>
        spec \<in> set (gf_Imports file) \<and> classify prefix (Trim_quotes spec) = Some to \<longrightarrow> mayImport from to = None)"
proof (cases "classify prefix pkg")
  case (Some here)
  have "layering_run prefix pkg (map imports_of files) = [] \<longleftrightarrow> (\<forall>path v. (path, v) \<notin> set (layering_run prefix pkg (map imports_of files)))"
    by (metis list.set_intros(1) neq_Nil_conv prod.exhaust_sel empty_iff list.set(1))
  then show ?thesis unfolding layering_run_reports [OF Some] 
    by (auto simp: Some IsTestFile_def imports_of_def) (metis not_None_eq)
qed (simp add: layering_run_def)

lemma multichecker_clean:
  assumes "multichecker_law multichecker"
  shows "multichecker analyzers pkgs = [] \<longleftrightarrow> (\<forall>a \<in> set analyzers. \<forall>(pkg, files) \<in> set pkgs. a pkg files = [])"
proof -
  have "multichecker analyzers pkgs = [] \<longleftrightarrow> (\<forall>d. d \<notin> set (multichecker analyzers pkgs))" by auto
  also have "\<dots> \<longleftrightarrow> (\<forall>a \<in> set analyzers. \<forall>(pkg, files) \<in> set pkgs. \<forall>d. d \<notin> set (a pkg files))"
    using assms unfolding multichecker_law_def by fastforce
  also have "\<dots> \<longleftrightarrow> (\<forall>a \<in> set analyzers. \<forall>(pkg, files) \<in> set pkgs. a pkg files = [])" by (simp add: split_def)
  finally show ?thesis .
qed

section \<open>Properties\<close>

text \<open>C35: a clean report means a clean repository, to the last node. \<^verbatim>\<open>fdoslint\<close>, with whatever domain pattern
  and module prefix its flags set, reports nothing exactly when two things hold of every package. If the
  package is in the scope of the pattern, then in every file that is neither a test nor generated no forbidden package
  is imported and every node of the syntax tree, at whatever depth, is pure: no goroutine,
  channel operation or type, no floating-point or imaginary literal or type, no serialisation tag, no
  \<^verbatim>\<open>context.Context\<close>, no call of a clock, an environment or a random source through its package, and no
  range over a map that binds a variable and is not the exempted idiom. And if the topology places the package, no
  import of a file that is not a test breaks the rules of layers and contexts. The default
  pattern takes in exactly the packages, test binaries aside, that have a whole path segment \<^verbatim>\<open>domain\<close> or \<^verbatim>\<open>kernel\<close>.\<close>

theorem fdoslint_clean_exact:
  assumes "multichecker_law multichecker"
  shows "(fdoslint multichecker pattern prefix pkgs = [] \<longleftrightarrow>
      (\<forall>(pkg, files) \<in> set pkgs.
        (IsDomain pattern pkg \<longrightarrow>
          (\<forall>file \<in> set files. \<not> IsTestFile (gf_Filename file) \<and> \<not> IsGenerated (gf_Comments file) (gf_Package file) \<longrightarrow>
            (\<forall>spec \<in> set (gf_Imports file). Trim_quotes spec \<notin> set forbiddenImports) \<and>
            (\<forall>decl \<in> set (gf_Decls file). \<forall>n. child\<^sup>*\<^sup>* decl n \<longrightarrow> pure_node n))) \<and>
        (\<forall>from file spec to. classify prefix pkg = Some from \<and> file \<in> set files \<and> \<not> IsTestFile (gf_Filename file) \<and>
          spec \<in> set (gf_Imports file) \<and> classify prefix (Trim_quotes spec) = Some to \<longrightarrow> mayImport from to = None))) \<and>
    (IsDomain (MatchString DefaultPattern) path \<longleftrightarrow>
      \<not> HasSuffix path ''.test'' \<and> (\<exists>seg \<in> set (Split path (CHR ''/'')). seg = ''domain'' \<or> seg = ''kernel''))"
proof (intro conjI)
  have outside: "nofloat_run pattern pkg files = [] \<and> impurity_run pattern pkg files = [] \<and> nondet_run pattern pkg files = []"
    if "\<not> IsDomain pattern pkg" for pkg files
    using that by (simp add: nofloat_run_def impurity_run_def nondet_run_def)
  have "fdoslint multichecker pattern prefix pkgs = [] \<longleftrightarrow> (\<forall>(pkg, files) \<in> set pkgs.
      (nofloat_run pattern pkg files = [] \<and> impurity_run pattern pkg files = [] \<and> nondet_run pattern pkg files = []) \<and>
      layering_run prefix pkg (map imports_of files) = [])"
    unfolding fdoslint_def multichecker_clean [OF assms] by auto
  also have "\<dots> \<longleftrightarrow> (\<forall>(pkg, files) \<in> set pkgs.
      (IsDomain pattern pkg \<longrightarrow>
        (nofloat_run pattern pkg files = [] \<and> impurity_run pattern pkg files = [] \<and> nondet_run pattern pkg files = [])) \<and>
      layering_run prefix pkg (map imports_of files) = [])"
    using outside by blast
  finally show "fdoslint multichecker pattern prefix pkgs = [] \<longleftrightarrow>
      (\<forall>(pkg, files) \<in> set pkgs.
        (IsDomain pattern pkg \<longrightarrow>
          (\<forall>file \<in> set files. \<not> IsTestFile (gf_Filename file) \<and> \<not> IsGenerated (gf_Comments file) (gf_Package file) \<longrightarrow>
            (\<forall>spec \<in> set (gf_Imports file). Trim_quotes spec \<notin> set forbiddenImports) \<and>
            (\<forall>decl \<in> set (gf_Decls file). \<forall>n. child\<^sup>*\<^sup>* decl n \<longrightarrow> pure_node n))) \<and>
        (\<forall>from file spec to. classify prefix pkg = Some from \<and> file \<in> set files \<and> \<not> IsTestFile (gf_Filename file) \<and>
          spec \<in> set (gf_Imports file) \<and> classify prefix (Trim_quotes spec) = Some to \<longrightarrow> mayImport from to = None))"
    by (simp add: clean_means_pure layering_clean skipped_def)
next
  show "IsDomain (MatchString DefaultPattern) path \<longleftrightarrow>
      \<not> HasSuffix path ''.test'' \<and> (\<exists>seg \<in> set (Split path (CHR ''/'')). seg = ''domain'' \<or> seg = ''kernel'')"
    by (simp add: IsDomain_def default_segments)
qed

text \<open>One iteration per key of a loop whose body is \<^verbatim>\<open>dst = append(src, k)\<close>, on an environment of slices.\<close>

definition append_loop :: "(string \<Rightarrow> 'k list) \<Rightarrow> string \<Rightarrow> string \<Rightarrow> 'k list \<Rightarrow> (string \<Rightarrow> 'k list)" where
  "append_loop env dst src ks = foldl (\<lambda>env k. env(dst := env src @ [k])) env ks"

lemma append_loop_same: "append_loop env dst dst ks = env(dst := env dst @ ks)"
  by (induction ks rule: rev_induct) (auto simp: append_loop_def)

lemma append_loop_other: "dst \<noteq> src \<Longrightarrow> append_loop env dst src (ks @ [k]) = env(dst := env src @ [k])"
proof -
  assume ne: "dst \<noteq> src"
  have "(append_loop env dst src ks) src = env src \<and> (append_loop env dst src ks)(dst := v) = env(dst := v)" for v
    using ne by (induction ks rule: rev_induct) (auto simp: append_loop_def fun_eq_iff)
  then show ?thesis by (simp add: append_loop_def)
qed

text \<open>The exemption of \<^verbatim>\<open>nondet\<close> is wider than the idiom it names. A range over a map whose body is
  \<^verbatim>\<open>dst = append(src, k)\<close> is never reported. When \<^verbatim>\<open>dst\<close> is \<^verbatim>\<open>src\<close>, the idiom, the slice collects the same keys
  whatever order the map is iterated in. But the two are not compared: when they differ the slice ends as
  \<^verbatim>\<open>src\<close> with the key that happened to come last, so two iteration orders of one map that end in different
  keys give different results, and nothing is reported.\<close>

theorem key_idiom_too_wide:
  "checkRange (Some (Ident k o1)) None (Some MapType)
     (Some [AssignStmt [Ident dst o2] [CallExpr (Ident ''append'' o3) [Ident src o4, Ident k o5]]]) = [] \<and>
   (dst = src \<longrightarrow> mset ks = mset ks' \<longrightarrow> mset (append_loop env dst src ks dst) = mset (append_loop env dst src ks' dst)) \<and>
   (dst \<noteq> src \<longrightarrow> ks \<noteq> [] \<longrightarrow> ks' \<noteq> [] \<longrightarrow> last ks \<noteq> last ks' \<longrightarrow>
     append_loop env dst src ks dst \<noteq> append_loop env dst src ks' dst)"
proof (intro conjI impI)
  show "checkRange (Some (Ident k o1)) None (Some MapType)
     (Some [AssignStmt [Ident dst o2] [CallExpr (Ident ''append'' o3) [Ident src o4, Ident k o5]]]) = []"
    by (simp add: checkRange_def isKeyCollectionIdiom_def)
next
  assume "dst = src" "mset ks = mset ks'"
  then show "mset (append_loop env dst src ks dst) = mset (append_loop env dst src ks' dst)" by (simp add: append_loop_same)
next
  assume "dst \<noteq> src" "ks \<noteq> []" "ks' \<noteq> []" "last ks \<noteq> last ks'"
  then show "append_loop env dst src ks dst \<noteq> append_loop env dst src ks' dst"
    using append_loop_other [of dst src env "butlast ks" "last ks"] append_loop_other [of dst src env "butlast ks'" "last ks'"] by simp
qed

text \<open>A clock read through a dot import is an identifier, not a selector, and is not reported.\<close>

lemma dot_import_missed: "nondet_node (CallExpr (Ident ''Now'' (Some (Func (Some ''time'') ''Now''))) []) = []"
  by (simp add: checkCall_def)

section \<open>Witnesses\<close>

definition key_loop :: ast where
  "key_loop = RangeStmt (Some (Ident ''k'' None)) None (Ident ''m'' None) (Some MapType)
     (Some [AssignStmt [Ident ''ks'' None] [CallExpr (Ident ''append'' None) [Ident ''ks'' None, Ident ''k'' None]]])"

definition clean_file :: go_file where
  "clean_file = \<lparr>gf_Filename = ''fact.go'', gf_Comments = [], gf_Package = 0,
     gf_Imports = [[CHR 0x22] @ ''fmt'' @ [CHR 0x22]], gf_Decls = [Other [key_loop]]\<rparr>"

definition run_all :: "analyzer list \<Rightarrow> (string \<times> go_file list) list \<Rightarrow> diagnostic list" where
  "run_all analyzers pkgs = concat (map (\<lambda>(pkg, files). concat (map (\<lambda>a. a pkg files) analyzers)) pkgs)"

lemma run_all_law: "multichecker_law run_all"
  by (auto simp: multichecker_law_def run_all_def)

theorem fdoslint_clean_exact_witness:
  "fdoslint run_all (MatchString DefaultPattern) ''r/'' [(''r/libs/ledger/domain'', [clean_file])] = [] \<and>
   IsDomain (MatchString DefaultPattern) ''r/libs/ledger/domain'' \<and> pure_node key_loop"
proof -
  have dom: "IsDomain (MatchString DefaultPattern) ''r/libs/ledger/domain''"
    using fdoslint_clean_exact [OF run_all_law, where path = "''r/libs/ledger/domain''"] by (simp add: HasSuffix_def Split_def)
  have reached: "child\<^sup>*\<^sup>* (Other [key_loop]) key_loop" by (rule child_reaches [of key_loop]) simp_all
  have "classify ''r/'' ''fmt'' = None" by (simp add: classify_def)
  then have clean: "fdoslint run_all (MatchString DefaultPattern) ''r/'' [(''r/libs/ledger/domain'', [clean_file])] = []"
    by (simp add: fdoslint_def run_all_def dom nofloat_run_def impurity_run_def nondet_run_def clean_file_def key_loop_def gf_nodes_def
        checkCall_def checkRange_def isKeyCollectionIdiom_def impurity_checkImports_def forbiddenImports_def Trim_quotes_def
        layering_run_def check_import_def imports_of_def split: option.split)
  moreover have "\<not> IsTestFile (gf_Filename clean_file) \<and> \<not> IsGenerated (gf_Comments clean_file) (gf_Package clean_file)"
    by (simp add: clean_file_def IsTestFile_def HasSuffix_def)
  ultimately show ?thesis
    using fdoslint_clean_exact [OF run_all_law, of "MatchString DefaultPattern" "''r/''" "[(''r/libs/ledger/domain'', [clean_file])]"] reached dom
    by (simp add: clean_file_def)
qed

theorem key_idiom_too_wide_witness:
  "append_loop (\<lambda>_. []) ''pick'' ''base'' [1, 2 :: int] ''pick'' \<noteq> append_loop (\<lambda>_. []) ''pick'' ''base'' [2, 1] ''pick''"
  using key_idiom_too_wide [of "''k''" None "''pick''" None None "''base''" None None "[1, 2 :: int]" "[2, 1]" "\<lambda>_. []"] by simp

end
