(* ===== verification/Spec2Isabelle.thy ===== *)
theory Spec2Isabelle
  imports Explained Write_Locks Ledger_Journey Store_Conformance Submitd_Process Ingest Purity
begin

text \<open>
  A verification library for FDOS, the Go repository under \<^verbatim>\<open>src/\<close>: a bitemporal, append-only ledger of
  financial holdings in which every fact carries its provenance, every derived value the record of how
  it was derived, and identities are minted from the claims of outside systems.

  \<^bold>\<open>The program.\<close> A producer posts a claim ("account A holds 100 of instrument I") to \<^verbatim>\<open>submitd\<close>, which
  decodes it and hands it to the ledger application. The application stamps it with the ledger's clock
  inside a write region of the store and appends it to a stream. An operator mints identities for the
  claimed account and instrument; a claimed holding then becomes an observation of those identities, a
  position is projected from the observations visible at an effective and a knowledge time, and facts
  are corrected by further facts, never changed. Two stores implement the store port, one in memory and
  one over SQLite; the wire packages translate every value to and from protobuf.

  \<^bold>\<open>Theories and sources\<close>, in the order of their imports.
  \<^item> \<open>Fdos_Prelude\<close>: errors as the chain of their sentinels, \<open>result\<close>, \<open>bindR\<close> for
    \<^verbatim>\<open>if err != nil\<close>, machine integers, the lemmas every component shares.
  \<^item> \<open>Go_Strings\<close>, \<open>Go_Hash\<close>, \<open>Go_Net\<close>: what the sources use of Go's library: UTF-8 and \<^verbatim>\<open>strings\<close>,
    SHA-1 and SHA-256 bit by bit on words, \<^verbatim>\<open>mime\<close>, \<^verbatim>\<open>net\<close>, \<^verbatim>\<open>netip\<close> and the router of \<^verbatim>\<open>net/http\<close>.
  \<^item> \<open>Framing\<close> (\<^verbatim>\<open>libs/kernel/internal/framing\<close>): length-prefixed pre-images; the locale
    \<open>injective_framing\<close> is the promise identity and provenance rely on.
  \<^item> \<open>Temporal\<close>, \<open>Identity\<close>, \<open>Money\<close>, \<open>Provenance\<close>, \<open>Explained\<close> (\<^verbatim>\<open>libs/kernel/*\<close>): instants and
    half-open intervals; identifiers derived from claims, folding rules and rulesets; exact decimal
    amounts and quantities; sources, confidence and content-addressed derivations; values with a trace.
  \<^item> \<open>Ledger_Fact\<close>, \<open>Ledger_Stream\<close>, \<open>Ledger_Position\<close>, \<open>Ledger_Resolve\<close> (\<^verbatim>\<open>libs/ledger/domain\<close>): facts
    and their four payloads, the append-only stream and what is visible of it, positions, resolution
    and minting.
  \<^item> \<open>Ledger_App\<close> (\<^verbatim>\<open>libs/ledger/app\<close>): the ports as records of operations and the five commands and two
    queries. The locale \<open>store_contract\<close> states what a store promises, by an abstract view of it as a
    map of streams and one abstract append, \<open>append_spec\<close>; \<open>total_store\<close> adds that every fact can be
    stored. The commands are verified once, inside; \<open>command_plan\<close> cuts them at their calls of the store
    and the clock, for the theories that interleave them or compare two stores.
  \<^item> \<open>Memory_Store\<close>, \<open>Write_Locks\<close> (\<^verbatim>\<open>libs/ledger/adapters\<close>): the in-memory store, an interpretation of
    \<open>total_store\<close>; the clocks; and its lock table as a step relation in which writers of all five use
    cases interleave at every call, simulated by the relation that runs them one after another.
  \<^item> \<open>Ledger_Journey\<close> (\<^verbatim>\<open>libs/ledger/app\<close>): the use cases one after another, from a claim to a position.
  \<^item> \<open>Kernel_Wire\<close>, \<open>Ledger_Wire\<close> (\<^verbatim>\<open>libs/kernel-wire\<close>, \<^verbatim>\<open>libs/ledger-wire\<close>): every encoder and decoder.
  \<^item> \<open>Sqlite_Store\<close>, \<open>Sqlite_Ledger\<close> (\<^verbatim>\<open>libs/ledger-sqlite\<close>): opening, loading with replay, appending, the
    transaction as the region, and what every failing statement does. The locale \<open>durable_store\<close> assumes the laws of the engine and of
    protobuf; a sublocale makes it a \<open>store_contract\<close>.
  \<^item> \<open>Store_Suite\<close>, \<open>Store_Conformance\<close> (\<^verbatim>\<open>libs/ledger/storetest\<close>): the conformance suite as programs over a
    store, and the locale \<open>suite_store\<close>, in which every case is proved to pass, interpreted on both stores.
  \<^item> \<open>Submitd\<close>, \<open>Submitd_Process\<close> (\<^verbatim>\<open>apps/submitd\<close>), \<open>Ingest\<close> (\<^verbatim>\<open>examples/ingest\<close>): the service's router,
    handler, configuration and wiring; the life of a process as a step relation, from its start to its shutdown, and its
    restart; the conformance kit producers run.
  \<^item> \<open>Layering\<close> (\<^verbatim>\<open>libs/analysis/layering\<close>, \<^verbatim>\<open>libs/analysis/internal/scope\<close>): the analyser that keeps
    contexts and layers apart, and the pattern that says which packages are pure.
  \<^item> \<open>Purity\<close> (\<^verbatim>\<open>libs/analysis/impurity\<close>, \<^verbatim>\<open>nofloat\<close>, \<^verbatim>\<open>nondet\<close>, \<^verbatim>\<open>cmd/fdoslint\<close>): the analysers of the pure core,
    as walks over typed syntax trees, and the command that runs them with the layering analyser.
  \<^item> This theory: the properties that span the service, the wire, the application and the database.

  \<^bold>\<open>How code becomes definitions.\<close> A struct is a record, an enumeration its integer or a datatype, an
  \<^verbatim>\<open>int64\<close> or \<^verbatim>\<open>uint64\<close> a word where its width matters. A method that changes state takes the state and
  returns the new one beside its result; an error is \<open>Inl\<close>, a panic the sentinel \<open>Panic\<close>. A time is the
  number of nanoseconds since 1 January of year 1, Go's zero time. An error is the list of sentinels
  \<^verbatim>\<open>errors.Is\<close> finds in it; its wording is not modelled. Definitions keep the names of the Go functions,
  with the package or receiver in front where two packages share a name.

  \<^bold>\<open>Parameters.\<close> Code outside the repository is an argument of the definitions that use it, with what is
  relied on as a named law and an instance that keeps it: the decimal package (\<open>apd\<close>, with \<open>apd_text\<close>, how it reads
  and prints one plain decimal, and its companions; instances \<open>int_apd\<close> and \<open>dec_apd\<close>), protobuf timestamps (\<open>timestamppb_exact\<close>, \<open>unix_timestamppb\<close>),
  \<^verbatim>\<open>Any\<close> (\<open>anypb_exact\<close>, \<open>direct_anypb\<close>), marshalling (\<open>proto_law\<close>, \<open>direct_proto\<close>), the SQLite engine
  (\<open>sqlite_law\<close> for an engine that works and \<open>sqlite_failstop\<close> for one that may refuse any statement, \<open>sqlite_file_law\<close> and
  \<open>sqlite_reopen_law\<close>; \<open>list_sqlite\<close>, \<open>faulty_libs\<close>, \<open>triple_file\<close> and \<open>marked_file\<close>), the analysers' driver
  (\<open>multichecker_law\<close>, \<open>run_all\<close>), the redirects of \<^verbatim>\<open>net/http\<close> (\<open>redirect_law\<close>, \<open>plain_redirect\<close>), the compilation of a
  regular expression given as a flag, and the letter-case tables beyond ASCII (\<open>unicode\<close>).

  \<^bold>\<open>What the theorems show.\<close>
  \<^item> End to end: a well-made submission is answered 201 and is then in the database under the reference
    returned; any answer but 201 leaves the table as it was, whatever fails; however requests overlap and however the process ends, what was
    answered 201 is there after a restart, and a shutdown that reports no error has left no request behind; a claim,
    its mints and its observation succeed and the position is then the claimed quantity; the kit's
    verdict is the service's for submissions of at most a mebibyte.
  \<^item> The ledger: in every reachable state streams are well-formed, numbered from 1 and strictly increasing
    in knowledge time; a command appends exactly one fact or changes nothing; concurrent writers under
    a clock that advances leave what the same commands leave one after another, never refuse each other and
    never deadlock.
  \<^item> Time: an answer about the past never changes; positions, corrections, minting and resolution do what
    their specifications say, in an order that does not depend on the order of appends.
  \<^item> The stores: the durable store refines the in-memory one, operation by operation and command by
    command; a missing row is never papered over, a load never renumbers, a foreign encoding never opens;
    when any statement of the engine fails, an error leaves the table alone and a reference names a row that is there;
    both pass the conformance suite under every schedule, and its retry loop always lands.
  \<^item> The wire: encoding and decoding are inverse and every decoded value passes the constructors, for all
    eleven codecs of the kernel and for facts and submissions.
  \<^item> The kernel: pre-images are injective, money is exact or refused, texts parse back, intervals partition.
  \<^item> The edges: the service's decision table, inert responses, the loopback rule, the layering rule, and
    that the lint command accepts exactly the repositories that keep to the rules.

  \<^bold>\<open>Bounds.\<close> Streams hold fewer than \<open>2^63\<close> facts, as a Go slice does. The durable store is related to the
  in-memory one for facts its encoding can carry (\<open>sqlite_storable\<close>): a named stream, knowledge time
  within the \<^verbatim>\<open>int64\<close> nanoseconds of the years 1678 to 2262, values the constructors build, and a fact that
  protobuf marshals, which for the real one means that its strings are valid UTF-8. Every loop of the
  sources ends and is a total function here; no fuel is used.

  \<^bold>\<open>Not modelled.\<close> The generated protobuf code, whose message structs are the records of the codec theories; the
  bytes on a socket and the parsing of HTTP, of which the model has the request; the asterisk form of a request
  target; a cancelled \<^verbatim>\<open>context\<close> otherwise than as a statement that fails; the wording of errors and of log lines; the closing
  of the database handle.
\<close>

section \<open>Properties\<close>

text \<open>C1: a submission travels the whole system. A producer encodes a well-made claim, posts it, and the
  service answers 201 naming a reference; the durable ledger then holds the stream it held before with
  one more fact, under that reference, which carries the two claims and the quantity as they were
  submitted, effective as stated and known at the ledger's own clock; and reading the database back
  yields exactly that. The clock must read an instant after the stream's last and within the range the
  database stores, the engine, the codecs and protobuf must keep their laws, and protobuf must marshal the
  one fact that is appended.\<close>

theorem submission_end_to_end:
  assumes laws: "sqlite_law (lb_sqlite L) table" "proto_law (lb_proto L)" "timestamppb_exact (lb_time L)" "anypb_exact (lb_any L)"
    and ledger: "lg_store l = sqlite_store L" "sqlite_inv L table db"
    and claim: "command_value_ok (lb_unicode L) (lb_apd L) cmd" "CheckContentAddress (ac_Source cmd) = Inr ()"
      "ac_Stream cmd \<noteq> []" "ac_CollectedAt cmd \<noteq> zeroInstant"
    and clock: "ck_Now (lg_clock l) k = (Inr t, k')" "nanos_exact t"
      "\<forall>st. loadFrom L db (ac_Stream cmd) = Inr st \<and> st_facts st \<noteq> [] \<longrightarrow> fact_knowledge (last (st_facts st)) < t"
    and room: "length (stream_rows (table db) (ac_Stream cmd)) + 1 < 2 ^ 63"
      "\<forall>e p. accept_built cmd (Inr t) = Inr (e, p) \<longrightarrow> marshals L table db (ac_Stream cmd) e p"
    and wire: "unmarshal body = Inr (EncodeHoldingClaimSubmission (lb_time L) (lb_apd L) cmd)" "length body \<le> maxBody"
  shows "\<exists>db' st' f.
    newHandler redirect X unmarshal (lb_unicode L) (lb_time L) (lb_apd L) l (submissionPath,
      \<lparr>rq_Method = ''POST'', rq_ContentType = protobufMediaType, rq_Body = body, rq_BodyFails = False\<rparr>) (db, k) =
      ((db', k'), \<lparr>rs_Status = 201, rs_Header = plain_headers, rs_Body = write_line (FactRef_String (f_ref f))\<rparr>) \<and>
    sqlite_inv L table db' \<and> loadFrom L db' (ac_Stream cmd) = Inr st' \<and>
    st_facts st' = (case loadFrom L db (ac_Stream cmd) of Inl _ \<Rightarrow> [] | Inr st \<Rightarrow> st_facts st) @ [f] \<and>
    f_payload f = HoldingClaimedP \<lparr>hc_Account = ac_Account cmd, hc_Instrument = ac_Instrument cmd,
      hc_Quantity = ac_Quantity cmd\<rparr> \<and>
    ev_coordinates (f_envelope f) = \<lparr>effective = ac_Effective cmd, knowledge = t\<rparr>"
proof -
  have d: "durable_store L table" by (rule durable_store.intro [OF laws])
  note cmd = posted_command [where unmarshal = unmarshal and body = body, OF laws(3) claim(1) wire]
  from durable_store.well_made_admitted [OF d ledger claim clock room] show ?thesis
    unfolding handler_carries [OF trans [OF posted_routed cmd], simplified] by (fastforce simp: StatusCreated_def)
qed

text \<open>C17: the status tells the truth about the table. Whatever request is sent, to whatever path, whatever
  the table holds and whichever statement of the engine fails: an answer of 201 means that exactly one row
  was added, in the stream the submission names, numbered just after that stream's rows and later
  in knowledge than each of them, which is the encoding of the fact whose reference is the body and
  which carries the claims and the quantity as submitted, effective as stated and known at the
  clock's reading; any other answer means that the table is as it was. The stream may be the
  unnamed one, whose row is added like any other although the durable store then cannot load it.\<close>

theorem submission_atomic:
  assumes "sqlite_failstop (lb_sqlite L) table" "lg_store l = sqlite_store L" "redirect_law redirect" "length (table db) + 1 < 2 ^ 63"
    and "newHandler redirect X unmarshal uc T A l q (db, k) = ((db', k'), rs)"
  shows "if rs_Status rs = 201
    then \<exists>cmd row f t. routed unmarshal uc T A q = Inr cmd \<and> table db' = table db @ [row] \<and>
      rs_Body rs = write_line (FactRef_String (f_ref f)) \<and> sqlite_encodeFact L f = Inr (row_encoded row) \<and>
      fr_Stream (f_ref f) = ac_Stream cmd \<and> row_stream row = ac_Stream cmd \<and> row_sequence row = uint (fr_Sequence (f_ref f)) \<and>
      row_sequence row = int (length (stream_rows (table db) (ac_Stream cmd))) + 1 \<and>
      row_knowledge row = nanos t \<and> (\<forall>r \<in> set (stream_rows (table db) (ac_Stream cmd)). row_knowledge r < row_knowledge row) \<and>
      f_payload f = HoldingClaimedP \<lparr>hc_Account = ac_Account cmd, hc_Instrument = ac_Instrument cmd,
        hc_Quantity = ac_Quantity cmd\<rparr> \<and>
      ev_coordinates (f_envelope f) = \<lparr>effective = ac_Effective cmd, knowledge = t\<rparr> \<and> ck_Now (lg_clock l) k = (Inr t, k')
    else table db' = table db"
proof (cases "routed unmarshal uc T A q")
  case (Inl e)
  then show ?thesis using handler_carries_nothing [OF Inl assms(3), of X l "(db, k)"] assms(5) by auto
next
  case (Inr cmd)
  obtain db1 k1 res where r: "AcceptHoldingClaim l cmd (db, k) = ((db1, k1), res)" by (cases "AcceptHoldingClaim l cmd (db, k)") auto
  then have "run uc l (AcceptHoldingClaimC cmd) (db, k) = ((db1, k1), res)" by simp
  note stop = run_failstop [OF assms(1,2) this]
  note h = assms(5) [unfolded handler_carries [OF Inr] r]
  show ?thesis
  proof (cases res)
    case (Inl err)
    then show ?thesis using h stop statusFor_table(4) [of err] by (auto simp: refuse_def)
  next
    case (Inr ref)
    then have rs: "rs_Status rs = 201" "rs_Body rs = write_line (FactRef_String ref)" "db1 = db'" "k1 = k'"
      using h by (auto simp: status_defs)
    obtain row f e p where row: "table db' = table db @ [row]" "extends_by L (table db) (ac_Stream cmd) row ref" "row_holds L row f"
        "NewFact ref e KindObservation (Some p) = Inr f" "accept_built cmd (fst (ck_Now (lg_clock l) k)) = Inr (e, p)"
        "k' = snd (ck_Now (lg_clock l) k)"
      using stop Inr rs(3,4) by auto
    have f: "f_ref f = ref" "f_envelope f = e" "f_payload f = p" using row(4) by (auto simp: NewFact_def split: if_splits)
    have payload: "p = HoldingClaimedP \<lparr>hc_Account = ac_Account cmd, hc_Instrument = ac_Instrument cmd, hc_Quantity = ac_Quantity cmd\<rparr>"
      using row(5) by (auto simp: accept_built_def with_payload_Inr_iff)
    obtain t where t: "fst (ck_Now (lg_clock l) k) = Inr t" "ev_coordinates e = \<lparr>effective = ac_Effective cmd, knowledge = t\<rparr>"
      using row(5) by (auto simp: accept_built_def with_payload_Inr_iff envelope_for_Inr_iff)
    have now: "ck_Now (lg_clock l) k = (Inr t, k')" using t(1) row(6) by (metis prod.collapse)
    have num: "fr_Stream ref = ac_Stream cmd" "uint (fr_Sequence ref) = int (length (stream_rows (table db) (ac_Stream cmd))) + 1"
      "\<forall>r \<in> set (stream_rows (table db) (ac_Stream cmd)). row_knowledge r < row_knowledge row"
      using row(2) uint_sequence [OF few_rows [OF assms(4)], of "ac_Stream cmd"] by (simp_all add: extends_by_def)
    have held: "row_stream row = fr_Stream ref" "row_sequence row = uint (fr_Sequence ref)" "row_knowledge row = nanos t"
      "sqlite_encodeFact L f = Inr (row_encoded row)"
      using row(3) f t(2) by (simp_all add: row_holds_def)
    show ?thesis
      unfolding rs(1) if_P [OF refl] using Inr rs(2) row(1) f payload t(2) now num held \<open>routed unmarshal uc T A q = Inr cmd\<close>
      by (intro exI [of _ cmd] exI [of _ row] exI [of _ f] exI [of _ t]) simp
  qed
qed

text \<open>C37: a submission that leaves out when it was collected is answered as a failure of the service.
  The producer could mend it and resend, which is what 422 is for, but the ledger's refusal is not
  among the ones mapped to it: the answer is 500 and does not name the cause. Nothing is written.\<close>

theorem untimed_submission_is_500:
  assumes laws: "sqlite_law (lb_sqlite L) table" "proto_law (lb_proto L)" "timestamppb_exact (lb_time L)" "anypb_exact (lb_any L)"
    and ledger: "lg_store l = sqlite_store L" "sqlite_inv L table db"
    and claim: "command_value_ok (lb_unicode L) (lb_apd L) cmd" "CheckContentAddress (ac_Source cmd) = Inr ()"
      "ac_CollectedAt cmd = zeroInstant"
    and clock: "ck_Now (lg_clock l) k = (Inr t, k')" "t \<noteq> zeroInstant"
    and wire: "unmarshal body = Inr (EncodeHoldingClaimSubmission (lb_time L) (lb_apd L) cmd)" "length body \<le> maxBody"
  shows "\<exists>db'. newHandler redirect X unmarshal (lb_unicode L) (lb_time L) (lb_apd L) l (submissionPath,
      \<lparr>rq_Method = ''POST'', rq_ContentType = protobufMediaType, rq_Body = body, rq_BodyFails = False\<rparr>) (db, k) =
      ((db', k'), refuse 500 ''the submission could not be recorded'') \<and> sqlite_view L db' = sqlite_view L db"
proof -
  have d: "durable_store L table" by (rule durable_store.intro [OF laws])
  note cmd = posted_command [where unmarshal = unmarshal and body = body, OF laws(3) claim(1) wire]
  have "statusFor [ErrIncomplete] = StatusInternalServerError"
    by (simp add: statusFor_def errors_Is_def sentinel_defs)
  with durable_store.untimed_refused [OF d ledger claim clock] show ?thesis
    unfolding handler_carries [OF trans [OF posted_routed cmd], simplified] by (auto simp: reasonFor_def StatusInternalServerError_def)
qed

section \<open>Witnesses\<close>

definition posted :: "string \<Rightarrow> (64 word \<times> 32 word) pb_HoldingClaimSubmission result" where
  "posted body = Inr (EncodeHoldingClaimSubmission unix_timestamppb int_apd
     (if body = ''untimed'' then durable_command\<lparr>ac_CollectedAt := zeroInstant\<rparr> else durable_command))"

lemma durable_ledger_store: "lg_store durable_ledger = sqlite_store list_libs"
  by (simp add: durable_ledger_def)

lemma durable_ledger_reads: "ck_Now (lg_clock durable_ledger) (durable_known 0) = (Inr (durable_known 0), durable_known 0)"
  by (simp add: durable_ledger_def Fixed_Now_def)

lemma durable_ready: "nanos_exact (durable_known 0)" "sqlite_inv list_libs (\<lambda>db. db) []"
  "command_value_ok (lb_unicode list_libs) (lb_apd list_libs) durable_command"
  "CheckContentAddress (ac_Source durable_command) = Inr ()" "ac_Stream durable_command \<noteq> []"
  "ac_CollectedAt durable_command \<noteq> zeroInstant" "loadFrom list_libs [] (ac_Stream durable_command) = Inl [ErrStreamNotFound]"
  using durable_known_ok [of 0] list_durable.empty_inv [of "[]"] durable_command_ok sample_source_ok
  by (simp_all add: list_libs_def durable_command_def wire_command_def zeroInstant_def loadFrom_def list_sqlite_def
      stream_rows_def NewStream_def)

theorem submission_end_to_end_witness:
  "\<exists>db' st' f. newHandler plain_redirect any_texts posted unicode_ascii unix_timestamppb int_apd durable_ledger (submissionPath,
      \<lparr>rq_Method = ''POST'', rq_ContentType = protobufMediaType, rq_Body = ''claim'', rq_BodyFails = False\<rparr>) ([], durable_known 0) =
      ((db', durable_known 0), \<lparr>rs_Status = 201, rs_Header = plain_headers, rs_Body = write_line (FactRef_String (f_ref f))\<rparr>) \<and>
    loadFrom list_libs db' ''l'' = Inr st' \<and> st_facts st' = [f]"
proof -
  have "posted ''claim'' = Inr (EncodeHoldingClaimSubmission (lb_time list_libs) (lb_apd list_libs) durable_command)"
    by (simp add: posted_def list_libs_def)
  from submission_end_to_end [where unmarshal = posted and body = "''claim''" and X = any_texts and redirect = plain_redirect and t = "durable_known 0",
      OF list_laws durable_ledger_store durable_ready(2-6) durable_ledger_reads durable_ready(1) _ _ _ this]
  show ?thesis
    using durable_ready(7) list_marshals
    by (auto simp: maxBody_def stream_rows_def list_libs_def durable_command_def wire_command_def)
qed

lemma ref_one: "fr_Stream r = ''l'' \<Longrightarrow> uint (fr_Sequence r) = 1 \<Longrightarrow> r = \<lparr>fr_Stream = ''l'', fr_Sequence = 1\<rparr>"
  by (cases r) (simp add: word_uint_eq_iff)

theorem submission_atomic_witness:
  "(\<exists>db' k' rs row. claim_handler (submissionPath, post_claim) ([], durable_known 0) = ((db', k'), rs) \<and> rs_Status rs = 201 \<and>
     db' = [row] \<and> row_stream row = ''l'' \<and> row_sequence row = 1 \<and> rs_Body rs = write_line (FactRef_String \<lparr>fr_Stream = ''l'', fr_Sequence = 1\<rparr>)) \<and>
   (\<exists>db' k' rs. claim_handler (''/v1/../'', post_claim) ([], durable_known 0) = ((db', k'), rs) \<and> rs_Status rs = 301 \<and> db' = [])"
proof
  note atomic = submission_atomic [OF list_failstop durable_ledger_store plain_redirect_law]
  obtain db' k' rs where h: "claim_handler (submissionPath, post_claim) ([], durable_known 0) = ((db', k'), rs)" "rs_Status rs = 201"
    using claim_handled by blast
  from atomic [OF _ h(1) [unfolded claim_handler_def]]
  show "\<exists>db' k' rs row. claim_handler (submissionPath, post_claim) ([], durable_known 0) = ((db', k'), rs) \<and> rs_Status rs = 201 \<and>
     db' = [row] \<and> row_stream row = ''l'' \<and> row_sequence row = 1 \<and> rs_Body rs = write_line (FactRef_String \<lparr>fr_Stream = ''l'', fr_Sequence = 1\<rparr>)"
    unfolding h(2) if_P [OF refl] claim_routed using ref_one
    by (fastforce simp: h stream_rows_def durable_command_def wire_command_def)
next
  note atomic = submission_atomic [OF list_failstop durable_ledger_store plain_redirect_law]
  have route: "mux_route submissionPath ''POST'' ''/v1/../'' = Redirected ''/''" unfolding submissionPath_def by code_simp
  obtain db' k' rs where h: "claim_handler (''/v1/../'', post_claim) ([], durable_known 0) = ((db', k'), rs)"
    by (cases "claim_handler (''/v1/../'', post_claim) ([], durable_known 0)") auto
  moreover have "rs_Status rs = 301"
    using h route by (auto simp: claim_handler_def newHandler_def plain_redirect_def post_claim_def)
  ultimately show "\<exists>db' k' rs. claim_handler (''/v1/../'', post_claim) ([], durable_known 0) = ((db', k'), rs) \<and> rs_Status rs = 301 \<and> db' = []"
    using atomic [OF _ h [unfolded claim_handler_def]] by simp
qed

theorem untimed_submission_is_500_witness:
  "\<exists>db'. newHandler plain_redirect any_texts posted unicode_ascii unix_timestamppb int_apd durable_ledger (submissionPath,
      \<lparr>rq_Method = ''POST'', rq_ContentType = protobufMediaType, rq_Body = ''untimed'', rq_BodyFails = False\<rparr>) ([], durable_known 0) =
      ((db', durable_known 0), refuse 500 ''the submission could not be recorded'')"
proof -
  let ?cmd = "durable_command\<lparr>ac_CollectedAt := zeroInstant\<rparr>"
  have cmd: "command_value_ok (lb_unicode list_libs) (lb_apd list_libs) ?cmd" "CheckContentAddress (ac_Source ?cmd) = Inr ()"
    "ac_CollectedAt ?cmd = zeroInstant"
    using durable_ready(3,4) by (simp_all add: command_value_ok_def instant_value_ok_def time_in_range_def zeroInstant_def)
  have "posted ''untimed'' = Inr (EncodeHoldingClaimSubmission (lb_time list_libs) (lb_apd list_libs) ?cmd)"
    by (simp add: posted_def list_libs_def)
  from untimed_submission_is_500 [where unmarshal = posted and body = "''untimed''" and X = any_texts and redirect = plain_redirect,
      OF list_laws durable_ledger_store durable_ready(2) cmd durable_ledger_reads nanos_exact_nonzero [OF durable_ready(1)] this]
  show ?thesis by (auto simp: maxBody_def list_libs_def)
qed

end
